(* ===== verification/Prelude.thy ===== *)
theory Prelude
  imports Main "HOL-Library.Word" "HOL-Library.Monad_Syntax" "HOL-Library.Multiset"
begin

text \<open>
  Shared vocabulary of the development: bytes and byte strings, Go's slice operations with their
  run-time panics, the integer conversions the code uses, the contract of Go's
  \<^verbatim>\<open>sort.Slice\<close>, and the generic lemmas the component theories share.

  Conventions, used in every theory.
  \<^item> A computation that can panic (an index or a slice expression out of range) has type
    \<open>'a option\<close>; \<open>None\<close> is the panic. Sequencing is \<open>do\<close>-notation.
  \<^item> A function that returns Go's \<open>(value, error)\<close> has type \<open>go_error + 'a\<close>.
  \<^item> Go's \<open>byte\<close>, \<open>uint16\<close>, \<open>uint32\<close> and \<open>uint64\<close> are \<open>w word\<close>; a length or
    an index is \<open>nat\<close>; an \<open>int\<close> or \<open>int64\<close> that can be negative is \<open>int\<close>.
  \<^item> A time or a duration is an \<open>int\<close> number of nanoseconds.
\<close>

unbundle bit_operations_syntax

section \<open>Bytes, strings and errors\<close>

type_synonym byte = "8 word"
type_synonym bytes = "8 word list"
type_synonym uint16 = "16 word"
type_synonym uint32 = "32 word"

text \<open>An error value is the chain of its messages, the outermost \<^verbatim>\<open>fmt.Errorf\<close> first.\<close>

type_synonym go_error = "string list"

definition wrap_error :: "string \<Rightarrow> go_error \<Rightarrow> go_error" where
  "wrap_error msg e = msg # e"

text \<open>A Go string is its bytes; a HOL character is one byte.\<close>

definition str_bytes :: "string \<Rightarrow> bytes" where
  "str_bytes s = map (\<lambda>c. word_of_nat (of_char c)) s"

definition bytes_str :: "bytes \<Rightarrow> string" where
  "bytes_str bs = map (\<lambda>b. char_of (unat b)) bs"

named_theorems wire_simps \<open>big-endian encoders and decoders as arithmetic\<close>
named_theorems go_defs \<open>Go's slice expressions, unfolded\<close>

lemma length_str_bytes [simp]: "length (str_bytes s) = length s"
  by (simp add: str_bytes_def)

lemma length_bytes_str [simp]: "length (bytes_str b) = length b"
  by (simp add: bytes_str_def)

lemma unat_byte_of_char: "unat (word_of_nat (of_char c) :: byte) = of_char c"
  by (simp add: unat_of_nat)

lemma bytes_str_str_bytes [simp]: "bytes_str (str_bytes s) = s"
  by (simp add: bytes_str_def str_bytes_def o_def unat_byte_of_char)

lemma bytes_str_Nil [simp]: "bytes_str [] = []"
  by (simp add: bytes_str_def)

lemma bytes_str_eq_Nil [simp]: "bytes_str b = [] \<longleftrightarrow> b = []"
  by (simp add: bytes_str_def)

text \<open>\<^verbatim>\<open>fmt.Sprintf("%d", n)\<close> of a value that is not negative.\<close>

fun dec :: "nat \<Rightarrow> string" where
  "dec n = (if n < 10 then [char_of (48 + n)] else dec (n div 10) @ [char_of (48 + n mod 10)])"

declare dec.simps [simp del]

text \<open>The same verb on an \<^verbatim>\<open>int\<close>.\<close>

definition dec_int :: "int \<Rightarrow> string" where
  "dec_int n = (if n < 0 then CHR ''-'' # dec (nat (- n)) else dec (nat n))"

lemma dec_int_of_nat [simp]: "dec_int (int n) = dec n"
  by (simp add: dec_int_def)

section \<open>Go's slices\<close>

text \<open>
  \<open>xs[i]\<close> and \<open>xs[lo:hi]\<close> panic out of range. Go lets \<open>hi\<close> reach the capacity of a
  slice; here it may only reach the length. The code checks every upper bound against
  \<^verbatim>\<open>len\<close> first, so the stricter reading loses nothing (and it makes the no-panic theorems
  stronger).
\<close>

definition go_at :: "'a list \<Rightarrow> nat \<Rightarrow> 'a option" where
  "go_at xs i = (if i < length xs then Some (xs ! i) else None)"

definition go_slice :: "'a list \<Rightarrow> nat \<Rightarrow> nat \<Rightarrow> 'a list option" where
  "go_slice xs lo hi =
     (if lo \<le> hi \<and> hi \<le> length xs then Some (take (hi - lo) (drop lo xs)) else None)"

definition go_from :: "'a list \<Rightarrow> nat \<Rightarrow> 'a list option" where
  "go_from xs lo = go_slice xs lo (length xs)"

declare go_at_def [go_defs] go_slice_def [go_defs] go_from_def [go_defs]

lemma go_at_Some [simp]: "i < length xs \<Longrightarrow> go_at xs i = Some (xs ! i)"
  by (simp add: go_at_def)

lemma go_at_None [simp]: "length xs \<le> i \<Longrightarrow> go_at xs i = None"
  by (simp add: go_at_def)

lemma go_slice_Some [simp]:
  "lo \<le> hi \<Longrightarrow> hi \<le> length xs \<Longrightarrow> go_slice xs lo hi = Some (take (hi - lo) (drop lo xs))"
  by (simp add: go_slice_def)

lemma go_from_Some [simp]: "lo \<le> length xs \<Longrightarrow> go_from xs lo = Some (drop lo xs)"
  by (simp add: go_from_def)

lemma go_from_None [simp]: "length xs < lo \<Longrightarrow> go_from xs lo = None"
  by (simp add: go_from_def go_slice_def)

lemma go_from_append [simp]: "go_from (xs @ ys) (length xs) = Some ys"
  by simp

lemma go_slice_suffix:
  "length xs = n \<Longrightarrow> go_slice (xs @ ys) n (n + length ys) = Some ys"
  by (simp add: go_slice_def)

text \<open>Case rules that expose the bytes a length check guarantees.\<close>

lemma length_ge_4_cases:
  obtains "length xs < 4" | a b c d ys where "xs = a # b # c # d # ys"
proof (cases "length xs < 4")
  case False
  then obtain a b c d ys where "xs = a # b # c # d # ys"
    by (auto simp: not_less numeral_eq_Suc Suc_le_length_iff)
  then show ?thesis by (rule that(2))
qed (rule that(1))

lemma length_ge_5_cases:
  obtains "length xs < 5" | a b c d e ys where "xs = a # b # c # d # e # ys"
proof (cases "length xs < 5")
  case False
  then obtain a b c d e ys where "xs = a # b # c # d # e # ys"
    by (auto simp: not_less numeral_eq_Suc Suc_le_length_iff)
  then show ?thesis by (rule that(2))
qed (rule that(1))

section \<open>Big-endian integers\<close>

text \<open>\<^verbatim>\<open>binary.BigEndian.Uint16\<close> of two bytes.\<close>

definition be_uint16 :: "byte \<Rightarrow> byte \<Rightarrow> uint16" where
  "be_uint16 hi lo = push_bit 8 (ucast hi) OR ucast lo"

definition be_uint32 :: "byte \<Rightarrow> byte \<Rightarrow> byte \<Rightarrow> byte \<Rightarrow> uint32" where
  "be_uint32 a b c d =
     push_bit 24 (ucast a) OR push_bit 16 (ucast b) OR push_bit 8 (ucast c) OR ucast d"

text \<open>The code's own spelling on \<^verbatim>\<open>int\<close>: \<^verbatim>\<open>int(a)<<8 | int(b)\<close>, and with three bytes.\<close>

definition int_be16 :: "byte \<Rightarrow> byte \<Rightarrow> nat" where
  "int_be16 a b = push_bit 8 (unat a) OR unat b"

definition int_be24 :: "byte \<Rightarrow> byte \<Rightarrow> byte \<Rightarrow> nat" where
  "int_be24 a b c = push_bit 16 (unat a) OR push_bit 8 (unat b) OR unat c"

text \<open>\<^verbatim>\<open>byte(v>>8), byte(v)\<close> and its wider siblings.\<close>

definition put_uint16 :: "uint16 \<Rightarrow> bytes" where
  "put_uint16 v = [ucast (drop_bit 8 v), ucast v]"

definition put_uint24 :: "uint32 \<Rightarrow> bytes" where
  "put_uint24 v = [ucast (drop_bit 16 v), ucast (drop_bit 8 v), ucast v]"

definition put_uint32 :: "uint32 \<Rightarrow> bytes" where
  "put_uint32 v =
     [ucast (drop_bit 24 v), ucast (drop_bit 16 v), ucast (drop_bit 8 v), ucast v]"

lemma length_put_uint16 [simp]: "length (put_uint16 v) = 2"
  by (simp add: put_uint16_def)

lemma length_put_uint24 [simp]: "length (put_uint24 v) = 3"
  by (simp add: put_uint24_def)

lemma length_put_uint32 [simp]: "length (put_uint32 v) = 4"
  by (simp add: put_uint32_def)

lemma be_uint16_put [simp]: "be_uint16 (ucast (drop_bit 8 v)) (ucast v) = v"
  by (rule bit_word_eqI) (auto simp: be_uint16_def bit_simps)

lemma be_uint32_put [simp]:
  "be_uint32 (ucast (drop_bit 24 v)) (ucast (drop_bit 16 v)) (ucast (drop_bit 8 v)) (ucast v) = v"
proof (rule bit_word_eqI)
  fix n :: nat
  assume "n < LENGTH(32)"
  then consider "n < 8" | "8 \<le> n" "n < 16" | "16 \<le> n" "n < 24" | "24 \<le> n" "n < 32"
    by force
  then show "bit (be_uint32 (ucast (drop_bit 24 v)) (ucast (drop_bit 16 v))
      (ucast (drop_bit 8 v)) (ucast v)) n = bit v n"
    by cases (auto simp: be_uint32_def bit_simps)
qed

lemma nat_or_shift:
  fixes a b :: nat
  assumes "b < 2 ^ n"
  shows "push_bit n a OR b = a * 2 ^ n + b"
proof -
  have "push_bit n a AND b = 0"
  proof (rule bit_eqI)
    fix k
    have "bit b k \<Longrightarrow> k < n"
      using assms by (metis bit_take_bit_iff take_bit_nat_eq_self_iff)
    then show "bit (push_bit n a AND b) k = bit (0::nat) k"
      by (auto simp: bit_simps)
  qed
  then show ?thesis
    using disjunctive_add_eq_or [of "push_bit n a" b] by (simp add: push_bit_nat_def)
qed

lemma unat_byte_less [simp]: "unat (b :: byte) < 256"
  using unsigned_less [of b, where ?'a = nat] by simp

lemma int_be16_arith [wire_simps]: "int_be16 a b = unat a * 256 + unat b"
  using nat_or_shift [of "unat b" 8 "unat a"] by (simp add: int_be16_def)

lemma be_uint16_arith [wire_simps]: "unat (be_uint16 a b) = unat a * 256 + unat b"
proof -
  have "unat (be_uint16 a b) = push_bit 8 (unat a) OR unat b"
    unfolding be_uint16_def
    by (simp add: unsigned_or_eq unsigned_push_bit_eq unsigned_ucast_eq take_bit_push_bit
        take_bit_nat_eq_self unat_byte_less less_trans [OF unat_byte_less])
  then show ?thesis using int_be16_arith [of a b] by (simp add: int_be16_def)
qed

lemma int_be16_eq: "int_be16 a b = unat (be_uint16 a b)"
  by (simp add: wire_simps)

lemma int_be24_arith [wire_simps]: "int_be24 a b c = unat a * 65536 + unat b * 256 + unat c"
proof -
  have lo: "push_bit 8 (unat b) OR unat c = unat b * 256 + unat c"
    using nat_or_shift [of "unat c" 8 "unat b"] by simp
  have "unat b * 256 + unat c < 2 ^ 16"
    using unat_byte_less [of b] unat_byte_less [of c] by (simp, linarith)
  then have "push_bit 16 (unat a) OR (unat b * 256 + unat c)
      = unat a * 65536 + (unat b * 256 + unat c)"
    using nat_or_shift [of _ 16 "unat a"] by simp
  then show ?thesis by (simp add: int_be24_def lo or.assoc)
qed

section \<open>The contract of sort.Slice\<close>

text \<open>
  \<^verbatim>\<open>sort.Slice(x, less)\<close> permutes \<open>x\<close> into an order in which no element is less than an
  earlier one, provided the comparison is a strict weak order; it is documented as not stable, so
  nothing more may be relied on. The components take the sort as an argument \<open>srt\<close> and their
  theorems assume this contract, stated as a locale.
\<close>

definition strict_weak :: "('a \<Rightarrow> 'a \<Rightarrow> bool) \<Rightarrow> bool" where
  "strict_weak lt \<longleftrightarrow>
     (\<forall>x y. lt x y \<longrightarrow> \<not> lt y x) \<and>
     (\<forall>x y z. \<not> lt x y \<longrightarrow> \<not> lt y z \<longrightarrow> \<not> lt x z)"

lemma strict_weakI:
  "(\<And>x y. lt x y \<Longrightarrow> \<not> lt y x) \<Longrightarrow>
   (\<And>x y z. \<not> lt x y \<Longrightarrow> \<not> lt y z \<Longrightarrow> \<not> lt x z) \<Longrightarrow> strict_weak lt"
  unfolding strict_weak_def by blast

lemma strict_weak_asym: "strict_weak lt \<Longrightarrow> lt x y \<Longrightarrow> \<not> lt y x"
  unfolding strict_weak_def by blast

lemma strict_weak_not_trans:
  "strict_weak lt \<Longrightarrow> \<not> lt x y \<Longrightarrow> \<not> lt y z \<Longrightarrow> \<not> lt x z"
  unfolding strict_weak_def by blast

type_synonym 'a slice_sort = "('a \<Rightarrow> 'a \<Rightarrow> bool) \<Rightarrow> 'a list \<Rightarrow> 'a list"

locale slice_sorter =
  fixes srt :: "('a \<Rightarrow> 'a \<Rightarrow> bool) \<Rightarrow> 'a list \<Rightarrow> 'a list"
  assumes mset_srt: "mset (srt lt xs) = mset xs"
    and ordered_srt: "strict_weak lt \<Longrightarrow> sorted_wrt (\<lambda>x y. \<not> lt y x) (srt lt xs)"
begin

lemma set_srt [simp]: "set (srt lt xs) = set xs"
  by (metis mset_srt set_mset_mset)

lemma length_srt [simp]: "length (srt lt xs) = length xs"
  by (metis mset_srt size_mset)

lemma srt_eq_Nil [simp]: "srt lt xs = [] \<longleftrightarrow> xs = []"
  by (metis length_srt length_0_conv)

lemma hd_srt_minimal:
  assumes "strict_weak lt" and "y \<in> set xs"
  shows "\<not> lt y (hd (srt lt xs))"
proof (cases "srt lt xs")
  case Nil
  with assms(2) show ?thesis by simp
next
  case (Cons z zs)
  have "y \<in> set (z # zs)"
    using assms(2) Cons by (metis set_srt)
  moreover have "sorted_wrt (\<lambda>x y. \<not> lt y x) (z # zs)"
    using ordered_srt [OF assms(1)] Cons by metis
  ultimately show ?thesis
    using Cons strict_weak_asym [OF assms(1), of z z] by auto
qed

lemma take_srt_before_drop:
  assumes "strict_weak lt" and "x \<in> set (take k (srt lt xs))"
    and "y \<in> set (drop k (srt lt xs))"
  shows "\<not> lt y x"
proof -
  have "sorted_wrt (\<lambda>x y. \<not> lt y x) (take k (srt lt xs) @ drop k (srt lt xs))"
    using ordered_srt [OF assms(1)] by simp
  then have "\<forall>x \<in> set (take k (srt lt xs)). \<forall>y \<in> set (drop k (srt lt xs)). \<not> lt y x"
    unfolding sorted_wrt_append by blast
  with assms(2,3) show ?thesis by blast
qed

text \<open>What precedes position \<open>k\<close> are the only elements less than the one there.\<close>

lemma less_than_nth_srt:
  assumes "strict_weak lt" and "k < length xs"
  shows "{y \<in> set xs. lt y (srt lt xs ! k)} \<subseteq> set (take k (srt lt xs))"
proof
  fix y
  assume "y \<in> {y \<in> set xs. lt y (srt lt xs ! k)}"
  then have y: "y \<in> set (srt lt xs)" and lt: "lt y (srt lt xs ! k)" by simp_all
  from y obtain j where j: "j < length (srt lt xs)" "y = srt lt xs ! j"
    unfolding in_set_conv_nth by blast
  have "j < k"
  proof (rule ccontr)
    assume "\<not> j < k"
    then consider "j = k" | "k < j" by linarith
    then show False
    proof cases
      case 1
      with lt j strict_weak_asym [OF assms(1) lt] show False by simp
    next
      case 2
      with sorted_wrt_nth_less [OF ordered_srt [OF assms(1)] 2 j(1)] lt j show False by simp
    qed
  qed
  with j have "j < length (take k (srt lt xs)) \<and> y = take k (srt lt xs) ! j" by simp
  then show "y \<in> set (take k (srt lt xs))" using nth_mem by blast
qed

end

text \<open>
  The algorithm Go runs on slices of at most twelve elements: insertion sort, each element
  moved left past the elements it is less than. The prefix sorted so far is kept reversed.
\<close>

fun insert_left :: "('a \<Rightarrow> 'a \<Rightarrow> bool) \<Rightarrow> 'a \<Rightarrow> 'a list \<Rightarrow> 'a list" where
  "insert_left lt x [] = [x]"
| "insert_left lt x (p # ps) = (if lt x p then p # insert_left lt x ps else x # p # ps)"

fun insertion_loop :: "('a \<Rightarrow> 'a \<Rightarrow> bool) \<Rightarrow> 'a list \<Rightarrow> 'a list \<Rightarrow> 'a list" where
  "insertion_loop lt acc [] = rev acc"
| "insertion_loop lt acc (x # xs) = insertion_loop lt (insert_left lt x acc) xs"

definition insertion_sort :: "'a slice_sort" where
  "insertion_sort lt xs = insertion_loop lt [] xs"

lemma mset_insert_left: "mset (insert_left lt x ps) = add_mset x (mset ps)"
  by (induction ps) auto

lemma set_insert_left: "set (insert_left lt x ps) = insert x (set ps)"
  by (induction ps) auto

lemma mset_insertion_loop: "mset (insertion_loop lt acc xs) = mset acc + mset xs"
  by (induction xs arbitrary: acc) (auto simp: mset_insert_left)

lemma sorted_insert_left:
  assumes "strict_weak lt" and "sorted_wrt (\<lambda>x y. \<not> lt x y) ps"
  shows "sorted_wrt (\<lambda>x y. \<not> lt x y) (insert_left lt x ps)"
  using assms(2)
proof (induction ps)
  case Nil
  then show ?case by simp
next
  case (Cons p ps)
  show ?case
  proof (cases "lt x p")
    case True
    then have "\<not> lt p x" by (rule strict_weak_asym [OF assms(1)])
    with Cons True show ?thesis by (simp add: set_insert_left)
  next
    case False
    then have "\<not> lt x q" if "q \<in> set ps" for q
      using Cons.prems that strict_weak_not_trans [OF assms(1), of x p q] by simp
    with Cons.prems False show ?thesis by simp
  qed
qed

lemma sorted_insertion_loop:
  assumes "strict_weak lt"
  shows "sorted_wrt (\<lambda>x y. \<not> lt x y) acc \<Longrightarrow>
    sorted_wrt (\<lambda>x y. \<not> lt y x) (insertion_loop lt acc xs)"
  by (induction xs arbitrary: acc)
    (auto simp: sorted_wrt_rev intro: sorted_insert_left [OF assms])

interpretation small_sort: slice_sorter insertion_sort
  by unfold_locales
    (simp_all add: insertion_sort_def mset_insertion_loop sorted_insertion_loop)

end
