(* ===== verification/Router.thy ===== *)
theory Router
  imports Prelude "HOL-Library.Signed_Division"
begin

text \<open>
  Endpoint selection with a circuit breaker, \<^verbatim>\<open>internal/routing/router.go\<close>. An endpoint is
  its lock-protected fields and its atomic counters; every operation that reads the clock takes
  the reading as an argument. The \<^verbatim>\<open>int64\<close> arithmetic is on \<open>int\<close>: nanoseconds overflow
  only after centuries. Each method of an endpoint is atomic (it holds the endpoint's lock), so
  any concurrent execution is a sequence of the steps of \<open>ep_step\<close>.
\<close>

datatype EndpointState = StateHealthy | StateUnhealthy | StateOpen

fun EndpointState_String :: "EndpointState \<Rightarrow> string" where
  "EndpointState_String StateHealthy = ''healthy''"
| "EndpointState_String StateUnhealthy = ''unhealthy''"
| "EndpointState_String StateOpen = ''open''"

record Endpoint =
  ep_Addr :: string
  ep_state :: EndpointState
  ep_failures :: int
  ep_openUntil :: int
  ep_ewma :: int
  ep_total :: int
  ep_failed :: int

definition new_endpoint :: "string \<Rightarrow> Endpoint" where
  "new_endpoint addr =
     \<lparr>ep_Addr = addr, ep_state = StateHealthy, ep_failures = 0, ep_openUntil = 0, ep_ewma = 0,
      ep_total = 0, ep_failed = 0\<rparr>"

definition ep_State :: "int \<Rightarrow> Endpoint \<Rightarrow> EndpointState \<times> Endpoint" where
  "ep_State now e =
     (let e = (if ep_state e = StateOpen \<and> now > ep_openUntil e
               then e\<lparr>ep_state := StateUnhealthy, ep_failures := 0\<rparr> else e)
      in (ep_state e, e))"

definition ewma_next :: "int \<Rightarrow> int \<Rightarrow> int" where
  "ewma_next prev sample = (if prev = 0 then sample else (prev * (8 - 1) + sample) sdiv 8)"

definition updateEWMA :: "int \<Rightarrow> Endpoint \<Rightarrow> Endpoint" where
  "updateEWMA sample e = e\<lparr>ep_ewma := ewma_next (ep_ewma e) sample\<rparr>"

definition RecordSuccess :: "int \<Rightarrow> Endpoint \<Rightarrow> Endpoint" where
  "RecordSuccess lat e =
     (let e = updateEWMA lat e; e = e\<lparr>ep_total := ep_total e + 1\<rparr>
      in e\<lparr>ep_state := StateHealthy, ep_failures := 0\<rparr>)"

definition RecordFailure :: "int \<Rightarrow> int \<Rightarrow> int \<Rightarrow> Endpoint \<Rightarrow> bool \<times> Endpoint" where
  "RecordFailure threshold cooldown now e =
     (let e = e\<lparr>ep_failed := ep_failed e + 1\<rparr>;
          e = e\<lparr>ep_failures := ep_failures e + 1\<rparr>
      in if ep_failures e \<ge> threshold
         then (True, e\<lparr>ep_state := StateOpen, ep_openUntil := now + cooldown\<rparr>)
         else (False, e\<lparr>ep_state := StateUnhealthy\<rparr>))"

definition ep_Stats :: "int \<Rightarrow> Endpoint \<Rightarrow> (int \<times> int \<times> int \<times> EndpointState) \<times> Endpoint" where
  "ep_Stats now e =
     (case ep_State now e of (s, e') \<Rightarrow> ((ep_total e, ep_failed e, ep_ewma e, s), e'))"

section \<open>The health check of one endpoint\<close>

datatype router_log = LogHealth string bool int int | LogCircuit string

text \<open>The goroutine's body after its probe answered \<open>(lat, alive)\<close>.\<close>

definition probe_result ::
  "int \<Rightarrow> int \<Rightarrow> int \<Rightarrow> int \<times> bool \<Rightarrow> Endpoint \<Rightarrow> Endpoint \<times> router_log list" where
  "probe_result threshold cooldown now r e =
     (case r of (lat, alive) \<Rightarrow>
        if alive
        then let e = updateEWMA lat e;
                 e = (if ep_state e = StateUnhealthy
                      then e\<lparr>ep_state := StateHealthy, ep_failures := 0\<rparr> else e)
             in (e, [LogHealth (ep_Addr e) True lat 0])
        else let e = e\<lparr>ep_failures := ep_failures e + 1\<rparr>; fails = ep_failures e
             in if ep_failures e \<ge> threshold
                then (e\<lparr>ep_state := StateOpen, ep_openUntil := now + cooldown\<rparr>,
                      [LogHealth (ep_Addr e) False 0 fails, LogCircuit (ep_Addr e)])
                else (e\<lparr>ep_state := StateUnhealthy\<rparr>, [LogHealth (ep_Addr e) False 0 fails]))"

definition check_one ::
  "int \<Rightarrow> int \<Rightarrow> int \<Rightarrow> int \<Rightarrow> int \<times> bool \<Rightarrow> Endpoint \<Rightarrow> Endpoint \<times> router_log list" where
  "check_one threshold cooldown now now' r e =
     (case ep_State now e of (s, e) \<Rightarrow>
        if s = StateOpen then (e, []) else probe_result threshold cooldown now' r e)"

section \<open>The router\<close>

record router =
  rt_endpoints :: "Endpoint list"
  rt_threshold :: int
  rt_cooldown :: int

definition Router_New :: "(string \<times> int) list \<Rightarrow> int \<Rightarrow> int \<Rightarrow> router" where
  "Router_New cfg_endpoints threshold cooldown =
     \<lparr>rt_endpoints = map (\<lambda>(ip, port). new_endpoint (ip @ CHR '':'' # dec_int port)) cfg_endpoints,
      rt_threshold = threshold, rt_cooldown = cooldown\<rparr>"

definition lat_less :: "int \<Rightarrow> int \<Rightarrow> bool" where
  "lat_less li lj =
     (if li = 0 \<and> lj = 0 then False
      else if li = 0 then False
      else if lj = 0 then True
      else li < lj)"

definition ep_less :: "nat \<times> Endpoint \<Rightarrow> nat \<times> Endpoint \<Rightarrow> bool" where
  "ep_less x y = lat_less (ep_ewma (snd x)) (ep_ewma (snd y))"

text \<open>
  \<^verbatim>\<open>Pick\<close>: the answer is the position of the endpoint in the router, the pointer the code
  returns. \<open>draw\<close> is the random number; \<open>srt\<close> is \<^verbatim>\<open>sort.Slice\<close>.
\<close>

definition pick_candidates :: "int \<Rightarrow> Endpoint list \<Rightarrow> (nat \<times> Endpoint) list" where
  "pick_candidates now eps =
     filter (\<lambda>(i, e). ep_state e \<noteq> StateOpen)
       (zip [0..<length eps] (map (\<lambda>e. snd (ep_State now e)) eps))"

definition Pick ::
  "(nat \<times> Endpoint) slice_sort \<Rightarrow> int \<Rightarrow> nat \<Rightarrow> router \<Rightarrow> (go_error + nat) \<times> router" where
  "Pick srt now draw r =
     (let eps = map (\<lambda>e. snd (ep_State now e)) (rt_endpoints r);
          candidates = pick_candidates now (rt_endpoints r);
          r' = r\<lparr>rt_endpoints := eps\<rparr>
      in if candidates = []
         then (Inl [''router: all '' @ dec (length eps) @ '' endpoints circuit-open''], r')
         else let candidates = srt ep_less candidates;
                  top = length candidates;
                  top = (if top > 3 then 3 else top)
              in (Inr (fst (candidates ! (draw mod top))), r'))"

definition checkAll ::
  "(nat \<Rightarrow> int) \<Rightarrow> (nat \<Rightarrow> int) \<Rightarrow> (nat \<Rightarrow> int \<times> bool) \<Rightarrow> router \<Rightarrow> router \<times> router_log list list" where
  "checkAll now now' probes r =
     (let res = map (\<lambda>(i, e). check_one (rt_threshold r) (rt_cooldown r) (now i) (now' i) (probes i) e)
                  (zip [0..<length (rt_endpoints r)] (rt_endpoints r))
      in (r\<lparr>rt_endpoints := map fst res\<rparr>, map snd res))"

definition Router_Status :: "int \<Rightarrow> router \<Rightarrow> string \<times> router" where
  "Router_Status now r =
     (let res = map (ep_State now) (rt_endpoints r);
          count = (\<lambda>s. dec (length (filter (\<lambda>x. fst x = s) res)))
      in (''total='' @ dec (length res) @ '' healthy='' @ count StateHealthy @
          '' unhealthy='' @ count StateUnhealthy @ '' open='' @ count StateOpen,
          r\<lparr>rt_endpoints := map snd res\<rparr>))"

section \<open>Steps of one endpoint\<close>

datatype ep_event =
    EvQuery int
  | EvSuccess int
  | EvFailure int
  | EvProbe int "int \<times> bool"

inductive ep_step :: "int \<Rightarrow> int \<Rightarrow> Endpoint \<Rightarrow> ep_event \<Rightarrow> Endpoint \<Rightarrow> bool" for th cd where
  query: "ep_State now e = (s, e') \<Longrightarrow> ep_step th cd e (EvQuery now) e'"
| success: "ep_step th cd e (EvSuccess lat) (RecordSuccess lat e)"
| failure: "RecordFailure th cd now e = (t, e') \<Longrightarrow> ep_step th cd e (EvFailure now) e'"
| probed: "probe_result th cd now r e = (e', logs) \<Longrightarrow> ep_step th cd e (EvProbe now r) e'"

inductive_cases ep_step_cases [elim!]:
  "ep_step th cd e (EvQuery now) e'"
  "ep_step th cd e (EvSuccess lat) e'"
  "ep_step th cd e (EvFailure now) e'"
  "ep_step th cd e (EvProbe now r) e'"

inductive ep_steps :: "int \<Rightarrow> int \<Rightarrow> Endpoint \<Rightarrow> ep_event list \<Rightarrow> Endpoint \<Rightarrow> bool" for th cd where
  none: "ep_steps th cd e [] e"
| step: "ep_step th cd e ev e' \<Longrightarrow> ep_steps th cd e' evs e'' \<Longrightarrow> ep_steps th cd e (ev # evs) e''"

inductive_cases ep_steps_cases: "ep_steps th cd e evs e'"

text \<open>The well-formed endpoints of a breaker with a positive threshold.\<close>

definition ep_ok :: "int \<Rightarrow> Endpoint \<Rightarrow> bool" where
  "ep_ok th e \<longleftrightarrow>
     (case ep_state e of
        StateHealthy \<Rightarrow> ep_failures e = 0
      | StateUnhealthy \<Rightarrow> 0 \<le> ep_failures e \<and> ep_failures e < th
      | StateOpen \<Rightarrow> th \<le> ep_failures e)"

lemmas ep_defs = ep_State_def RecordSuccess_def RecordFailure_def probe_result_def updateEWMA_def

lemma ep_ok_new [simp]: "ep_ok th (new_endpoint addr)"
  by (simp add: ep_ok_def new_endpoint_def)

lemma ep_ok_step:
  assumes "ep_step th cd e ev e'" and "0 < th" and "ep_ok th e"
  shows "ep_ok th e'"
  using assms
  by (cases rule: ep_step.cases)
    (auto simp: ep_ok_def ep_defs Let_def split: if_splits EndpointState.splits prod.splits)

lemma ep_ok_steps: "ep_steps th cd e evs e' \<Longrightarrow> 0 < th \<Longrightarrow> ep_ok th e \<Longrightarrow> ep_ok th e'"
  by (induction rule: ep_steps.induct) (auto dest: ep_ok_step)

text \<open>How many failures in a row the events end with: queries do not count, and neither does a
  success or a live probe.\<close>

fun ev_failing :: "ep_event \<Rightarrow> bool" where
  "ev_failing (EvFailure now) \<longleftrightarrow> True"
| "ev_failing (EvProbe now r) \<longleftrightarrow> \<not> snd r"
| "ev_failing _ \<longleftrightarrow> False"

fun ev_time :: "ep_event \<Rightarrow> int option" where
  "ev_time (EvQuery now) = Some now"
| "ev_time (EvFailure now) = Some now"
| "ev_time (EvProbe now r) = Some now"
| "ev_time (EvSuccess lat) = None"

lemma failing_step:
  assumes "ep_step th cd e ev e'" and "ev_failing ev"
  shows "ep_failures e' = ep_failures e + 1 \<and>
    ep_state e' = (if ep_failures e + 1 \<ge> th then StateOpen else StateUnhealthy)"
  using assms
  by (cases rule: ep_step.cases) (auto simp: ep_defs Let_def split: if_splits prod.splits)

text \<open>C5. The circuit breaker of an endpoint trips exactly when it should. From any state of a
  breaker with a positive threshold that is reached by any interleaving of successes, failures,
  probes and state queries, a run of \<open>n\<close> consecutive failures (of connections or of probes)
  leaves the endpoint open if and only if the failures counted before and these reach the
  threshold, and otherwise unhealthy; a healthy endpoint has no failure counted, so it opens with
  the threshold-th failure in a row and no earlier.\<close>

theorem circuit_breaker_trips:
  assumes "ep_steps th cd (new_endpoint addr) evs e" and "0 < th"
    and "ep_steps th cd e fails e'" and "\<forall>ev \<in> set fails. ev_failing ev" and "fails \<noteq> []"
  shows "ep_failures e' = ep_failures e + int (length fails) \<and>
    ep_state e' = (if ep_failures e + int (length fails) \<ge> th then StateOpen else StateUnhealthy) \<and>
    (ep_state e = StateHealthy \<longrightarrow> ep_failures e = 0) \<and>
    (ep_state e = StateUnhealthy \<longrightarrow> ep_failures e < th)"
proof -
  have ok: "ep_ok th e" by (rule ep_ok_steps [OF assms(1,2) ep_ok_new])
  have "ep_failures e' = ep_failures e + int (length fails) \<and>
    (fails \<noteq> [] \<longrightarrow> ep_state e' =
       (if ep_failures e + int (length fails) \<ge> th then StateOpen else StateUnhealthy))"
    using assms(3,4)
  proof (induction rule: ep_steps.induct)
    case (none e)
    then show ?case by simp
  next
    case (step e ev e1 evs e2)
    from failing_step [OF step.hyps(1)] step.prems
    have "ep_failures e1 = ep_failures e + 1"
      "ep_state e1 = (if ep_failures e + 1 \<ge> th then StateOpen else StateUnhealthy)" by simp_all
    with step show ?case by (cases evs) (auto elim: ep_steps_cases)
  qed
  with ok assms(5) show ?thesis
    by (simp add: ep_ok_def split: EndpointState.splits)
qed

theorem circuit_breaker_trips_witness:
  "\<exists>e e'. ep_steps 2 30 (new_endpoint ''h'') [EvSuccess 7] e \<and>
     ep_steps 2 30 e [EvFailure 100, EvProbe 101 (0, False)] e' \<and>
     ep_failures e' = ep_failures e + 2 \<and> ep_state e' = StateOpen"
proof -
  let ?e = "RecordSuccess 7 (new_endpoint ''h'')"
  have a: "ep_steps 2 30 (new_endpoint ''h'') [EvSuccess 7] ?e"
    by (rule ep_steps.step [OF ep_step.success ep_steps.none])
  obtain t e1 where f1: "RecordFailure 2 30 100 ?e = (t, e1)" by fastforce
  obtain e2 logs where f2: "probe_result 2 30 101 (0, False) e1 = (e2, logs)" by fastforce
  have b: "ep_steps 2 30 ?e [EvFailure 100, EvProbe 101 (0, False)] e2"
    by (rule ep_steps.step [OF ep_step.failure [OF f1]], rule ep_steps.step [OF ep_step.probed [OF f2]],
        rule ep_steps.none)
  have "ep_failures ?e = 0" by (simp add: RecordSuccess_def Let_def)
  with circuit_breaker_trips [OF a _ b]
  have "ep_failures e2 = ep_failures ?e + 2 \<and> ep_state e2 = StateOpen" by simp
  with a b show ?thesis by blast
qed

text \<open>The open window.\<close>

lemma open_step:
  assumes "ep_step th cd e ev e'" and "ep_state e = StateOpen" and "T \<le> ep_openUntil e"
    and "th \<le> ep_failures e" and "\<forall>lat. ev \<noteq> EvSuccess lat"
    and "\<forall>now. ev_time ev = Some now \<longrightarrow> T - cd \<le> now \<and> now \<le> T"
  shows "ep_state e' = StateOpen \<and> T \<le> ep_openUntil e' \<and> th \<le> ep_failures e'"
  using assms
  by (cases rule: ep_step.cases) (auto simp: ep_defs Let_def split: if_splits prod.splits)

text \<open>An open circuit stays open for its cooldown. After a failure trips the breaker at time
  \<open>t\<close>, no interleaving of further failures, probes (live ones included) and state queries at
  times between \<open>t\<close> and \<open>t + cooldown\<close> closes it: a state query at the end of any such
  sequence still answers open. Only a recorded success does.\<close>

theorem circuit_open_window:
  assumes "RecordFailure th cd t e = (True, e0)" and "ep_steps th cd e0 evs e'"
    and "\<forall>ev \<in> set evs. (\<forall>lat. ev \<noteq> EvSuccess lat) \<and>
           (\<forall>now. ev_time ev = Some now \<longrightarrow> t \<le> now \<and> now \<le> t + cd)"
    and "now \<le> t + cd"
  shows "fst (ep_State now e') = StateOpen"
proof -
  have start: "ep_state e0 = StateOpen" "t + cd \<le> ep_openUntil e0" "th \<le> ep_failures e0"
    using assms(1) by (auto simp: RecordFailure_def Let_def split: if_splits)
  have "ep_state e' = StateOpen \<and> t + cd \<le> ep_openUntil e'"
    using assms(2,3) start
  proof (induction rule: ep_steps.induct)
    case (none e)
    then show ?case by blast
  next
    case (step e ev e1 evs e2)
    have "ep_state e1 = StateOpen \<and> t + cd \<le> ep_openUntil e1 \<and> th \<le> ep_failures e1"
      using step.prems by (intro open_step [OF step.hyps(1)]) auto
    with step show ?case by auto
  qed
  with assms(4) show ?thesis by (simp add: ep_State_def)
qed

theorem circuit_open_window_witness:
  "\<exists>e0 e1 logs. RecordFailure 1 30 100 (new_endpoint ''h'') = (True, e0) \<and>
     probe_result 1 30 110 (5, True) e0 = (e1, logs) \<and> fst (ep_State 130 e1) = StateOpen"
proof -
  obtain e0 where e0: "RecordFailure 1 30 100 (new_endpoint ''h'') = (True, e0)"
    by (simp add: RecordFailure_def new_endpoint_def)
  obtain e1 logs where e1: "probe_result 1 30 110 (5, True) e0 = (e1, logs)" by fastforce
  have "ep_steps 1 30 e0 [EvProbe 110 (5, True)] e1"
    by (rule ep_steps.step [OF ep_step.probed [OF e1] ep_steps.none])
  from circuit_open_window [OF e0 this, of 130] e0 e1 show ?thesis by auto
qed

section \<open>Latency\<close>

lemma sdiv_8_bounds:
  fixes x lo hi :: int
  assumes "8 * lo \<le> x" and "x \<le> 8 * hi" and "0 \<le> lo"
  shows "lo \<le> x sdiv 8 \<and> x sdiv 8 \<le> hi"
proof -
  have "x sdiv 8 = x div 8"
    using assms by (cases "x = 0") (simp_all add: signed_divide_int_def)
  then show ?thesis using assms by linarith
qed

lemma ewma_next_between:
  assumes "0 < lo" and "lo \<le> s" and "s \<le> hi" and "prev = 0 \<or> (lo \<le> prev \<and> prev \<le> hi)"
  shows "lo \<le> ewma_next prev s \<and> ewma_next prev s \<le> hi"
proof (cases "prev = 0")
  case False
  then have "lo \<le> (prev * 7 + s) sdiv 8 \<and> (prev * 7 + s) sdiv 8 \<le> hi"
    using assms by (intro sdiv_8_bounds) linarith+
  with False show ?thesis by (simp add: ewma_next_def)
qed (use assms in \<open>simp add: ewma_next_def\<close>)

text \<open>A step that takes a sample, and its effect on the estimate.\<close>

fun ev_sample :: "ep_event \<Rightarrow> int option" where
  "ev_sample (EvSuccess s) = Some s"
| "ev_sample (EvProbe now r) = (if snd r then Some (fst r) else None)"
| "ev_sample _ = None"

lemma ewma_step:
  assumes "ep_step th cd e ev e'"
  shows "ep_ewma e' = (case ev_sample ev of None \<Rightarrow> ep_ewma e | Some s \<Rightarrow> ewma_next (ep_ewma e) s)"
  using assms
  by (cases rule: ep_step.cases) (auto simp: ep_defs Let_def split: if_splits prod.splits)

lemma ewma_steps:
  assumes "ep_steps th cd e0 evs e" and "0 < lo"
    and "\<forall>ev \<in> set evs. \<forall>s. ev_sample ev = Some s \<longrightarrow> lo \<le> s \<and> s \<le> hi"
    and "ep_ewma e0 = 0 \<or> (lo \<le> ep_ewma e0 \<and> ep_ewma e0 \<le> hi)"
    and "(\<exists>ev \<in> set evs. ev_sample ev \<noteq> None) \<or> ep_ewma e0 \<noteq> 0"
  shows "lo \<le> ep_ewma e \<and> ep_ewma e \<le> hi"
  using assms(1,3,4,5)
proof (induction rule: ep_steps.induct)
  case (none e)
  then show ?case by simp
next
  case (step e ev e1 evs e2)
  show ?case
  proof (cases "ev_sample ev")
    case None
    with step ewma_step [OF step.hyps(1)] show ?thesis by simp
  next
    case (Some s)
    then have "lo \<le> s" "s \<le> hi" using step.prems(1) by simp_all
    with ewma_next_between [OF assms(2) _ _ step.prems(2)] ewma_step [OF step.hyps(1)] Some
    have "lo \<le> ep_ewma e1 \<and> ep_ewma e1 \<le> hi" by simp
    with step assms(2) show ?thesis by simp
  qed
qed

text \<open>The latency estimate of an endpoint stays within the samples: whatever the interleaving
  of operations, once there is a sample the estimate lies between the least and the greatest
  sample seen (all samples positive), in spite of the truncating division; it never falls back
  to 0, the value that means unmeasured.\<close>

theorem ewma_within_samples:
  assumes "ep_steps th cd (new_endpoint addr) evs e" and "0 < lo"
    and "\<forall>ev \<in> set evs. \<forall>s. ev_sample ev = Some s \<longrightarrow> lo \<le> s \<and> s \<le> hi"
    and "\<exists>ev \<in> set evs. ev_sample ev \<noteq> None"
  shows "lo \<le> ep_ewma e \<and> ep_ewma e \<le> hi"
  using ewma_steps [OF assms(1-3)] assms(4) by (simp add: new_endpoint_def)

theorem ewma_within_samples_witness:
  "\<exists>e. ep_steps 5 30 (new_endpoint ''h'') [EvSuccess 100, EvFailure 9, EvSuccess 7] e \<and>
     7 \<le> ep_ewma e \<and> ep_ewma e \<le> 100"
proof -
  obtain t e1 where f: "RecordFailure 5 30 9 (RecordSuccess 100 (new_endpoint ''h'')) = (t, e1)"
    by fastforce
  have "ep_steps 5 30 (new_endpoint ''h'') [EvSuccess 100, EvFailure 9, EvSuccess 7] (RecordSuccess 7 e1)"
    by (rule ep_steps.step [OF ep_step.success], rule ep_steps.step [OF ep_step.failure [OF f]],
        rule ep_steps.step [OF ep_step.success ep_steps.none])
  with ewma_within_samples [OF this, of 7 100] show ?thesis by auto
qed

section \<open>Pick\<close>

lemma lat_less_weak: "strict_weak ep_less"
  by (rule strict_weakI) (auto simp: ep_less_def lat_less_def split: if_splits)

lemma set_pick_candidates:
  "set (pick_candidates now eps) =
     {(i, snd (ep_State now (eps ! i))) | i. i < length eps \<and>
        ep_state (snd (ep_State now (eps ! i))) \<noteq> StateOpen}"
proof (intro set_eqI iffI)
  fix x
  assume "x \<in> set (pick_candidates now eps)"
  then show "x \<in> {(i, snd (ep_State now (eps ! i))) | i. i < length eps \<and>
        ep_state (snd (ep_State now (eps ! i))) \<noteq> StateOpen}"
    by (auto simp: pick_candidates_def set_zip)
next
  fix x
  assume "x \<in> {(i, snd (ep_State now (eps ! i))) | i. i < length eps \<and>
        ep_state (snd (ep_State now (eps ! i))) \<noteq> StateOpen}"
  then obtain i where i: "x = (i, snd (ep_State now (eps ! i)))" "i < length eps"
      "ep_state (snd (ep_State now (eps ! i))) \<noteq> StateOpen" by blast
  then have "x = zip [0..<length eps] (map (\<lambda>e. snd (ep_State now e)) eps) ! i" by simp
  then have "x \<in> set (zip [0..<length eps] (map (\<lambda>e. snd (ep_State now e)) eps))"
    using i(2) nth_mem [of i "zip [0..<length eps] (map (\<lambda>e. snd (ep_State now e)) eps)"] by simp
  then show "x \<in> set (pick_candidates now eps)" using i by (simp add: pick_candidates_def)
qed

context slice_sorter
begin

text \<open>Among the first three of a sorted list, at most two elements come before.\<close>

lemma top3_rank:
  assumes "strict_weak lt" and "k < length xs" and "k < 3"
  shows "card {y \<in> set xs. lt y (srt lt xs ! k)} \<le> 2"
proof -
  have "card {y \<in> set xs. lt y (srt lt xs ! k)} \<le> card (set (take k (srt lt xs)))"
    by (intro card_mono less_than_nth_srt assms) simp
  also have "\<dots> \<le> k" using card_length [of "take k (srt lt xs)"] by simp
  finally show ?thesis using assms(3) by simp
qed

end

lemma Pick_endpoints:
  "Pick srt now draw r = (res, r') \<Longrightarrow>
     rt_endpoints r' = map (\<lambda>e. snd (ep_State now e)) (rt_endpoints r)"
  by (auto simp: Pick_def Let_def split: if_splits)

lemma Pick_index:
  assumes "slice_sorter srt" and "Pick srt now draw r = (Inr i, r')"
  shows "i < length (rt_endpoints r)"
proof -
  let ?cs = "pick_candidates now (rt_endpoints r)"
  have ne: "?cs \<noteq> []" using assms(2) by (auto simp: Pick_def Let_def)
  define k where "k = draw mod (if length ?cs > 3 then 3 else length ?cs)"
  have len: "length (srt ep_less ?cs) = length ?cs"
    by (rule slice_sorter.length_srt [OF assms(1)])
  have i: "i = fst (srt ep_less ?cs ! k)"
    using assms(2) ne len by (auto simp: Pick_def Let_def k_def split: if_splits)
  have "k < (if length ?cs > 3 then 3 else length ?cs)"
    unfolding k_def using ne by (intro mod_less_divisor) simp
  then have "k < length (srt ep_less ?cs)" unfolding len by (simp split: if_splits)
  then have "srt ep_less ?cs ! k \<in> set ?cs"
    using nth_mem slice_sorter.set_srt [OF assms(1)] by metis
  then show ?thesis unfolding i set_pick_candidates by auto
qed

lemma ep_State_keeps [simp]:
  "ep_Addr (snd (ep_State now e)) = ep_Addr e" "ep_failed (snd (ep_State now e)) = ep_failed e"
  "ep_total (snd (ep_State now e)) = ep_total e"
  by (simp_all add: ep_State_def Let_def)

lemma RecordFailure_keeps [simp]:
  "ep_Addr (snd (RecordFailure th cd now e)) = ep_Addr e"
  "ep_failed (snd (RecordFailure th cd now e)) = ep_failed e + 1"
  by (simp_all add: RecordFailure_def Let_def)

text \<open>At most two of the candidates are faster than one of the first three of the sorted slice.\<close>

lemma pick_rank:
  assumes "slice_sorter srt" and k: "k < length cs" "k < 3"
    and cs: "set cs = {(i, eps ! i) | i. i < length eps \<and> ep_state (eps ! i) \<noteq> StateOpen}"
  obtains i where "srt ep_less cs ! k = (i, eps ! i)" "i < length eps" "ep_state (eps ! i) \<noteq> StateOpen"
    and "card {j. j < length eps \<and> ep_state (eps ! j) \<noteq> StateOpen \<and>
             lat_less (ep_ewma (eps ! j)) (ep_ewma (eps ! i))} \<le> 2"
proof -
  obtain i where i: "srt ep_less cs ! k = (i, eps ! i)" "i < length eps" "ep_state (eps ! i) \<noteq> StateOpen"
    using nth_mem [of k "srt ep_less cs"] k cs slice_sorter.length_srt [OF assms(1)]
      slice_sorter.set_srt [OF assms(1)] by auto
  let ?quicker = "{y \<in> set cs. ep_less y (srt ep_less cs ! k)}"
  let ?js = "{j. j < length eps \<and> ep_state (eps ! j) \<noteq> StateOpen \<and>
      lat_less (ep_ewma (eps ! j)) (ep_ewma (eps ! i))}"
  have "?js \<subseteq> fst ` ?quicker" unfolding i(1) cs by (force simp: ep_less_def)
  then have "card ?js \<le> card (fst ` ?quicker)" by (rule card_mono [rotated]) simp
  also have "\<dots> \<le> card ?quicker" by (rule card_image_le) simp
  also have "\<dots> \<le> 2" by (rule slice_sorter.top3_rank [OF assms(1) lat_less_weak k])
  finally show thesis using that i by blast
qed

text \<open>C31. What \<^verbatim>\<open>Pick\<close> answers, for every sort that meets the contract of
  \<^verbatim>\<open>sort.Slice\<close>, every clock reading and every random draw: an error exactly when every
  endpoint is circuit-open; otherwise an endpoint that is not open and that is beaten on latency by at most two
  other endpoints that are not open (an unmeasured endpoint ranks last).\<close>

theorem Pick_fastest_three:
  assumes "slice_sorter srt" and "Pick srt now draw r = (res, r')"
  shows "rt_endpoints r' = map (\<lambda>e. snd (ep_State now e)) (rt_endpoints r) \<and>
    (case res of
       Inl e \<Rightarrow> \<forall>ep \<in> set (rt_endpoints r'). ep_state ep = StateOpen
     | Inr i \<Rightarrow> i < length (rt_endpoints r') \<and> ep_state (rt_endpoints r' ! i) \<noteq> StateOpen \<and>
         card {j. j < length (rt_endpoints r') \<and> ep_state (rt_endpoints r' ! j) \<noteq> StateOpen \<and>
             lat_less (ep_ewma (rt_endpoints r' ! j)) (ep_ewma (rt_endpoints r' ! i))} \<le> 2)"
proof -
  let ?eps = "rt_endpoints r'" and ?cs = "pick_candidates now (rt_endpoints r)"
  have eps: "?eps = map (\<lambda>e. snd (ep_State now e)) (rt_endpoints r)"
    using assms(2) by (auto simp: Pick_def Let_def split: if_splits)
  then have cs: "set ?cs = {(i, ?eps ! i) | i. i < length ?eps \<and> ep_state (?eps ! i) \<noteq> StateOpen}"
    by (auto simp: set_pick_candidates)
  show ?thesis
  proof (cases "?cs = []")
    case True
    with cs have "\<forall>i < length ?eps. ep_state (?eps ! i) = StateOpen" by auto
    with True eps assms(2) show ?thesis
      by (auto simp: Pick_def Let_def in_set_conv_nth)
  next
    case False
    define k where "k = draw mod (if length ?cs > 3 then 3 else length ?cs)"
    have "length (srt ep_less ?cs) = length ?cs"
      by (rule slice_sorter.length_srt [OF assms(1)])
    then have res: "res = Inr (fst (srt ep_less ?cs ! k))"
      using False assms(2) by (auto simp: Pick_def Let_def k_def)
    have "k < (if length ?cs > 3 then 3 else length ?cs)"
      unfolding k_def using False by (intro mod_less_divisor) simp
    then have k: "k < length ?cs" "k < 3" by (simp_all split: if_splits)
    obtain i where "srt ep_less ?cs ! k = (i, ?eps ! i)" "i < length ?eps" "ep_state (?eps ! i) \<noteq> StateOpen"
      "card {j. j < length ?eps \<and> ep_state (?eps ! j) \<noteq> StateOpen \<and>
        lat_less (ep_ewma (?eps ! j)) (ep_ewma (?eps ! i))} \<le> 2"
      by (rule pick_rank [OF assms(1) k cs])
    with eps res show ?thesis by simp
  qed
qed

theorem Pick_fastest_three_witness:
  "\<exists>i r'. Pick insertion_sort 0 1 (Router_New [(''1.2.3.4'', 443), (''5.6.7.8'', 443)] 5 30) =
     (Inr i, r') \<and> i < 2 \<and> ep_state (rt_endpoints r' ! i) \<noteq> StateOpen"
proof -
  let ?r = "Router_New [(''1.2.3.4'', 443), (''5.6.7.8'', 443)] 5 30"
  obtain i r' where p: "Pick insertion_sort 0 1 ?r = (Inr i, r')"
    by (simp add: Pick_def Router_New_def pick_candidates_def new_endpoint_def ep_State_def Let_def)
  from Pick_fastest_three [OF small_sort.slice_sorter_axioms p] p show ?thesis
    by (auto simp: Router_New_def)
qed

end
