(* ===== verification/Fingerprint.thy ===== *)
theory Fingerprint
  imports Prelude
begin

text \<open>
  The TLS fingerprint profiles of \<^verbatim>\<open>internal/tls/fingerprint.go\<close>: GREASE values, extension
  numbers, the five browser profiles and the choice of a profile by name. A draw from a random
  generator is a parameter: \<open>r\<close> is the generator's raw output, which
  \<^verbatim>\<open>Intn(n)\<close> reduces below \<open>n\<close>, so that quantifying over \<open>r\<close> is quantifying over every
  outcome.
\<close>

definition fastRandN :: "nat \<Rightarrow> nat \<Rightarrow> nat" where
  "fastRandN n r = r mod n"

definition greaseValues :: "uint16 list" where
  "greaseValues =
    [0x0A0A, 0x1A1A, 0x2A2A, 0x3A3A, 0x4A4A, 0x5A5A, 0x6A6A, 0x7A7A,
     0x8A8A, 0x9A9A, 0xAAAA, 0xBABA, 0xCACA, 0xDADA, 0xEAEA, 0xFAFA]"

definition randomGREASE :: "nat \<Rightarrow> uint16" where
  "randomGREASE r = greaseValues ! (r mod length greaseValues)"

definition isGREASE :: "uint16 \<Rightarrow> bool" where
  "isGREASE v \<longleftrightarrow> v AND 0x0F0F = 0x0A0A \<and> drop_bit 8 v = v AND 0xFF"

section \<open>Extension numbers\<close>

abbreviation (input) extSNI :: uint16 where "extSNI \<equiv> 0x0000"
abbreviation (input) extStatusRequest :: uint16 where "extStatusRequest \<equiv> 0x0005"
abbreviation (input) extSupportedGroups :: uint16 where "extSupportedGroups \<equiv> 0x000A"
abbreviation (input) extECPointFormats :: uint16 where "extECPointFormats \<equiv> 0x000B"
abbreviation (input) extSigAlgs :: uint16 where "extSigAlgs \<equiv> 0x000D"
abbreviation (input) extALPN :: uint16 where "extALPN \<equiv> 0x0010"
abbreviation (input) extSignedCertTS :: uint16 where "extSignedCertTS \<equiv> 0x0012"
abbreviation (input) extPadding :: uint16 where "extPadding \<equiv> 0x0015"
abbreviation (input) extExtendedMasterSec :: uint16 where "extExtendedMasterSec \<equiv> 0x0017"
abbreviation (input) extCompressCert :: uint16 where "extCompressCert \<equiv> 0x001B"
abbreviation (input) extSessionTicket :: uint16 where "extSessionTicket \<equiv> 0x0023"
abbreviation (input) extSupportedVersions :: uint16 where "extSupportedVersions \<equiv> 0x002B"
abbreviation (input) extPSKKeyExchModes :: uint16 where "extPSKKeyExchModes \<equiv> 0x002D"
abbreviation (input) extKeyShare :: uint16 where "extKeyShare \<equiv> 0x0033"
abbreviation (input) extRenegotiationInfo :: uint16 where "extRenegotiationInfo \<equiv> 0xFF01"

section \<open>Profiles\<close>

text \<open>\<^verbatim>\<open>CompressCert\<close> is a slice that may be nil, hence the option.\<close>

record profile =
  prof_Name :: string
  prof_CipherSuites :: "uint16 list"
  prof_SupportedGroups :: "uint16 list"
  prof_SigAlgs :: "uint16 list"
  prof_ALPNProtos :: "string list"
  prof_TLSVersions :: "uint16 list"
  prof_PSKModes :: bytes
  prof_CompressCert :: "bytes option"
  prof_UseGREASE :: bool
  prof_ExtensionOrder :: "uint16 list"

definition Chrome124 :: profile where
  "Chrome124 = \<lparr>
    prof_Name = ''Chrome/124'',
    prof_CipherSuites = [0x1301, 0x1302, 0x1303, 0xC02B, 0xC02F, 0xC02C, 0xC030, 0xCCA9,
       0xCCA8, 0xC013, 0xC014, 0x009C, 0x009D, 0x002F, 0x0035],
    prof_SupportedGroups = [0x001D, 0x0017, 0x0018, 0x0019],
    prof_SigAlgs = [0x0403, 0x0804, 0x0401, 0x0503, 0x0805, 0x0501, 0x0806, 0x0601,
       0x0201],
    prof_ALPNProtos = [''h2'', ''http/1.1''],
    prof_TLSVersions = [0x0304, 0x0303],
    prof_PSKModes = [0x01],
    prof_CompressCert = Some [0x00, 0x02, 0x00, 0x02],
    prof_UseGREASE = True,
    prof_ExtensionOrder =
      [extSNI, extExtendedMasterSec, extRenegotiationInfo,
       extSupportedGroups, extECPointFormats, extSessionTicket,
       extALPN, extStatusRequest, extSignedCertTS,
       extKeyShare, extSupportedVersions, extCompressCert,
       extPSKKeyExchModes, extPadding]\<rparr>"

definition Firefox125 :: profile where
  "Firefox125 = \<lparr>
    prof_Name = ''Firefox/125'',
    prof_CipherSuites = [0x1301, 0x1303, 0x1302, 0xC02B, 0xC02F, 0xCCA9, 0xCCA8, 0xC02C,
       0xC030, 0xC00A, 0xC009, 0xC013, 0xC014, 0x0033, 0x0039, 0x002F,
       0x0035],
    prof_SupportedGroups = [0x001D, 0x0017, 0x0018, 0x0019],
    prof_SigAlgs = [0x0403, 0x0503, 0x0603, 0x0804, 0x0805, 0x0806, 0x0401, 0x0501,
       0x0601, 0x0203, 0x0201, 0x0303, 0x0301],
    prof_ALPNProtos = [''h2'', ''http/1.1''],
    prof_TLSVersions = [0x0304, 0x0303],
    prof_PSKModes = [0x01],
    prof_CompressCert = None,
    prof_UseGREASE = False,
    prof_ExtensionOrder =
      [extSNI, extExtendedMasterSec, extSupportedGroups,
       extECPointFormats, extSessionTicket, extStatusRequest,
       extALPN, extSigAlgs, extKeyShare,
       extSupportedVersions, extPSKKeyExchModes, extPadding]\<rparr>"

definition Safari17 :: profile where
  "Safari17 = \<lparr>
    prof_Name = ''Safari/17'',
    prof_CipherSuites = [0xC02C, 0xC02B, 0xC030, 0xC02F, 0x1302, 0x1303, 0x1301, 0xCCA9,
       0xCCA8, 0xC014, 0xC013, 0x009D, 0x009C, 0x0035, 0x002F],
    prof_SupportedGroups = [0x001D, 0x0017, 0x0018],
    prof_SigAlgs = [0x0403, 0x0804, 0x0401, 0x0503, 0x0805, 0x0501, 0x0806, 0x0601],
    prof_ALPNProtos = [''h2'', ''http/1.1''],
    prof_TLSVersions = [0x0304, 0x0303],
    prof_PSKModes = [0x01],
    prof_CompressCert = None,
    prof_UseGREASE = False,
    prof_ExtensionOrder =
      [extSNI, extExtendedMasterSec, extSupportedGroups,
       extECPointFormats, extSessionTicket, extALPN,
       extStatusRequest, extSigAlgs, extKeyShare,
       extSupportedVersions, extPSKKeyExchModes, extPadding]\<rparr>"

definition Edge124 :: profile where
  "Edge124 = \<lparr>
    prof_Name = ''Edge/124'',
    prof_CipherSuites = [0x1301, 0x1302, 0x1303, 0xC02B, 0xC02F, 0xC02C, 0xC030, 0xCCA9,
       0xCCA8, 0xC013, 0xC014, 0x009C, 0x009D, 0x002F, 0x0035],
    prof_SupportedGroups = [0x001D, 0x0017, 0x0018, 0x0019, 0x0100],
    prof_SigAlgs = [0x0403, 0x0804, 0x0401, 0x0503, 0x0805, 0x0501, 0x0806, 0x0601,
       0x0201],
    prof_ALPNProtos = [''h2'', ''http/1.1''],
    prof_TLSVersions = [0x0304, 0x0303],
    prof_PSKModes = [0x01],
    prof_CompressCert = Some [0x00, 0x02, 0x00, 0x02],
    prof_UseGREASE = True,
    prof_ExtensionOrder =
      [extSNI, extExtendedMasterSec, extRenegotiationInfo,
       extSupportedGroups, extECPointFormats, extSessionTicket,
       extALPN, extStatusRequest, extSignedCertTS,
       extKeyShare, extSupportedVersions, extCompressCert,
       extPSKKeyExchModes, extPadding]\<rparr>"

definition Chrome120 :: profile where
  "Chrome120 = \<lparr>
    prof_Name = ''Chrome/120'',
    prof_CipherSuites = [0x1301, 0x1302, 0x1303, 0xC02B, 0xC02F, 0xC02C, 0xC030, 0xCCA9,
       0xCCA8, 0xC013, 0xC014, 0x009C, 0x009D, 0x002F, 0x0035],
    prof_SupportedGroups = [0x001D, 0x0017, 0x0018],
    prof_SigAlgs = [0x0403, 0x0804, 0x0401, 0x0503, 0x0805, 0x0501, 0x0806, 0x0601,
       0x0201],
    prof_ALPNProtos = [''h2'', ''http/1.1''],
    prof_TLSVersions = [0x0304, 0x0303],
    prof_PSKModes = [0x01],
    prof_CompressCert = None,
    prof_UseGREASE = True,
    prof_ExtensionOrder =
      [extSNI, extExtendedMasterSec, extRenegotiationInfo,
       extSupportedGroups, extECPointFormats, extSessionTicket,
       extALPN, extStatusRequest, extSignedCertTS,
       extKeyShare, extSupportedVersions, extPSKKeyExchModes,
       extPadding]\<rparr>"

definition allProfiles :: "profile list" where
  "allProfiles = [Chrome124, Firefox125, Safari17, Edge124, Chrome120]"

definition profileMap :: "string \<rightharpoonup> profile" where
  "profileMap =
     [''chrome'' \<mapsto> Chrome124, ''firefox'' \<mapsto> Firefox125, ''safari'' \<mapsto> Safari17,
      ''edge'' \<mapsto> Edge124]"

definition GetProfile :: "string \<Rightarrow> nat \<Rightarrow> profile" where
  "GetProfile name r =
     (if name = ''random'' \<or> name = [] then allProfiles ! fastRandN (length allProfiles) r
      else case profileMap name of Some p \<Rightarrow> p | None \<Rightarrow> Chrome124)"

lemmas profile_defs = Chrome124_def Firefox125_def Safari17_def Edge124_def Chrome120_def

section \<open>Facts about the profiles\<close>

lemma fastRandN_less: "0 < n \<Longrightarrow> fastRandN n r < n"
  by (simp add: fastRandN_def)

lemma GetProfile_in_allProfiles: "GetProfile name r \<in> set allProfiles"
proof -
  have "fastRandN (length allProfiles) r < length allProfiles"
    by (rule fastRandN_less) (simp add: allProfiles_def)
  then have "allProfiles ! fastRandN (length allProfiles) r \<in> set allProfiles"
    by (rule nth_mem)
  moreover have "p \<in> set allProfiles" if "profileMap name = Some p" for p
    using that by (auto simp: profileMap_def allProfiles_def split: if_splits)
  moreover have "Chrome124 \<in> set allProfiles"
    by (simp add: allProfiles_def)
  ultimately show ?thesis
    unfolding GetProfile_def by (simp split: option.split)
qed

text \<open>
  Every GREASE value passes \<open>isGREASE\<close>: the filter of \<^verbatim>\<open>JA3String\<close> removes what the
  builder inserts.
\<close>

lemma isGREASE_greaseValues: "v \<in> set greaseValues \<Longrightarrow> isGREASE v"
  by (auto simp: greaseValues_def isGREASE_def)

lemma isGREASE_randomGREASE: "isGREASE (randomGREASE r)"
proof -
  have "r mod length greaseValues < length greaseValues"
    by (simp add: greaseValues_def)
  then have "randomGREASE r \<in> set greaseValues"
    unfolding randomGREASE_def by (rule nth_mem)
  then show ?thesis by (rule isGREASE_greaseValues)
qed

end
