(* ===== verification/ClientHello.thy ===== *)
theory ClientHello
  imports Fingerprint
begin

text \<open>
  The fake ClientHello of \<^verbatim>\<open>internal/tls/clienthello.go\<close>: the growing byte buffer \<open>buf\<close>,
  \<open>buildExtensions\<close> and \<open>Build\<close>. What \<open>Build\<close> reads from random generators is
  collected in the record \<open>entropy\<close>: a read of 32 random bytes that failed is \<open>None\<close>, a
  successful one is a function from the position to the byte.
\<close>

section \<open>The buffer\<close>

definition writeUint8 :: "bytes \<Rightarrow> byte \<Rightarrow> bytes" where
  "writeUint8 b v = b @ [v]"

definition writeBytes :: "bytes \<Rightarrow> bytes \<Rightarrow> bytes" where
  "writeBytes b v = b @ v"

definition writeUint16 :: "bytes \<Rightarrow> uint16 \<Rightarrow> bytes" where
  "writeUint16 b v = b @ put_uint16 v"

definition writeUint24 :: "bytes \<Rightarrow> uint32 \<Rightarrow> bytes" where
  "writeUint24 b v = b @ put_uint24 v"

definition writeExtension :: "bytes \<Rightarrow> uint16 \<Rightarrow> bytes \<Rightarrow> bytes" where
  "writeExtension b extType data =
     writeBytes (writeUint16 (writeUint16 b extType) (word_of_nat (length data))) data"

lemmas buf_defs = writeUint8_def writeBytes_def writeUint16_def writeUint24_def

text \<open>\<^verbatim>\<open>for _, v := range vs { b.writeUint16(v) }\<close>\<close>

definition writeUint16s :: "bytes \<Rightarrow> uint16 list \<Rightarrow> bytes" where
  "writeUint16s b vs = foldl writeUint16 b vs"

lemma writeUint16s_eq: "writeUint16s b vs = b @ concat (map put_uint16 vs)"
  unfolding writeUint16s_def by (induction vs arbitrary: b) (auto simp: writeUint16_def)

lemma length_concat_put_uint16 [simp]:
  "length (concat (map put_uint16 vs)) = 2 * length vs"
  by (induction vs) auto

section \<open>The extension bodies\<close>

definition sni_body :: "string \<Rightarrow> bytes" where
  "sni_body sni =
     (let sniBytes = str_bytes sni;
          sniBuf = writeBytes (writeUint16 (writeUint8 [] 0x00)
                     (word_of_nat (length sniBytes))) sniBytes
      in writeBytes (writeUint16 [] (word_of_nat (length sniBuf))) sniBuf)"

definition uint16_list_body :: "uint16 list \<Rightarrow> bytes" where
  "uint16_list_body vs =
     (let b = writeUint16s [] vs
      in writeBytes (writeUint16 [] (word_of_nat (length b))) b)"

definition alpn_body :: "string list \<Rightarrow> bytes" where
  "alpn_body protos =
     (let alpnProtos = foldl (\<lambda>b proto. writeBytes (writeUint8 b (word_of_nat (length proto)))
                          (str_bytes proto)) [] protos
      in writeBytes (writeUint16 [] (word_of_nat (length alpnProtos))) alpnProtos)"

definition key_share_body :: "bytes \<Rightarrow> bytes" where
  "key_share_body keySharePub =
     (let ksEntry = writeBytes (writeUint16 (writeUint16 [] 0x001D) 32) keySharePub
      in writeBytes (writeUint16 [] (word_of_nat (length ksEntry))) ksEntry)"

definition supported_versions_body :: "uint16 list \<Rightarrow> bytes" where
  "supported_versions_body vs =
     writeUint16s (writeUint8 [] (word_of_nat (length vs * 2))) vs"

definition psk_modes_body :: "bytes \<Rightarrow> bytes" where
  "psk_modes_body modes = writeBytes (writeUint8 [] (word_of_nat (length modes))) modes"

definition buildExtensions :: "string \<Rightarrow> bytes \<Rightarrow> profile \<Rightarrow> (uint16 \<rightharpoonup> bytes)" where
  "buildExtensions sni keySharePub p =
     (let m = Map.empty
            (extSNI \<mapsto> sni_body sni,
             extExtendedMasterSec \<mapsto> [],
             extRenegotiationInfo \<mapsto> [0x00],
             extSupportedGroups \<mapsto> uint16_list_body (prof_SupportedGroups p),
             extECPointFormats \<mapsto> [0x01, 0x00],
             extSessionTicket \<mapsto> [],
             extALPN \<mapsto> alpn_body (prof_ALPNProtos p),
             extStatusRequest \<mapsto> [0x01, 0x00, 0x00, 0x00, 0x00],
             extSignedCertTS \<mapsto> [],
             extKeyShare \<mapsto> key_share_body keySharePub,
             extSupportedVersions \<mapsto> supported_versions_body (prof_TLSVersions p));
          m = (case prof_CompressCert p of Some c \<Rightarrow> m(extCompressCert \<mapsto> c) | None \<Rightarrow> m)
      in m(extPSKKeyExchModes \<mapsto> psk_modes_body (prof_PSKModes p),
           extSigAlgs \<mapsto> uint16_list_body (prof_SigAlgs p)))"

section \<open>Build\<close>

record entropy =
  ent_random :: "(nat \<Rightarrow> byte) option"
  ent_session :: "(nat \<Rightarrow> byte) option"
  ent_keyshare :: "(nat \<Rightarrow> byte) option"
  ent_grease_cs :: nat
  ent_grease_ext :: nat
  ent_jitter :: nat

definition rand_read :: "nat \<Rightarrow> (nat \<Rightarrow> byte) option \<Rightarrow> string \<Rightarrow> go_error + bytes" where
  "rand_read n src msg =
     (case src of None \<Rightarrow> Inl (wrap_error msg [''rand''])
      | Some f \<Rightarrow> Inr (map f [0..<n]))"

text \<open>The cipher-suite block: a GREASE value, the profile's suites, then \<open>0x00FF\<close>.\<close>

definition build_ciphers :: "profile \<Rightarrow> nat \<Rightarrow> bytes" where
  "build_ciphers p r =
     (let csBuf = (if prof_UseGREASE p then writeUint16 [] (randomGREASE r) else []);
          csBuf = writeUint16s csBuf (prof_CipherSuites p)
      in writeUint16 csBuf 0x00FF)"

text \<open>The extension block before padding.\<close>

definition build_ext_block :: "profile \<Rightarrow> (uint16 \<rightharpoonup> bytes) \<Rightarrow> nat \<Rightarrow> bytes" where
  "build_ext_block p extMap r =
     (let extBuf = (if prof_UseGREASE p then writeExtension [] (randomGREASE r) [0x00] else [])
      in foldl (\<lambda>b extType. case extMap extType of
                   Some data \<Rightarrow> writeExtension b extType data
                 | None \<Rightarrow> b) extBuf (prof_ExtensionOrder p))"

text \<open>How many padding bytes are asked for; negative when the hello is already long enough.\<close>

definition pad_needed :: "nat \<Rightarrow> nat \<Rightarrow> nat \<Rightarrow> nat \<Rightarrow> int" where
  "pad_needed sess_len cs_len ext_len r =
     (let currentLen = int ext_len + 2;
          helloBodyLen = 2 + 32 + 1 + int sess_len + 2 + int cs_len + 1 + 1 + 2 + currentLen;
          jitter = int (fastRandN 33 r) - 16;
          target = 512 + jitter
      in target - helloBodyLen - 4)"

definition build_hello :: "bytes \<Rightarrow> bytes \<Rightarrow> bytes \<Rightarrow> bytes \<Rightarrow> bytes" where
  "build_hello random sessionID csBuf extBuf =
     (let hello = writeUint16 [] 0x0303;
          hello = writeBytes hello random;
          hello = writeUint8 hello (word_of_nat (length sessionID));
          hello = writeBytes hello sessionID;
          hello = writeUint16 hello (word_of_nat (length csBuf));
          hello = writeBytes hello csBuf;
          hello = writeUint8 hello 1;
          hello = writeUint8 hello 0x00;
          hello = writeUint16 hello (word_of_nat (length extBuf))
      in writeBytes hello extBuf)"

definition build_record :: "bytes \<Rightarrow> bytes" where
  "build_record hello =
     (let hs = writeUint8 [] 0x01;
          hs = writeUint24 hs (word_of_nat (length hello));
          hs = writeBytes hs hello;
          rec = writeUint8 [] 0x16;
          rec = writeUint16 rec 0x0301;
          rec = writeUint16 rec (word_of_nat (length hs))
      in writeBytes rec hs)"

definition Build :: "profile \<Rightarrow> string \<Rightarrow> entropy \<Rightarrow> go_error + bytes" where
  "Build p sni ent =
     (case rand_read 32 (ent_random ent) ''clienthello: rand'' of Inl e \<Rightarrow> Inl e
      | Inr random \<Rightarrow>
     (case rand_read 32 (ent_session ent) ''clienthello: rand session'' of Inl e \<Rightarrow> Inl e
      | Inr sessionID \<Rightarrow>
     (case rand_read 32 (ent_keyshare ent) ''clienthello: rand keyshare'' of Inl e \<Rightarrow> Inl e
      | Inr keySharePub \<Rightarrow>
         (let csBuf = build_ciphers p (ent_grease_cs ent);
              extMap = buildExtensions sni keySharePub p;
              extBuf = build_ext_block p extMap (ent_grease_ext ent);
              padNeeded = pad_needed (length sessionID) (length csBuf) (length extBuf)
                            (ent_jitter ent);
              extBuf = (if padNeeded > 0
                        then writeExtension extBuf extPadding (replicate (nat padNeeded) 0)
                        else extBuf)
          in Inr (build_record (build_hello random sessionID csBuf extBuf))))))"

definition NewBuilder :: "string \<Rightarrow> nat \<Rightarrow> profile" where
  "NewBuilder profileName r = GetProfile profileName r"

end
