(* ===== verification/Sni.thy ===== *)
theory Sni
  imports Prelude
begin

text \<open>
  The two SNI parsers of the program: \<^verbatim>\<open>ExtractSNI\<close> with its accumulator
  (\<^verbatim>\<open>internal/tls/sni.go\<close>) and \<^verbatim>\<open>parseSNI\<close> (\<^verbatim>\<open>internal/proxy/relay.go\<close>), the one
  the relay uses. Both return \<open>(sni, done)\<close>; \<open>None\<close> is a run-time panic. The locale
  \<open>stream_parser\<close> states what a caller that feeds a growing buffer relies on.
\<close>

section \<open>ExtractSNI\<close>

definition extract_name :: "bytes \<Rightarrow> (string \<times> bool) option" where
  "extract_name body =
     (if length body < 5 then Some ([], True)
      else do {
        b2 \<leftarrow> go_at body 2;
        if b2 \<noteq> 0x00 then Some ([], True)
        else do {
          n1 \<leftarrow> go_at body 3;
          n2 \<leftarrow> go_at body 4;
          let nameLen = unat (be_uint16 n1 n2);
          if length body < 5 + nameLen then Some ([], True)
          else do {
            name \<leftarrow> go_slice body 5 (5 + nameLen);
            Some (bytes_str name, True)
          }
        }
      })"

text \<open>
  The loop over the extensions. The four patterns of the second equation are the four bytes
  the loop condition \<^verbatim>\<open>len(extData) >= 4\<close> guarantees.
\<close>

fun extract_walk :: "bytes \<Rightarrow> (string \<times> bool) option" where
  "extract_walk (t1 # t2 # l1 # l2 # extData) =
     (let extType = be_uint16 t1 t2; extLen = unat (be_uint16 l1 l2)
      in if length extData < extLen then Some ([], True)
         else let body = take extLen extData; rest = drop extLen extData
              in if extType \<noteq> 0x0000 then extract_walk rest else extract_name body)"
| "extract_walk _ = Some ([], True)"

definition go_be16_at :: "bytes \<Rightarrow> nat \<Rightarrow> nat option" where
  "go_be16_at xs i = do {
     s \<leftarrow> go_slice xs i (i + 2);
     a \<leftarrow> go_at s 0;
     b \<leftarrow> go_at s 1;
     Some (unat (be_uint16 a b))
   }"

text \<open>From the ClientHello body: skip the session id, the ciphers, the compression methods.\<close>

definition extract_hello :: "bytes \<Rightarrow> (string \<times> bool) option" where
  "extract_hello hello =
     (if length hello < 34 then Some ([], True)
      else let pos = 34
      in if pos \<ge> length hello then Some ([], True)
      else do {
        sl \<leftarrow> go_at hello pos;
        let pos = pos + 1 + unat sl;
        if pos + 2 > length hello then Some ([], True)
        else do {
          csLen \<leftarrow> go_be16_at hello pos;
          let pos = pos + 2 + csLen;
          if pos \<ge> length hello then Some ([], True)
          else do {
            cl \<leftarrow> go_at hello pos;
            let pos = pos + 1 + unat cl;
            if pos + 2 > length hello then Some ([], True)
            else do {
              extTotalLen \<leftarrow> go_be16_at hello pos;
              let pos = pos + 2;
              if pos + extTotalLen > length hello then Some ([], True)
              else do {
                extData \<leftarrow> go_slice hello pos (pos + extTotalLen);
                extract_walk extData
              }
            }
          }
        }
      })"

text \<open>From the record's payload: the handshake header.\<close>

definition extract_payload :: "bytes \<Rightarrow> (string \<times> bool) option" where
  "extract_payload payload =
     (if length payload < 4 then Some ([], True)
      else do {
        p0 \<leftarrow> go_at payload 0;
        if p0 \<noteq> 0x01 then Some ([], True)
        else do {
          p1 \<leftarrow> go_at payload 1;
          p2 \<leftarrow> go_at payload 2;
          p3 \<leftarrow> go_at payload 3;
          let hsLen = int_be24 p1 p2 p3;
          if length payload < 4 + hsLen then Some ([], False)
          else do {
            hello \<leftarrow> go_slice payload 4 (4 + hsLen);
            extract_hello hello
          }
        }
      })"

definition ExtractSNI :: "bytes \<Rightarrow> (string \<times> bool) option" where
  "ExtractSNI data =
     (if length data < 5 then Some ([], False)
      else do {
        d0 \<leftarrow> go_at data 0;
        if d0 \<noteq> 0x16 then Some ([], True)
        else do {
          recLen \<leftarrow> go_be16_at data 3;
          if length data < 5 + recLen then Some ([], False)
          else do {
            payload \<leftarrow> go_slice data 5 (5 + recLen);
            extract_payload payload
          }
        }
      })"

section \<open>The accumulator\<close>

record sni_acc =
  acc_buf :: bytes
  acc_maxSize :: int

definition NewSNIAccumulator :: "int \<Rightarrow> sni_acc" where
  "NewSNIAccumulator maxSize =
     \<lparr>acc_buf = [], acc_maxSize = (if maxSize \<le> 0 then 16384 else maxSize)\<rparr>"

definition Feed :: "sni_acc \<Rightarrow> bytes \<Rightarrow> ((string \<times> bool) \<times> sni_acc) option" where
  "Feed a chunk =
     (let a = a\<lparr>acc_buf := acc_buf a @ chunk\<rparr>
      in if int (length (acc_buf a)) > acc_maxSize a then Some (([], True), a)
         else do { r \<leftarrow> ExtractSNI (acc_buf a); Some (r, a) })"

definition acc_Bytes :: "sni_acc \<Rightarrow> bytes" where "acc_Bytes a = acc_buf a"

section \<open>parseSNI\<close>

definition parse_name :: "bytes \<Rightarrow> (string \<times> bool) option" where
  "parse_name body =
     (if length body < 5 then Some ([], True)
      else do {
        n1 \<leftarrow> go_at body 3;
        n2 \<leftarrow> go_at body 4;
        let nameLen = int_be16 n1 n2;
        if 5 + nameLen > length body then Some ([], True)
        else do {
          name \<leftarrow> go_slice body 5 (5 + nameLen);
          Some (bytes_str name, True)
        }
      })"

fun parse_walk :: "bytes \<Rightarrow> (string \<times> bool) option" where
  "parse_walk (e0 # e1 # e2 # e3 # ext) =
     (let et = int_be16 e0 e1; el = int_be16 e2 e3
      in if el > length ext then Some ([], True)
         else let body = take el ext; rest = drop el ext
              in if et \<noteq> 0x0000 then parse_walk rest else parse_name body)"
| "parse_walk _ = Some ([], True)"

definition go_int_be16_at :: "bytes \<Rightarrow> nat \<Rightarrow> nat option" where
  "go_int_be16_at xs i = do {
     a \<leftarrow> go_at xs i;
     b \<leftarrow> go_at xs (i + 1);
     Some (int_be16 a b)
   }"

definition parse_hello :: "bytes \<Rightarrow> (string \<times> bool) option" where
  "parse_hello hello =
     (if length hello < 38 then Some ([], True)
      else let pos = 34
      in if pos \<ge> length hello then Some ([], True)
      else do {
        sl \<leftarrow> go_at hello pos;
        let sessLen = unat sl;
        let pos = pos + 1;
        if pos + sessLen > length hello then Some ([], True)
        else let pos = pos + sessLen
        in if pos + 2 > length hello then Some ([], True)
        else do {
          csLen \<leftarrow> go_int_be16_at hello pos;
          let pos = pos + 2;
          if pos + csLen > length hello then Some ([], True)
          else let pos = pos + csLen
          in if pos \<ge> length hello then Some ([], True)
          else do {
            cl \<leftarrow> go_at hello pos;
            let compLen = unat cl;
            let pos = pos + 1;
            if pos + compLen > length hello then Some ([], True)
            else let pos = pos + compLen
            in if pos + 2 > length hello then Some ([], True)
            else do {
              extTotalLen \<leftarrow> go_int_be16_at hello pos;
              let pos = pos + 2;
              if pos + extTotalLen > length hello then Some ([], True)
              else do {
                ext \<leftarrow> go_slice hello pos (pos + extTotalLen);
                parse_walk ext
              }
            }
          }
        }
      })"

definition parse_payload :: "bytes \<Rightarrow> (string \<times> bool) option" where
  "parse_payload payload =
     (if length payload < 4 then Some ([], True)
      else do {
        p0 \<leftarrow> go_at payload 0;
        if p0 \<noteq> 0x01 then Some ([], True)
        else do {
          p1 \<leftarrow> go_at payload 1;
          p2 \<leftarrow> go_at payload 2;
          p3 \<leftarrow> go_at payload 3;
          let hsLen = int_be24 p1 p2 p3;
          if hsLen > 16384 \<or> length payload < 4 + hsLen
          then Some ([], length payload \<ge> 4 + hsLen)
          else do {
            hello \<leftarrow> go_slice payload 4 (4 + hsLen);
            parse_hello hello
          }
        }
      })"

definition parseSNI :: "bytes \<Rightarrow> (string \<times> bool) option" where
  "parseSNI data =
     (if length data < 5 then Some ([], False)
      else do {
        d0 \<leftarrow> go_at data 0;
        if d0 \<noteq> 0x16 then Some ([], True)
        else do {
          recLen \<leftarrow> go_int_be16_at data 3;
          if recLen > 16384 \<or> length data < 5 + recLen
          then Some ([], length data \<ge> 5 + recLen)
          else do {
            payload \<leftarrow> go_slice data 5 (5 + recLen);
            parse_payload payload
          }
        }
      })"

section \<open>No parser panics\<close>

lemma go_be16_at_Some [simp]:
  "i + 2 \<le> length xs \<Longrightarrow> go_be16_at xs i = Some (unat (be_uint16 (xs ! i) (xs ! Suc i)))"
  by (simp add: go_be16_at_def)

lemma go_int_be16_at_Some [simp]:
  "i + 2 \<le> length xs \<Longrightarrow> go_int_be16_at xs i = Some (int_be16 (xs ! i) (xs ! Suc i))"
  by (simp add: go_int_be16_at_def)

section \<open>The parsers on the shapes of their input\<close>

lemma ExtractSNI_short: "length data < 5 \<Longrightarrow> ExtractSNI data = Some ([], False)"
  by (simp add: ExtractSNI_def)

lemma ExtractSNI_record:
  "ExtractSNI (d0 # v1 # v2 # l1 # l2 # rest) =
     (if d0 \<noteq> 0x16 then Some ([], True)
      else if length rest < unat (be_uint16 l1 l2) then Some ([], False)
      else extract_payload (take (unat (be_uint16 l1 l2)) rest))"
  by (simp add: ExtractSNI_def)

lemma extract_payload_short: "length payload < 4 \<Longrightarrow> extract_payload payload = Some ([], True)"
  by (simp add: extract_payload_def)

lemma extract_payload_handshake:
  "extract_payload (p0 # p1 # p2 # p3 # body) =
     (if p0 \<noteq> 0x01 then Some ([], True)
      else if length body < int_be24 p1 p2 p3 then Some ([], False)
      else extract_hello (take (int_be24 p1 p2 p3) body))"
  by (simp add: extract_payload_def Let_def)

lemma parseSNI_short: "length data < 5 \<Longrightarrow> parseSNI data = Some ([], False)"
  by (simp add: parseSNI_def)

lemma parseSNI_record:
  "parseSNI (d0 # v1 # v2 # l1 # l2 # rest) =
     (if d0 \<noteq> 0x16 then Some ([], True)
      else if int_be16 l1 l2 > 16384 \<or> length rest < int_be16 l1 l2
      then Some ([], length rest \<ge> int_be16 l1 l2)
      else parse_payload (take (int_be16 l1 l2) rest))"
  by (simp add: parseSNI_def)

lemma parse_payload_short: "length payload < 4 \<Longrightarrow> parse_payload payload = Some ([], True)"
  by (simp add: parse_payload_def)

lemma parse_payload_handshake:
  "parse_payload (p0 # p1 # p2 # p3 # body) =
     (if p0 \<noteq> 0x01 then Some ([], True)
      else if int_be24 p1 p2 p3 > 16384 \<or> length body < int_be24 p1 p2 p3
      then Some ([], length body \<ge> int_be24 p1 p2 p3)
      else parse_hello (take (int_be24 p1 p2 p3) body))"
  by (simp add: parse_payload_def Let_def)

section \<open>No parser panics\<close>

lemma extract_name_total: "\<exists>s. extract_name body = Some (s, True)"
  unfolding extract_name_def by (auto simp: Let_def)

lemma parse_name_total: "\<exists>s. parse_name body = Some (s, True)"
  unfolding parse_name_def by (auto simp: Let_def)

lemma extract_walk_total: "\<exists>s. extract_walk ext = Some (s, True)"
  by (induction ext rule: extract_walk.induct) (auto simp: Let_def extract_name_total)

lemma parse_walk_total: "\<exists>s. parse_walk ext = Some (s, True)"
  by (induction ext rule: parse_walk.induct) (auto simp: Let_def parse_name_total)

lemma extract_hello_total: "\<exists>s. extract_hello hello = Some (s, True)"
  unfolding extract_hello_def by (auto simp: Let_def extract_walk_total)

lemma parse_hello_total: "\<exists>s. parse_hello hello = Some (s, True)"
  unfolding parse_hello_def by (auto simp: Let_def parse_walk_total)

lemma extract_payload_total: "\<exists>s done. extract_payload payload = Some (s, done)"
proof (cases payload rule: length_ge_4_cases)
  case 1
  then show ?thesis by (auto simp: extract_payload_short)
next
  case (2 p0 p1 p2 p3 body)
  then show ?thesis
    using extract_hello_total [of "take (int_be24 p1 p2 p3) body"]
    by (auto simp: extract_payload_handshake)
qed

lemma parse_payload_total: "\<exists>s done. parse_payload payload = Some (s, done)"
proof (cases payload rule: length_ge_4_cases)
  case 1
  then show ?thesis by (auto simp: parse_payload_short)
next
  case (2 p0 p1 p2 p3 body)
  then show ?thesis
    using parse_hello_total [of "take (int_be24 p1 p2 p3) body"]
    by (auto simp: parse_payload_handshake)
qed

lemma ExtractSNI_total: "\<exists>s done. ExtractSNI data = Some (s, done)"
  by (cases data rule: length_ge_5_cases)
    (auto simp: ExtractSNI_short ExtractSNI_record extract_payload_total)

lemma parseSNI_total: "\<exists>s done. parseSNI data = Some (s, done)"
  by (cases data rule: length_ge_5_cases)
    (auto simp: parseSNI_short parseSNI_record parse_payload_total)

section \<open>A parser over a growing buffer\<close>

text \<open>
  What a caller relies on when it calls a parser again each time bytes arrive: the parser always
  returns, and an answer given as done is not changed by what arrives later. Both parsers
  provide it, so both give the same answer however TCP cuts the stream into chunks.
\<close>

locale stream_parser =
  fixes parse :: "bytes \<Rightarrow> ('r \<times> bool) option"
  assumes parse_total: "\<exists>r done. parse data = Some (r, done)"
    and parse_stable: "parse data = Some (r, True) \<Longrightarrow> parse (data @ suf) = Some (r, True)"
begin

lemma done_iff_suf:
  assumes "parse data = Some (r, True)" and "parse (data @ suf) = Some (r', d)"
  shows "r' = r \<and> d"
  using parse_stable [OF assms(1), of suf] assms(2) by simp

lemma not_done_prefix:
  assumes "parse (data @ suf) = Some (r, False)"
  shows "\<exists>r'. parse data = Some (r', False)"
proof -
  obtain r' d where rd: "parse data = Some (r', d)"
    using parse_total by blast
  show ?thesis
  proof (cases d)
    case True
    with rd assms show ?thesis using parse_stable [of data r' suf] by simp
  next
    case False
    with rd show ?thesis by simp
  qed
qed

end

lemma ExtractSNI_stable:
  assumes "ExtractSNI data = Some (s, True)"
  shows "ExtractSNI (data @ suf) = Some (s, True)"
proof (cases data rule: length_ge_5_cases)
  case 1
  with assms show ?thesis by (simp add: ExtractSNI_short)
next
  case 2
  with assms show ?thesis by (auto simp: ExtractSNI_record split: if_splits)
qed

lemma parseSNI_stable:
  assumes "parseSNI data = Some (s, True)"
  shows "parseSNI (data @ suf) = Some (s, True)"
proof (cases data rule: length_ge_5_cases)
  case 1
  with assms show ?thesis by (simp add: parseSNI_short)
next
  case 2
  with assms show ?thesis by (auto simp: parseSNI_record split: if_splits)
qed

interpretation sni_stream: stream_parser ExtractSNI
  by unfold_locales (rule ExtractSNI_total, rule ExtractSNI_stable)

interpretation relay_stream: stream_parser parseSNI
  by unfold_locales (rule parseSNI_total, rule parseSNI_stable)

section \<open>The two parsers agree\<close>

lemma parse_name_agrees:
  "extract_name body = Some (s, True) \<Longrightarrow> s \<noteq> [] \<Longrightarrow> parse_name body = Some (s, True)"
  unfolding extract_name_def parse_name_def
  by (auto simp: Let_def int_be16_eq split: if_splits)

lemma parse_walk_agrees:
  "extract_walk ext = Some (s, True) \<Longrightarrow> s \<noteq> [] \<Longrightarrow> parse_walk ext = Some (s, True)"
proof (induction ext rule: extract_walk.induct)
  case (1 t1 t2 l1 l2 extData)
  then show ?case
    by (auto simp: Let_def int_be16_eq unat_eq_0 parse_name_agrees split: if_splits)
qed auto

lemma parse_hello_agrees:
  "extract_hello hello = Some (s, True) \<Longrightarrow> s \<noteq> [] \<Longrightarrow> parse_hello hello = Some (s, True)"
  unfolding extract_hello_def parse_hello_def
  by (auto simp: Let_def int_be16_eq parse_walk_agrees split: if_splits)

text \<open>
  Whenever \<open>ExtractSNI\<close> finds a name in a record of a legal size, the relay's parser finds the
  same one.
\<close>

lemma parseSNI_agrees:
  assumes "ExtractSNI data = Some (s, True)" and "s \<noteq> []" and "length data \<le> 16384"
  shows "parseSNI data = Some (s, True)"
proof (cases data rule: length_ge_5_cases)
  case 1
  with assms show ?thesis by (simp add: ExtractSNI_short)
next
  case (2 d0 v1 v2 l1 l2 rest)
  let ?n = "int_be16 l1 l2"
  from 2 assms have d0: "d0 = 0x16" and fits: "?n \<le> length rest"
    and payload: "extract_payload (take ?n rest) = Some (s, True)"
    by (auto simp: ExtractSNI_record int_be16_eq split: if_splits)
  have "parse_payload (take ?n rest) = Some (s, True)"
  proof (cases "take ?n rest" rule: length_ge_4_cases)
    case 1
    with payload assms(2) show ?thesis by (simp add: extract_payload_short)
  next
    case (2 p0 p1 p2 p3 body)
    have "length (take ?n rest) \<le> 16384"
      using assms(3) \<open>data = d0 # v1 # v2 # l1 # l2 # rest\<close> by simp
    with 2 have "length body \<le> 16384" by simp
    with 2 payload assms(2) show ?thesis
      by (auto simp: extract_payload_handshake parse_payload_handshake parse_hello_agrees
          split: if_splits)
  qed
  with 2 d0 fits assms(3) show ?thesis by (simp add: parseSNI_record)
qed

section \<open>Properties of the parsers\<close>



text \<open>Feeding chunks until the accumulator says it is done.\<close>

fun feed_until :: "sni_acc \<Rightarrow> bytes list \<Rightarrow> ((string \<times> bool) \<times> sni_acc) option" where
  "feed_until a [] = Some (([], False), a)"
| "feed_until a (chunk # chunks) = do {
     ((s, fin), a) \<leftarrow> Feed a chunk;
     if fin \<or> chunks = [] then Some ((s, fin), a) else feed_until a chunks
   }"

lemma feed_until_stream:
  assumes "chunks \<noteq> []" and "int (length (acc_buf a @ concat chunks)) \<le> acc_maxSize a"
  shows "\<exists>r a'. feed_until a chunks = Some (r, a') \<and> ExtractSNI (acc_buf a @ concat chunks) = Some r"
  using assms
proof (induction chunks arbitrary: a)
  case Nil
  then show ?case by simp
next
  case (Cons chunk chunks)
  let ?a = "a\<lparr>acc_buf := acc_buf a @ chunk\<rparr>"
  obtain s fin where e: "ExtractSNI (acc_buf a @ chunk) = Some (s, fin)"
    using ExtractSNI_total by blast
  have feed: "Feed a chunk = Some ((s, fin), ?a)"
    using Cons.prems(2) e by (simp add: Feed_def Let_def)
  consider "chunks = []" | "chunks \<noteq> []" "fin" | "chunks \<noteq> []" "\<not> fin" by blast
  then show ?case
  proof cases
    case 1
    with e feed show ?thesis by simp
  next
    case 2
    with e have "ExtractSNI ((acc_buf a @ chunk) @ concat chunks) = Some (s, True)"
      using sni_stream.parse_stable [of "acc_buf a @ chunk" s "concat chunks"] by simp
    with 2 feed show ?thesis
      by (intro exI [of _ "(s, True)"] exI [of _ ?a]) simp
  next
    case 3
    with Cons.IH [of ?a] Cons.prems(2) feed show ?thesis by simp
  qed
qed

text \<open>The accumulator gives the answer of the whole buffer, however the bytes arrive: fed the
  chunks of a stream that fits its size, stopping when it says it is done, it ends with what
  \<^verbatim>\<open>ExtractSNI\<close> says of all the bytes together.\<close>

theorem SNIAccumulator_any_chunks:
  assumes "chunks \<noteq> []"
    and "int (length (concat chunks)) \<le> (if maxSize \<le> 0 then 16384 else maxSize)"
  shows "\<exists>r a. feed_until (NewSNIAccumulator maxSize) chunks = Some (r, a) \<and>
    ExtractSNI (concat chunks) = Some r"
  using feed_until_stream [of chunks "NewSNIAccumulator maxSize"] assms
  by (simp add: NewSNIAccumulator_def)

theorem SNIAccumulator_any_chunks_witness:
  "\<exists>r a. feed_until (NewSNIAccumulator 0) [[0x16, 3], [1, 0, 4, 1], [0, 0, 0]] = Some (r, a) \<and>
     ExtractSNI [0x16, 3, 1, 0, 4, 1, 0, 0, 0] = Some r"
  using SNIAccumulator_any_chunks [of "[[0x16, 3], [1, 0, 4, 1], [0, 0, 0]]" 0] by simp

end
