(* ===== verification/HelloRoundtrip.thy ===== *)
theory HelloRoundtrip
  imports ClientHello Sni
begin

text \<open>
  What the SNI parsers read out of a ClientHello the builder wrote. The extension block is seen
  as the list of its \<open>(type, body)\<close> pairs; the parsers walk that list.
\<close>

section \<open>The extension block as a list\<close>

definition enc_ext :: "uint16 \<times> bytes \<Rightarrow> bytes" where
  "enc_ext e = put_uint16 (fst e) @ put_uint16 (word_of_nat (length (snd e))) @ snd e"

definition enc_exts :: "(uint16 \<times> bytes) list \<Rightarrow> bytes" where
  "enc_exts es = concat (map enc_ext es)"

lemma enc_exts_simps [simp]:
  "enc_exts [] = []"
  "enc_exts (e # es) = enc_ext e @ enc_exts es"
  "enc_exts (es @ fs) = enc_exts es @ enc_exts fs"
  by (simp_all add: enc_exts_def)

lemma writeExtension_enc: "writeExtension b t d = b @ enc_ext (t, d)"
  by (simp add: writeExtension_def buf_defs enc_ext_def)

lemma length_enc_ext [simp]: "length (enc_ext e) = 4 + length (snd e)"
  by (simp add: enc_ext_def)

definition grease_ext :: "profile \<Rightarrow> nat \<Rightarrow> (uint16 \<times> bytes) list" where
  "grease_ext p r = (if prof_UseGREASE p then [(randomGREASE r, [0x00])] else [])"

definition profile_exts :: "profile \<Rightarrow> (uint16 \<rightharpoonup> bytes) \<Rightarrow> (uint16 \<times> bytes) list" where
  "profile_exts p extMap =
     List.map_filter (\<lambda>t. map_option (Pair t) (extMap t)) (prof_ExtensionOrder p)"

definition pad_ext :: "int \<Rightarrow> (uint16 \<times> bytes) list" where
  "pad_ext n = (if n > 0 then [(extPadding, replicate (nat n) 0)] else [])"

lemma foldl_exts:
  "foldl (\<lambda>b t. case m t of Some data \<Rightarrow> writeExtension b t data | None \<Rightarrow> b) b ts =
     b @ enc_exts (List.map_filter (\<lambda>t. map_option (Pair t) (m t)) ts)"
  by (induction ts arbitrary: b)
    (auto simp: map_filter_simps writeExtension_enc split: option.splits)

lemma build_ext_block_enc:
  "build_ext_block p m r = enc_exts (grease_ext p r @ profile_exts p m)"
  by (simp add: build_ext_block_def Let_def foldl_exts grease_ext_def profile_exts_def
      writeExtension_enc)

text \<open>All extensions of a built hello, in order.\<close>

definition hello_exts :: "profile \<Rightarrow> string \<Rightarrow> bytes \<Rightarrow> entropy \<Rightarrow> (uint16 \<times> bytes) list" where
  "hello_exts p sni ks ent =
     (let m = buildExtensions sni ks p;
          es = grease_ext p (ent_grease_ext ent) @ profile_exts p m
      in es @ pad_ext (pad_needed 32 (length (build_ciphers p (ent_grease_cs ent)))
                         (length (enc_exts es)) (ent_jitter ent)))"

lemma Build_Inr:
  assumes "Build p sni ent = Inr rec"
  obtains rnd sess ks where "length rnd = 32" "length sess = 32" "length ks = 32"
    "rec = build_record (build_hello rnd sess (build_ciphers p (ent_grease_cs ent))
       (enc_exts (hello_exts p sni ks ent)))"
proof -
  from assms obtain f g h where
    "ent_random ent = Some f" "ent_session ent = Some g" "ent_keyshare ent = Some h"
    by (auto simp: Build_def rand_read_def split: option.splits sum.splits)
  then have "rec = build_record (build_hello (map f [0..<32]) (map g [0..<32])
      (build_ciphers p (ent_grease_cs ent)) (enc_exts (hello_exts p sni (map h [0..<32]) ent)))"
    using assms
    by (auto simp: Build_def rand_read_def Let_def hello_exts_def build_ext_block_enc
        writeExtension_enc pad_ext_def split: if_splits)
  then show ?thesis by (intro that [of "map f [0..<32]" "map g [0..<32]" "map h [0..<32]"]) simp_all
qed

section \<open>The bytes of a record\<close>

lemma build_hello_bytes:
  "build_hello rnd sess cs exts =
     put_uint16 0x0303 @ rnd @ word_of_nat (length sess) # sess @
     put_uint16 (word_of_nat (length cs)) @ cs @ [1, 0] @
     put_uint16 (word_of_nat (length exts)) @ exts"
  by (simp add: build_hello_def Let_def buf_defs)

lemma build_record_bytes:
  "build_record hello =
     0x16 # put_uint16 0x0301 @ put_uint16 (word_of_nat (length hello + 4)) @
     0x01 # put_uint24 (word_of_nat (length hello)) @ hello"
  by (simp add: build_record_def Let_def buf_defs add.commute)

lemma length_build_hello:
  "length rnd = 32 \<Longrightarrow> length sess = 32 \<Longrightarrow>
   length (build_hello rnd sess cs exts) = 73 + length cs + length exts"
  by (simp add: build_hello_bytes)

lemma length_build_record: "length (build_record hello) = 9 + length hello"
  by (simp add: build_record_bytes)

lemma unat_of_nat16 [simp]: "n < 65536 \<Longrightarrow> unat (word_of_nat n :: uint16) = n"
  by (simp add: unat_of_nat)

lemma be_uint16_0 [simp]: "be_uint16 0 0 = 0"
  by (simp add: be_uint16_def)

lemma int_be24_put:
  assumes "n < 16777216"
  shows "int_be24 (ucast (drop_bit 16 (word_of_nat n :: uint32)))
     (ucast (drop_bit 8 (word_of_nat n :: uint32))) (ucast (word_of_nat n :: uint32)) = n"
proof -
  let ?w = "word_of_nat n :: uint32"
  have w: "unat ?w = n" using assms by (simp add: unat_of_nat)
  have "unat (ucast (drop_bit k ?w) :: byte) = n div 2 ^ k mod 256" for k
  proof -
    have "unat (drop_bit k ?w) = n div 2 ^ k"
      unfolding unat_drop_bit_eq w by (rule drop_bit_eq_div)
    then show ?thesis
      by (simp add: unsigned_ucast_eq take_bit_eq_mod del: drop_bit_eq_div)
  qed
  from this [of 16] this [of 8] this [of 0]
  have "int_be24 (ucast (drop_bit 16 ?w)) (ucast (drop_bit 8 ?w)) (ucast ?w)
      = n div 65536 mod 256 * 65536 + n div 256 mod 256 * 256 + n mod 256"
    by (simp add: int_be24_arith)
  moreover have "n div 65536 mod 256 = n div 256 div 256"
    using assms by (simp add: div_mult2_eq [symmetric] less_mult_imp_div_less)
  moreover have "n div 256 div 256 * 256 + n div 256 mod 256 = n div 256"
    by (rule div_mult_mod_eq)
  moreover have "n div 256 * 256 + n mod 256 = n"
    by (rule div_mult_mod_eq)
  ultimately show ?thesis by linarith
qed

section \<open>Walking the extension block\<close>

lemma extract_walk_enc:
  assumes "length (snd e) < 65536" and "fst e \<noteq> extSNI"
  shows "extract_walk (enc_ext e @ rest) = extract_walk rest"
  using assms by (simp add: enc_ext_def put_uint16_def Let_def)

lemma extract_walk_skip:
  "\<forall>e \<in> set es. length (snd e) < 65536 \<and> fst e \<noteq> extSNI \<Longrightarrow>
   extract_walk (enc_exts es @ rest) = extract_walk rest"
  by (induction es) (simp_all add: extract_walk_enc)

lemma length_sni_body [simp]: "length (sni_body sni) = length sni + 5"
  by (simp add: sni_body_def buf_defs Let_def)

lemma extract_walk_found:
  assumes "length b < 65536"
  shows "extract_walk (enc_ext (extSNI, b) @ rest) = extract_name b"
  using assms by (simp add: enc_ext_def put_uint16_def Let_def)

lemma extract_name_sni_body:
  assumes "length sni < 65536"
  shows "extract_name (sni_body sni) = Some (sni, True)"
proof -
  have "sni_body sni = put_uint16 (word_of_nat (length sni + 3)) @ 0x00 #
      put_uint16 (word_of_nat (length sni)) @ str_bytes sni"
    by (simp add: sni_body_def buf_defs Let_def add.commute)
  with assms show ?thesis
    by (simp add: extract_name_def put_uint16_def Let_def)
qed

lemma length_enc_exts_mem: "e \<in> set es \<Longrightarrow> length (snd e) + 4 \<le> length (enc_exts es)"
  by (induction es) auto

lemma profile_exts_split:
  assumes "extSNI \<in> set (prof_ExtensionOrder p)" and "m extSNI = Some b"
  obtains pre post where "profile_exts p m = pre @ (extSNI, b) # post"
    "\<forall>e \<in> set pre. fst e \<noteq> extSNI"
proof -
  from assms(1) obtain ts us where split: "prof_ExtensionOrder p = ts @ extSNI # us"
    and notin: "extSNI \<notin> set ts"
    by (auto dest: split_list_first)
  let ?f = "\<lambda>t. map_option (Pair t) (m t)"
  have pre: "\<forall>e \<in> set (List.map_filter ?f ts). fst e \<noteq> extSNI"
    using notin by (auto simp: map_filter_def)
  have "profile_exts p m = List.map_filter ?f ts @ (extSNI, b) # List.map_filter ?f us"
    unfolding profile_exts_def split using assms(2) by (simp add: map_filter_def)
  from that [OF this pre] show ?thesis .
qed

lemma randomGREASE_not_SNI: "randomGREASE r \<noteq> extSNI"
proof
  assume eq: "randomGREASE r = extSNI"
  have "isGREASE (randomGREASE r)" by (rule isGREASE_randomGREASE)
  then show False unfolding eq by (simp add: isGREASE_def)
qed

lemma buildExtensions_SNI: "buildExtensions sni ks p extSNI = Some (sni_body sni)"
  by (simp add: buildExtensions_def Let_def split: option.split)

lemma hello_exts_split:
  assumes "extSNI \<in> set (prof_ExtensionOrder p)"
  obtains pre post where "hello_exts p sni ks ent = pre @ (extSNI, sni_body sni) # post"
    "\<forall>e \<in> set pre. fst e \<noteq> extSNI"
proof -
  obtain pre post where
    split: "profile_exts p (buildExtensions sni ks p) = pre @ (extSNI, sni_body sni) # post"
    and ne: "\<forall>e \<in> set pre. fst e \<noteq> extSNI"
    by (rule profile_exts_split [where m = "buildExtensions sni ks p" and b = "sni_body sni",
          OF assms buildExtensions_SNI])
  have "\<forall>e \<in> set (grease_ext p (ent_grease_ext ent) @ pre). fst e \<noteq> extSNI"
    using ne randomGREASE_not_SNI by (auto simp: grease_ext_def)
  then show ?thesis
    by (intro that [of "grease_ext p (ent_grease_ext ent) @ pre"])
       (simp_all add: hello_exts_def Let_def split)
qed

section \<open>Reading a built record\<close>

text \<open>The layout of a ClientHello body, as both parsers and the fingerprint reader skip it.\<close>

definition hello_layout :: "bytes \<Rightarrow> bytes \<Rightarrow> bytes \<Rightarrow> bytes \<Rightarrow> bytes \<Rightarrow> bytes" where
  "hello_layout fixed sess cs cm exts =
     fixed @ word_of_nat (length sess) # sess @
     put_uint16 (word_of_nat (length cs)) @ cs @
     word_of_nat (length cm) # cm @
     put_uint16 (word_of_nat (length exts)) @ exts"

lemma build_hello_layout:
  "build_hello rnd sess cs exts = hello_layout (put_uint16 0x0303 @ rnd) sess cs [0] exts"
  by (simp add: build_hello_bytes hello_layout_def)

lemma unat_of_nat8: "n < 256 \<Longrightarrow> unat (word_of_nat n :: byte) = n"
  by (simp add: unat_of_nat)

lemma nth_after: "length xs = n \<Longrightarrow> (xs @ y # ys) ! n = y"
  by (metis nth_append_length)

lemma go_be16_at_put:
  assumes "length xs = i" and "n < 65536"
  shows "go_be16_at (xs @ put_uint16 (word_of_nat n) @ ys) i = Some n"
proof -
  have "(xs @ put_uint16 v @ ys) ! i = ucast (drop_bit 8 v)"
    and "(xs @ put_uint16 v @ ys) ! Suc i = ucast v" for v
    using assms(1) by (simp_all add: put_uint16_def nth_append)
  with assms show ?thesis by simp
qed

lemma extract_hello_layout:
  assumes "length fixed = 34" and "length sess < 256" and "length cs < 65536"
    and "length cm < 256" and "length exts < 65536"
  shows "extract_hello (hello_layout fixed sess cs cm exts) = extract_walk exts"
proof -
  let ?h = "hello_layout fixed sess cs cm exts"
  let ?to_cs = "fixed @ word_of_nat (length sess) # sess"
  let ?to_comp = "?to_cs @ put_uint16 (word_of_nat (length cs)) @ cs"
  let ?to_exts = "?to_comp @ word_of_nat (length cm) # cm"
  have len: "length ?h = 40 + length sess + length cs + length cm + length exts"
    using assms(1) by (simp add: hello_layout_def)
  have sl: "go_at ?h 34 = Some (word_of_nat (length sess))"
    using assms(1) by (simp add: hello_layout_def go_at_def nth_after)
  have cs: "go_be16_at ?h (35 + length sess) = Some (length cs)"
    using go_be16_at_put [of ?to_cs "35 + length sess" "length cs"] assms
    by (simp add: hello_layout_def)
  have cl: "go_at ?h (37 + length sess + length cs) = Some (word_of_nat (length cm))"
    using nth_after [of ?to_comp "37 + length sess + length cs"] assms
    by (simp add: hello_layout_def go_at_def)
  have ex: "go_be16_at ?h (38 + length sess + length cs + length cm) = Some (length exts)"
    using go_be16_at_put [of ?to_exts "38 + length sess + length cs + length cm" "length exts"]
      assms by (simp add: hello_layout_def)
  have "go_slice ?h (40 + length sess + length cs + length cm)
      (40 + length sess + length cs + length cm + length exts) = Some exts"
    using go_slice_suffix [of "?to_exts @ put_uint16 (word_of_nat (length exts))"
        "40 + length sess + length cs + length cm" exts] assms(1)
    by (simp add: hello_layout_def)
  with sl cs cl ex len assms show ?thesis
    by (simp add: extract_hello_def Let_def unat_of_nat8 ac_simps)
qed

lemma ExtractSNI_build_record:
  assumes "length hello + 4 < 65536"
  shows "ExtractSNI (build_record hello) = extract_hello hello"
proof -
  have "ExtractSNI (build_record hello) =
      extract_payload (0x01 # put_uint24 (word_of_nat (length hello)) @ hello)"
    using assms by (simp add: build_record_bytes put_uint16_def put_uint24_def ExtractSNI_record
        del: of_nat_add)
  also have "\<dots> = extract_hello hello"
    using assms by (simp add: put_uint24_def extract_payload_handshake int_be24_put)
  finally show ?thesis .
qed

lemma ExtractSNI_Build:
  assumes build: "Build p sni ent = Inr rec"
    and sni: "extSNI \<in> set (prof_ExtensionOrder p)"
    and fits: "length rec \<le> 65540"
  shows "ExtractSNI rec = Some (sni, True)"
proof -
  let ?cs = "build_ciphers p (ent_grease_cs ent)"
  obtain rnd sess ks where lens: "length rnd = 32" "length sess = 32"
    and rec: "rec = build_record (build_hello rnd sess ?cs (enc_exts (hello_exts p sni ks ent)))"
    by (rule Build_Inr [OF build])
  let ?exts = "enc_exts (hello_exts p sni ks ent)"
  have len: "82 + length ?cs + length ?exts \<le> 65540"
    using fits lens by (simp add: rec length_build_record length_build_hello)
  obtain pre post where split: "hello_exts p sni ks ent = pre @ (extSNI, sni_body sni) # post"
    and pre: "\<forall>e \<in> set pre. fst e \<noteq> extSNI"
    by (rule hello_exts_split [OF sni])
  have small: "length (snd e) < 65536" if "e \<in> set (hello_exts p sni ks ent)" for e
    using length_enc_exts_mem [OF that] len by simp
  have "ExtractSNI rec = extract_hello (build_hello rnd sess ?cs ?exts)"
    unfolding rec using len lens by (intro ExtractSNI_build_record) (simp add: length_build_hello)
  also have "\<dots> = extract_walk ?exts"
    unfolding build_hello_layout using len lens by (intro extract_hello_layout) simp_all
  also have "\<dots> = extract_walk (enc_ext (extSNI, sni_body sni) @ enc_exts post)"
    using pre small split by (simp add: extract_walk_skip)
  also have "\<dots> = extract_name (sni_body sni)"
    using small [of "(extSNI, sni_body sni)"] split by (intro extract_walk_found) simp
  also have "\<dots> = Some (sni, True)"
    using small [of "(extSNI, sni_body sni)"] split by (intro extract_name_sni_body) simp
  finally show ?thesis .
qed

section \<open>Sizes\<close>

lemma length_uint16_list_body [simp]: "length (uint16_list_body vs) = 2 + 2 * length vs"
  by (simp add: uint16_list_body_def buf_defs writeUint16s_eq Let_def)

lemma length_key_share_body [simp]: "length (key_share_body ks) = 6 + length ks"
  by (simp add: key_share_body_def buf_defs Let_def)

lemma length_supported_versions_body [simp]:
  "length (supported_versions_body vs) = 1 + 2 * length vs"
  by (simp add: supported_versions_body_def buf_defs writeUint16s_eq)

lemma length_psk_modes_body [simp]: "length (psk_modes_body m) = 1 + length m"
  by (simp add: psk_modes_body_def buf_defs)

lemma length_build_ciphers [simp]:
  "length (build_ciphers p r) =
     2 + 2 * length (prof_CipherSuites p) + (if prof_UseGREASE p then 2 else 0)"
  by (simp add: build_ciphers_def buf_defs writeUint16s_eq Let_def)

lemma base_ext_length:
  assumes "p \<in> set allProfiles" and "length ks = 32"
  shows "length (build_ext_block p (buildExtensions sni ks p) r) \<le> length sni + 250"
proof -
  from assms(1) consider "p = Chrome124" | "p = Firefox125" | "p = Safari17" | "p = Edge124"
    | "p = Chrome120" by (auto simp: allProfiles_def)
  then show ?thesis
    using assms(2)
    by cases (simp_all add: profile_defs build_ext_block_enc grease_ext_def profile_exts_def
        buildExtensions_def Let_def map_filter_simps alpn_body_def buf_defs)
qed

text \<open>Only the length of the key share matters for the length of the block.\<close>

lemma length_enc_exts: "length (enc_exts es) = sum_list (map (\<lambda>e. 4 + length (snd e)) es)"
  by (induction es) simp_all

lemma buildExtensions_lengths:
  assumes "length ks = length ks'"
  shows "map_option length (buildExtensions sni ks p t) =
     map_option length (buildExtensions sni ks' p t)"
  using assms by (simp add: buildExtensions_def Let_def split: option.split)

lemma profile_exts_lengths:
  assumes "\<And>t. map_option length (m t) = map_option length (m' t)"
  shows "length (enc_exts (profile_exts p m)) = length (enc_exts (profile_exts p m'))"
proof -
  have "length (enc_exts (List.map_filter (\<lambda>t. map_option (Pair t) (m t)) ts)) =
      length (enc_exts (List.map_filter (\<lambda>t. map_option (Pair t) (m' t)) ts))" for ts
  proof (induction ts)
    case Nil
    then show ?case by (simp add: map_filter_simps)
  next
    case (Cons t ts)
    with assms [of t] show ?case
      by (cases "m t"; cases "m' t") (simp_all add: map_filter_simps)
  qed
  then show ?thesis by (simp add: profile_exts_def)
qed

text \<open>What the record would measure without the padding extension.\<close>

definition unpadded_length :: "profile \<Rightarrow> string \<Rightarrow> entropy \<Rightarrow> nat" where
  "unpadded_length p sni ent =
     82 + length (build_ciphers p (ent_grease_cs ent)) +
     length (build_ext_block p (buildExtensions sni (replicate 32 0) p) (ent_grease_ext ent))"

definition jitter :: "entropy \<Rightarrow> int" where
  "jitter ent = int (fastRandN 33 (ent_jitter ent)) - 16"

lemma jitter_range: "-16 \<le> jitter ent \<and> jitter ent \<le> 16"
  using fastRandN_less [of 33 "ent_jitter ent"] by (simp add: jitter_def)

lemma length_base_ext_block:
  assumes "length ks = 32"
  shows "length (build_ext_block p (buildExtensions sni ks p) r) =
     length (build_ext_block p (buildExtensions sni (replicate 32 0) p) r)"
proof -
  have "length (enc_exts (profile_exts p (buildExtensions sni ks p))) =
      length (enc_exts (profile_exts p (buildExtensions sni (replicate 32 0) p)))"
    using assms by (intro profile_exts_lengths buildExtensions_lengths) simp
  then show ?thesis by (simp add: build_ext_block_enc)
qed

lemma hello_exts_padded:
  assumes "length ks = 32"
  shows "hello_exts p sni ks ent =
     grease_ext p (ent_grease_ext ent) @ profile_exts p (buildExtensions sni ks p) @
     pad_ext (515 + jitter ent - int (unpadded_length p sni ent))"
proof -
  have "pad_needed 32 (length (build_ciphers p (ent_grease_cs ent)))
      (length (build_ext_block p (buildExtensions sni ks p) (ent_grease_ext ent)))
      (ent_jitter ent) = 515 + jitter ent - int (unpadded_length p sni ent)"
    unfolding length_base_ext_block [OF assms] unpadded_length_def
    by (simp add: pad_needed_def jitter_def Let_def)
  then show ?thesis by (simp add: hello_exts_def Let_def build_ext_block_enc)
qed

lemma length_Build:
  assumes "length rnd = 32" and "length sess = 32" and "length ks = 32"
  shows "int (length (build_record (build_hello rnd sess (build_ciphers p (ent_grease_cs ent))
           (enc_exts (hello_exts p sni ks ent))))) =
     (if int (unpadded_length p sni ent) < 515 + jitter ent then 519 + jitter ent
      else int (unpadded_length p sni ent))"
proof -
  have "unpadded_length p sni ent = 82 + length (build_ciphers p (ent_grease_cs ent)) +
      length (enc_exts (grease_ext p (ent_grease_ext ent))) +
      length (enc_exts (profile_exts p (buildExtensions sni ks p)))"
    unfolding unpadded_length_def length_base_ext_block [OF assms(3), symmetric]
    by (simp add: build_ext_block_enc)
  then show ?thesis
    unfolding length_build_record length_build_hello [OF assms(1,2)]
      hello_exts_padded [OF assms(3)]
    by (auto simp: pad_ext_def)
qed

text \<open>Every hello the builder returns measures 519 bytes plus the jitter (503 to 535) when it
  was short enough to be padded, and exactly its unpadded length otherwise: padding brings every
  record to the same target, whatever the SNI and the random bytes.\<close>

theorem Build_padded_length:
  assumes "Build p sni ent = Inr rec"
  shows "int (length rec) =
      (let n = int (unpadded_length p sni ent)
       in if n < 515 + jitter ent then 519 + jitter ent else n) \<and>
     503 \<le> 519 + jitter ent \<and> 519 + jitter ent \<le> 535"
proof -
  obtain rnd sess ks where lens: "length rnd = 32" "length sess = 32" "length ks = 32"
    and rec: "rec = build_record (build_hello rnd sess (build_ciphers p (ent_grease_cs ent))
       (enc_exts (hello_exts p sni ks ent)))"
    by (rule Build_Inr [OF assms])
  show ?thesis
    unfolding rec length_Build [OF lens] using jitter_range [of ent] by (simp add: Let_def)
qed

definition zero_entropy :: entropy where
  "zero_entropy = \<lparr>ent_random = Some (\<lambda>_. 0), ent_session = Some (\<lambda>_. 0),
     ent_keyshare = Some (\<lambda>_. 0), ent_grease_cs = 0, ent_grease_ext = 0, ent_jitter = 0\<rparr>"

lemma Build_zero_entropy: "\<exists>rec. Build p sni zero_entropy = Inr rec"
  by (simp add: Build_def zero_entropy_def rand_read_def Let_def)

theorem Build_padded_length_witness:
  "\<exists>rec. Build Chrome124 ''hcaptcha.com'' zero_entropy = Inr rec \<and>
     int (length rec) =
       (let n = int (unpadded_length Chrome124 ''hcaptcha.com'' zero_entropy)
        in if n < 515 + jitter zero_entropy then 519 + jitter zero_entropy else n)"
proof -
  obtain rec where "Build Chrome124 ''hcaptcha.com'' zero_entropy = Inr rec"
    using Build_zero_entropy by blast
  with Build_padded_length [OF this] show ?thesis by blast
qed

lemma Build_profile_length:
  assumes "p \<in> set allProfiles" and "Build p sni ent = Inr rec"
  shows "length rec \<le> length sni + 535"
proof -
  obtain rnd sess ks where lens: "length rnd = 32" "length sess = 32" "length ks = 32"
    and rec: "rec = build_record (build_hello rnd sess (build_ciphers p (ent_grease_cs ent))
       (enc_exts (hello_exts p sni ks ent)))"
    by (rule Build_Inr [OF assms(2)])
  have "length (build_ciphers p (ent_grease_cs ent)) \<le> 38"
    using assms(1) by (auto simp: allProfiles_def profile_defs)
  moreover have "length (build_ext_block p (buildExtensions sni (replicate 32 0) p)
      (ent_grease_ext ent)) \<le> length sni + 250"
    by (rule base_ext_length [OF assms(1)]) simp
  ultimately have "unpadded_length p sni ent \<le> length sni + 370"
    unfolding unpadded_length_def by linarith
  then show ?thesis
    using length_Build [OF lens, of p ent sni] jitter_range [of ent]
    unfolding rec by (auto split: if_splits)
qed

lemma Build_NewBuilder_SNI:
  assumes "Build (NewBuilder name r) sni ent = Inr rec"
    and "sni \<noteq> []" and "length sni \<le> 15000"
  shows "ExtractSNI rec = Some (sni, True) \<and> parseSNI rec = Some (sni, True)"
proof -
  let ?p = "NewBuilder name r"
  have p: "?p \<in> set allProfiles"
    unfolding NewBuilder_def by (rule GetProfile_in_allProfiles)
  then have ext: "extSNI \<in> set (prof_ExtensionOrder ?p)"
    by (auto simp: allProfiles_def profile_defs)
  have len: "length rec \<le> 15535"
    using Build_profile_length [OF p assms(1)] assms(3) by simp
  then have "ExtractSNI rec = Some (sni, True)"
    by (intro ExtractSNI_Build [OF assms(1) ext]) simp
  moreover from this have "parseSNI rec = Some (sni, True)"
    using assms(2) len by (intro parseSNI_agrees) simp_all
  ultimately show ?thesis ..
qed

text \<open>C1. The SNI the builder is asked to fake is the SNI both parsers read back: for every
  profile a builder can be made with, every random draw and every host name of a legal length,
  the built record parses, completely, to exactly that name.\<close>

theorem Build_SNI_roundtrip:
  assumes "Build (NewBuilder name r) sni ent = Inr rec"
    and "sni \<noteq> []" and "length sni \<le> 15000"
  shows "ExtractSNI rec = Some (sni, True) \<and> parseSNI rec = Some (sni, True)"
  by (rule Build_NewBuilder_SNI [OF assms])

theorem Build_SNI_roundtrip_witness:
  "\<exists>rec. Build (NewBuilder ''firefox'' 0) ''hcaptcha.com'' zero_entropy = Inr rec \<and>
     ExtractSNI rec = Some (''hcaptcha.com'', True) \<and>
     parseSNI rec = Some (''hcaptcha.com'', True)"
proof -
  obtain rec where "Build (NewBuilder ''firefox'' 0) ''hcaptcha.com'' zero_entropy = Inr rec"
    using Build_zero_entropy by blast
  with Build_SNI_roundtrip [OF this] show ?thesis by simp
qed

end
