(* ===== verification/Packet.thy ===== *)
theory Packet
  imports Prelude
begin

text \<open>
  Raw IPv4 and TCP packets, \<^verbatim>\<open>internal/bypass/packet_linux.go\<close>: the Internet checksum, the two
  header encoders, \<open>CraftPacket\<close>, and the TTL and identification draws. A raw draw of a
  random generator is a \<open>nat\<close>, reduced as \<^verbatim>\<open>rand.Intn\<close> reduces it.
\<close>

section \<open>Addresses\<close>

text \<open>
  A \<^verbatim>\<open>net.IP\<close> is a byte slice of length 4 or 16 (or any other, invalid, length);
  \<^verbatim>\<open>To4\<close> accepts the 4-byte form and the 16-byte form of an IPv4 address.
\<close>

type_synonym ip4 = "byte \<times> byte \<times> byte \<times> byte"

definition v4InV6Prefix :: bytes where
  "v4InV6Prefix = replicate 10 0 @ [0xFF, 0xFF]"

definition To4 :: "bytes \<Rightarrow> bytes option" where
  "To4 ip =
     (if length ip = 4 then Some ip
      else if length ip = 16 \<and> take 12 ip = v4InV6Prefix then Some (drop 12 ip)
      else None)"

definition ip_array :: "bytes \<Rightarrow> bytes" where
  "ip_array ip4 = take 4 (ip4 @ replicate 4 0)"

section \<open>The Internet checksum\<close>

text \<open>\<^verbatim>\<open>for i := 0; i+1 < len(data); i += 2\<close> and the odd last byte.\<close>

fun checksum_sum :: "uint32 \<Rightarrow> bytes \<Rightarrow> uint32" where
  "checksum_sum acc (a # b # data) =
     checksum_sum (acc + (push_bit 8 (ucast a) OR ucast b)) data"
| "checksum_sum acc [a] = acc + push_bit 8 (ucast a)"
| "checksum_sum acc [] = acc"

text \<open>\<^verbatim>\<open>for sum>>16 != 0 { sum = (sum & 0xFFFF) + (sum >> 16) }\<close>\<close>

function checksum_fold :: "uint32 \<Rightarrow> uint32" where
  "checksum_fold acc =
     (if drop_bit 16 acc \<noteq> 0 then checksum_fold ((acc AND 0xFFFF) + drop_bit 16 acc) else acc)"
  by pat_completeness auto

lemma unat_drop_bit16: "unat (drop_bit 16 (w :: uint32)) = unat w div 65536"
proof -
  have "unat (drop_bit 16 w) = unat w div 2 ^ 16"
    unfolding unat_drop_bit_eq by (rule drop_bit_eq_div)
  then show ?thesis by simp
qed

lemma unat_and_ffff: "unat ((w :: uint32) AND 0xFFFF) = unat w mod 65536"
proof -
  have "(mask 16 :: uint32) = 0xFFFF" by (simp add: mask_eq_exp_minus_1)
  then have "w AND 0xFFFF = take_bit 16 w" by (metis take_bit_eq_mask)
  then have "unat (w AND 0xFFFF) = take_bit 16 (unat w)"
    by (simp only: unsigned_take_bit_eq)
  also have "\<dots> = unat w mod 2 ^ 16" by (rule take_bit_eq_mod)
  finally show ?thesis by simp
qed

lemma unat_fold_step:
  "unat ((acc AND 0xFFFF) + drop_bit 16 (acc :: uint32)) = unat acc mod 65536 + unat acc div 65536"
proof -
  have "unat acc < 4294967296" using unsigned_less [of acc, where ?'a = nat] by simp
  then have "unat acc div 65536 < 65536" by (simp add: less_mult_imp_div_less)
  then show ?thesis
    by (simp add: unat_word_ariths unat_and_ffff unat_drop_bit16)
qed

termination checksum_fold
proof (relation "measure unat")
  fix acc :: uint32
  assume "drop_bit 16 acc \<noteq> 0"
  then have "unat acc div 65536 \<noteq> 0"
    by (metis unat_drop_bit16 unat_eq_0)
  moreover have "unat acc mod 65536 + unat acc div 65536 * 65536 = unat acc"
    by simp
  ultimately have "unat acc mod 65536 + unat acc div 65536 < unat acc"
    by linarith
  then show "((acc AND 0xFFFF) + drop_bit 16 acc, acc) \<in> measure unat"
    by (simp add: unat_fold_step)
qed simp

declare checksum_fold.simps [simp del]

definition internetChecksum :: "bytes \<Rightarrow> uint16" where
  "internetChecksum data = NOT (ucast (checksum_fold (checksum_sum 0 data)))"

definition ipChecksum :: "bytes \<Rightarrow> uint16" where
  "ipChecksum b = internetChecksum b"

definition IPPROTO_TCP :: byte where "IPPROTO_TCP = 6"

definition tcp_pseudo :: "bytes \<Rightarrow> bytes \<Rightarrow> bytes \<Rightarrow> bytes" where
  "tcp_pseudo srcIP dstIP tcpSegment =
     srcIP @ dstIP @ [0, IPPROTO_TCP] @ put_uint16 (word_of_nat (length tcpSegment)) @ tcpSegment"

definition tcpChecksum :: "bytes \<Rightarrow> bytes \<Rightarrow> bytes \<Rightarrow> uint16" where
  "tcpChecksum srcIP dstIP tcpSegment = internetChecksum (tcp_pseudo srcIP dstIP tcpSegment)"

section \<open>Headers\<close>

record IPHeader =
  ip_VersionIHL :: byte
  ip_TOS :: byte
  ip_TotalLength :: uint16
  ip_ID :: uint16
  ip_FlagsFragment :: uint16
  ip_TTL :: byte
  ip_Protocol :: byte
  ip_SrcIP :: bytes
  ip_DstIP :: bytes

text \<open>\<^verbatim>\<open>binary.BigEndian.PutUint16(b[i:], v)\<close> into an existing slice.\<close>

definition put16_at :: "nat \<Rightarrow> uint16 \<Rightarrow> bytes \<Rightarrow> bytes" where
  "put16_at i v b = take i b @ put_uint16 v @ drop (i + 2) b"

definition ip_marshal :: "IPHeader \<Rightarrow> bytes" where
  "ip_marshal h =
     (let b = [ip_VersionIHL h, ip_TOS h] @ put_uint16 (ip_TotalLength h) @ put_uint16 (ip_ID h) @
              put_uint16 (ip_FlagsFragment h) @ [ip_TTL h, ip_Protocol h] @ [0, 0] @
              ip_SrcIP h @ ip_DstIP h;
          cs = ipChecksum b
      in put16_at 10 cs b)"

record TCPHeader =
  tcp_SrcPort :: uint16
  tcp_DstPort :: uint16
  tcp_SeqNum :: uint32
  tcp_AckNum :: uint32
  tcp_DataOffset :: byte
  tcp_Flags :: byte
  tcp_Window :: uint16
  tcp_Urgent :: uint16

abbreviation (input) TCPFlagRST :: byte where "TCPFlagRST \<equiv> 0x04"
abbreviation (input) TCPFlagPSH :: byte where "TCPFlagPSH \<equiv> 0x08"
abbreviation (input) TCPFlagACK :: byte where "TCPFlagACK \<equiv> 0x10"

text \<open>The segment with its checksum field still zero.\<close>

definition tcp_unsummed :: "TCPHeader \<Rightarrow> bytes \<Rightarrow> bytes" where
  "tcp_unsummed h payload =
     put_uint16 (tcp_SrcPort h) @ put_uint16 (tcp_DstPort h) @ put_uint32 (tcp_SeqNum h) @
     put_uint32 (tcp_AckNum h) @ [tcp_DataOffset h, tcp_Flags h] @ put_uint16 (tcp_Window h) @
     [0, 0] @ put_uint16 (tcp_Urgent h) @ payload"

definition tcp_marshal :: "TCPHeader \<Rightarrow> bytes \<Rightarrow> bytes \<Rightarrow> bytes \<Rightarrow> bytes" where
  "tcp_marshal h srcIP dstIP payload =
     (let b = tcp_unsummed h payload; cs = tcpChecksum srcIP dstIP b in put16_at 16 cs b)"

section \<open>TTL, identification and CraftPacket\<close>

definition commonTTLs :: "byte list" where "commonTTLs = [64, 128]"

definition RandomTTL :: "nat \<Rightarrow> nat \<Rightarrow> byte" where
  "RandomTTL r1 r2 =
     (let base = commonTTLs ! (r1 mod length commonTTLs);
          hops = word_of_nat (r2 mod 8 + 1) :: byte;
          hops = (if hops \<ge> base then base - 1 else hops)
      in base - hops)"

definition RandomIPID :: "uint32 \<Rightarrow> uint16" where
  "RandomIPID r = ucast r"

record PacketParams =
  pk_SrcIP :: bytes
  pk_DstIP :: bytes
  pk_SrcPort :: uint16
  pk_DstPort :: uint16
  pk_SeqNum :: uint32
  pk_AckNum :: uint32
  pk_Flags :: byte
  pk_TTL :: byte
  pk_Window :: uint16
  pk_Payload :: bytes

text \<open>The draws of one \<open>CraftPacket\<close>: the TTL's two and the identification's.\<close>

record craft_draws =
  draw_ttl1 :: nat
  draw_ttl2 :: nat
  draw_ipid :: uint32

definition packet_tcp_header :: "PacketParams \<Rightarrow> TCPHeader" where
  "packet_tcp_header p =
     \<lparr>tcp_SrcPort = pk_SrcPort p, tcp_DstPort = pk_DstPort p, tcp_SeqNum = pk_SeqNum p,
      tcp_AckNum = pk_AckNum p, tcp_DataOffset = 0x50, tcp_Flags = pk_Flags p,
      tcp_Window = (if pk_Window p = 0 then 65535 else pk_Window p), tcp_Urgent = 0\<rparr>"

definition CraftPacket :: "PacketParams \<Rightarrow> craft_draws \<Rightarrow> go_error + bytes" where
  "CraftPacket p d =
     (case (To4 (pk_SrcIP p), To4 (pk_DstIP p)) of
        (Some src4, Some dst4) \<Rightarrow>
          (let srcArr = ip_array src4; dstArr = ip_array dst4;
               tcpBytes = tcp_marshal (packet_tcp_header p) srcArr dstArr (pk_Payload p);
               ttl = (if pk_TTL p = 0 then RandomTTL (draw_ttl1 d) (draw_ttl2 d) else pk_TTL p);
               ipBytes = ip_marshal
                 \<lparr>ip_VersionIHL = 0x45, ip_TOS = 0,
                  ip_TotalLength = word_of_nat (20 + length tcpBytes),
                  ip_ID = RandomIPID (draw_ipid d), ip_FlagsFragment = 0x4000, ip_TTL = ttl,
                  ip_Protocol = IPPROTO_TCP, ip_SrcIP = srcArr, ip_DstIP = dstArr\<rparr>
           in Inr (ipBytes @ tcpBytes))
      | _ \<Rightarrow> Inl [''packet: IPv6 not supported for raw crafting''])"

section \<open>The checksum as arithmetic\<close>

text \<open>
  The sum of the big-endian 16-bit words of the data (an odd last byte counts as a high byte),
  and its ones'-complement fold, the residue modulo 65535 taken in 1..65535 for a positive sum.
\<close>

fun be_sum :: "bytes \<Rightarrow> nat" where
  "be_sum (a # b # data) = unat a * 256 + unat b + be_sum data"
| "be_sum [a] = unat a * 256"
| "be_sum [] = 0"

definition fold16 :: "nat \<Rightarrow> nat" where
  "fold16 n = (if n = 0 then 0 else (n - 1) mod 65535 + 1)"

lemma be_sum_append: "even (length xs) \<Longrightarrow> be_sum (xs @ ys) = be_sum xs + be_sum ys"
  by (induction xs rule: be_sum.induct) auto

lemma be_sum_bound: "be_sum data \<le> 65535 * ((length data + 1) div 2)"
proof (induction data rule: be_sum.induct)
  case (1 a b data)
  then show ?case using unat_byte_less [of a] unat_byte_less [of b] by (simp, linarith)
next
  case (2 a)
  then show ?case using unat_byte_less [of a] by (simp, linarith)
qed simp

lemma be_sum_put_uint16 [simp]: "be_sum (put_uint16 v @ ys) = unat v + be_sum ys"
  using be_uint16_arith [of "ucast (drop_bit 8 v)" "ucast v"] by (simp add: put_uint16_def)

lemma unat_high_low: "unat (push_bit 8 (ucast a) OR ucast b :: uint32) = unat a * 256 + unat b"
  for a b :: byte
proof -
  have "unat (push_bit 8 (ucast a) OR ucast b :: uint32) = push_bit 8 (unat a) OR unat b"
    by (simp add: unsigned_or_eq unsigned_push_bit_eq unsigned_ucast_eq take_bit_push_bit
        take_bit_nat_eq_self unat_byte_less less_trans [OF unat_byte_less])
  then show ?thesis using int_be16_arith [of a b] by (simp add: int_be16_def)
qed

lemma unat_high: "unat (push_bit 8 (ucast a) :: uint32) = unat a * 256" for a :: byte
  using unat_high_low [of a 0] by simp

lemma checksum_sum_nat:
  "unat acc + be_sum data < 2 ^ 32 \<Longrightarrow> unat (checksum_sum acc data) = unat acc + be_sum data"
proof (induction acc data rule: checksum_sum.induct)
  case (1 acc a b data)
  have "unat (acc + (push_bit 8 (ucast a) OR ucast b)) = unat acc + (unat a * 256 + unat b)"
    using "1.prems" by (simp add: unat_word_ariths unat_high_low)
  with 1 show ?case by simp
next
  case (2 acc a)
  then show ?case by (simp add: unat_word_ariths unat_high)
qed simp

lemma fold16_step: "fold16 (n mod 65536 + n div 65536) = fold16 n"
proof (cases "n = 0")
  case False
  have split: "n mod 65536 + n div 65536 * 65536 = n"
    by simp
  let ?m = "n mod 65536 + n div 65536"
  have pos: "0 < ?m" using False split by (metis add_is_0 gr0I mult_0)
  have "n - 1 = (?m - 1) + n div 65536 * 65535"
    using split pos by linarith
  then have "(n - 1) mod 65535 = (?m - 1) mod 65535"
    by (metis mod_mult_self1)
  with False pos show ?thesis by (simp add: fold16_def)
qed (simp add: fold16_def)

lemma fold16_small: "n < 65536 \<Longrightarrow> fold16 n = n"
  by (simp add: fold16_def)

lemma checksum_fold_nat: "unat (checksum_fold w) = fold16 (unat w)"
proof (induction w rule: checksum_fold.induct)
  case (1 w)
  show ?case
  proof (cases "drop_bit 16 w = 0")
    case True
    then have "unat w div 65536 = 0" by (metis unat_0 unat_drop_bit16)
    then have "unat w < 65536" by simp
    with True show ?thesis by (simp add: checksum_fold.simps [of w] fold16_small)
  next
    case False
    with 1 show ?thesis
      by (simp add: checksum_fold.simps [of w] unat_fold_step fold16_step)
  qed
qed

lemma fold16_le: "fold16 n \<le> 65535"
  by (simp add: fold16_def Suc_le_eq)

lemma fold16_eq_max: "fold16 n = 65535 \<longleftrightarrow> 0 < n \<and> n mod 65535 = 0"
  by (cases n) (simp_all add: fold16_def mod_Suc)

section \<open>What a receiver checks\<close>

lemma unat_NOT16: "unat (NOT (x :: uint16)) = 65535 - unat x"
proof -
  have "NOT x = -1 - x" by (simp add: not_eq_complement)
  moreover have "unat (-1 - x) = unat (-1 :: uint16) - unat x"
    by (rule unat_sub) (simp add: word_order.extremum)
  ultimately show ?thesis by (simp add: unsigned_minus_1_eq_mask mask_eq_exp_minus_1)
qed

lemma internetChecksum_nat:
  assumes "be_sum data < 2 ^ 32"
  shows "unat (internetChecksum data) = 65535 - fold16 (be_sum data)"
proof -
  have "unat (checksum_fold (checksum_sum 0 data)) = fold16 (be_sum data)"
    using assms by (simp add: checksum_fold_nat checksum_sum_nat)
  moreover have "fold16 (be_sum data) < 65536"
    using fold16_le [of "be_sum data"] by simp
  ultimately have "unat (ucast (checksum_fold (checksum_sum 0 data)) :: uint16) = fold16 (be_sum data)"
    by (simp add: unsigned_ucast_eq take_bit_nat_eq_self)
  then show ?thesis by (simp add: internetChecksum_def unat_NOT16)
qed

text \<open>The receiver's test: the checksum over everything, the field included, is zero.\<close>

definition checksum_ok :: "bytes \<Rightarrow> bool" where
  "checksum_ok data \<longleftrightarrow> internetChecksum data = 0"

lemma checksum_ok_iff:
  assumes "be_sum data < 2 ^ 32"
  shows "checksum_ok data \<longleftrightarrow> 0 < be_sum data \<and> be_sum data mod 65535 = 0"
proof -
  have "internetChecksum data = 0 \<longleftrightarrow> unat (internetChecksum data) = 0"
    by (simp add: unat_eq_0)
  also have "\<dots> \<longleftrightarrow> fold16 (be_sum data) = 65535"
    using internetChecksum_nat [OF assms] fold16_le [of "be_sum data"] by simp
  finally show ?thesis by (simp add: checksum_ok_def fold16_eq_max)
qed

lemma fold16_complement: "(n + (65535 - fold16 n)) mod 65535 = 0 \<and> 0 < n + (65535 - fold16 n)"
proof (cases n)
  case (Suc k)
  have "k mod 65535 \<le> 65534" by (simp add: less_Suc_eq_le [symmetric])
  then have "n + (65535 - fold16 n) = k - k mod 65535 + 65535"
    using Suc by (simp add: fold16_def)
  moreover have "(k - k mod 65535 + 65535) mod 65535 = 0"
    by (simp add: minus_mod_eq_mult_div)
  ultimately show ?thesis by (simp add: Suc)
qed (simp add: fold16_def)

lemma put16_at_append:
  "length xs = i \<Longrightarrow> put16_at i v (xs @ a # b # ys) = xs @ put_uint16 v @ ys"
  by (simp add: put16_at_def)

text \<open>
  Writing the checksum of data whose checksum field is zero into that field makes the data
  pass: the field sits at an even offset, so the sum grows by exactly the field.
\<close>

lemma checksum_ok_put:
  assumes "even (length xs)" and "length xs + length ys < 131000"
  shows "checksum_ok (xs @ put_uint16 (internetChecksum (xs @ [0, 0] @ ys)) @ ys)"
proof -
  let ?n = "be_sum xs + be_sum ys"
  have zero: "be_sum (xs @ [0, 0] @ ys) = ?n"
    using assms(1) by (simp add: be_sum_append)
  have bound: "?n < 4294900000"
    using be_sum_bound [of "xs @ [0, 0] @ ys"] assms(2) unfolding zero by simp
  then have cs: "unat (internetChecksum (xs @ [0, 0] @ ys)) = 65535 - fold16 ?n"
    using internetChecksum_nat [of "xs @ [0, 0] @ ys"] unfolding zero by simp
  have "be_sum (xs @ put_uint16 (internetChecksum (xs @ [0, 0] @ ys)) @ ys) =
      ?n + (65535 - fold16 ?n)"
    using assms(1) cs by (simp only: be_sum_append be_sum_put_uint16)
  then show ?thesis
    using fold16_complement [of ?n] bound by (simp add: checksum_ok_iff)
qed

lemma checksum_put_iff:
  assumes "even (length xs)" and "length xs + length ys < 131000"
  shows "checksum_ok (xs @ put_uint16 v @ ys) \<longleftrightarrow>
    0 < be_sum xs + be_sum ys + unat v \<and> (be_sum xs + be_sum ys + unat v) mod 65535 = 0"
proof -
  have sum: "be_sum (xs @ put_uint16 v @ ys) = be_sum xs + be_sum ys + unat v"
    using assms(1) by (simp add: be_sum_append)
  moreover have "be_sum (xs @ put_uint16 v @ ys) < 2 ^ 32"
    using be_sum_bound [of "xs @ put_uint16 v @ ys"] assms(2) by simp
  ultimately show ?thesis by (simp only: checksum_ok_iff)
qed

section \<open>The crafted packet\<close>

definition tcp_head :: "TCPHeader \<Rightarrow> bytes" where
  "tcp_head h =
     put_uint16 (tcp_SrcPort h) @ put_uint16 (tcp_DstPort h) @ put_uint32 (tcp_SeqNum h) @
     put_uint32 (tcp_AckNum h) @ [tcp_DataOffset h, tcp_Flags h] @ put_uint16 (tcp_Window h)"

lemma length_tcp_head [simp]: "length (tcp_head h) = 16"
  by (simp add: tcp_head_def)

lemma tcp_unsummed_eq:
  "tcp_unsummed h pl = tcp_head h @ [0, 0] @ put_uint16 (tcp_Urgent h) @ pl"
  by (simp add: tcp_unsummed_def tcp_head_def)

lemma tcp_marshal_eq:
  "tcp_marshal h src dst pl = tcp_head h @
     put_uint16 (tcpChecksum src dst (tcp_unsummed h pl)) @ put_uint16 (tcp_Urgent h) @ pl"
  by (simp add: tcp_marshal_def Let_def tcp_unsummed_eq put16_at_append)

lemma length_tcp_marshal [simp]: "length (tcp_marshal h src dst pl) = 20 + length pl"
  by (simp add: tcp_marshal_eq)

lemma tcp_marshal_ok:
  assumes "length src = 4" and "length dst = 4" and "length pl \<le> 65535"
  shows "checksum_ok (tcp_pseudo src dst (tcp_marshal h src dst pl))"
proof -
  let ?seg = "tcp_unsummed h pl"
  let ?xs = "src @ dst @ [0, IPPROTO_TCP] @ put_uint16 (word_of_nat (20 + length pl)) @ tcp_head h"
  let ?ys = "put_uint16 (tcp_Urgent h) @ pl"
  have "tcp_pseudo src dst ?seg = ?xs @ [0, 0] @ ?ys"
    by (simp add: tcp_pseudo_def tcp_unsummed_eq)
  then have cs: "tcpChecksum src dst ?seg = internetChecksum (?xs @ [0, 0] @ ?ys)"
    by (simp only: tcpChecksum_def)
  have "tcp_pseudo src dst (tcp_marshal h src dst pl) =
      ?xs @ put_uint16 (tcpChecksum src dst ?seg) @ ?ys"
    by (simp add: tcp_pseudo_def tcp_marshal_eq)
  moreover have "checksum_ok (?xs @ put_uint16 (internetChecksum (?xs @ [0, 0] @ ?ys)) @ ?ys)"
    using assms by (intro checksum_ok_put) simp_all
  ultimately show ?thesis by (simp only: cs)
qed

definition ip_head :: "IPHeader \<Rightarrow> bytes" where
  "ip_head h =
     [ip_VersionIHL h, ip_TOS h] @ put_uint16 (ip_TotalLength h) @ put_uint16 (ip_ID h) @
     put_uint16 (ip_FlagsFragment h) @ [ip_TTL h, ip_Protocol h]"

lemma length_ip_head [simp]: "length (ip_head h) = 10"
  by (simp add: ip_head_def)

lemma ip_marshal_eq:
  "ip_marshal h = ip_head h @
     put_uint16 (internetChecksum (ip_head h @ [0, 0] @ ip_SrcIP h @ ip_DstIP h)) @
     ip_SrcIP h @ ip_DstIP h"
proof -
  have "ip_marshal h = put16_at 10
      (internetChecksum (ip_head h @ [0, 0] @ ip_SrcIP h @ ip_DstIP h))
      (ip_head h @ [0, 0] @ ip_SrcIP h @ ip_DstIP h)"
    by (simp add: ip_marshal_def Let_def ipChecksum_def ip_head_def)
  then show ?thesis by (simp add: put16_at_append)
qed

lemma ip_marshal_ok:
  assumes "length (ip_SrcIP h) = 4" and "length (ip_DstIP h) = 4"
  shows "checksum_ok (ip_marshal h)"
  unfolding ip_marshal_eq using assms by (intro checksum_ok_put) simp_all

lemma To4_length: "To4 ip = Some ip4 \<Longrightarrow> length ip4 = 4"
  by (auto simp: To4_def split: if_splits)

lemma ip_array_id [simp]: "length ip4 = 4 \<Longrightarrow> ip_array ip4 = ip4"
  by (simp add: ip_array_def)

text \<open>The TTL the packet carries and the header it is built from.\<close>

definition packet_ttl :: "PacketParams \<Rightarrow> craft_draws \<Rightarrow> byte" where
  "packet_ttl p d =
     (if pk_TTL p = 0 then RandomTTL (draw_ttl1 d) (draw_ttl2 d) else pk_TTL p)"

definition packet_ip_header :: "PacketParams \<Rightarrow> craft_draws \<Rightarrow> bytes \<Rightarrow> bytes \<Rightarrow> IPHeader" where
  "packet_ip_header p d src dst =
     \<lparr>ip_VersionIHL = 0x45, ip_TOS = 0,
      ip_TotalLength = word_of_nat (40 + length (pk_Payload p)),
      ip_ID = RandomIPID (draw_ipid d), ip_FlagsFragment = 0x4000, ip_TTL = packet_ttl p d,
      ip_Protocol = IPPROTO_TCP, ip_SrcIP = src, ip_DstIP = dst\<rparr>"

lemma CraftPacket_Inr:
  assumes "CraftPacket p d = Inr pkt"
  obtains src dst where "To4 (pk_SrcIP p) = Some src" "To4 (pk_DstIP p) = Some dst"
    "length src = 4" "length dst = 4"
    "pkt = ip_marshal (packet_ip_header p d src dst) @
       tcp_marshal (packet_tcp_header p) src dst (pk_Payload p)"
proof -
  from assms obtain src dst where ips: "To4 (pk_SrcIP p) = Some src" "To4 (pk_DstIP p) = Some dst"
    by (auto simp: CraftPacket_def split: option.splits)
  moreover from ips have lens: "length src = 4" "length dst = 4"
    by (auto dest: To4_length)
  moreover have "pkt = ip_marshal (packet_ip_header p d src dst) @
      tcp_marshal (packet_tcp_header p) src dst (pk_Payload p)"
    using assms ips lens
    by (auto simp: CraftPacket_def Let_def packet_ip_header_def packet_ttl_def add.commute)
  ultimately show ?thesis by (rule that)
qed

lemma CraftPacket_error_iff:
  "(\<exists>e. CraftPacket p d = Inl e) \<longleftrightarrow> To4 (pk_SrcIP p) = None \<or> To4 (pk_DstIP p) = None"
  by (auto simp: CraftPacket_def Let_def split: option.splits)

lemma list4_cases:
  assumes "length xs = 4"
  obtains a b c d where "xs = [a, b, c, d]"
  using assms by (auto simp: numeral_eq_Suc length_Suc_conv)

text \<open>Reading the fields of an IPv4 and TCP packet, both headers without options.\<close>

definition decode_packet :: "bytes \<Rightarrow> PacketParams" where
  "decode_packet pkt =
     \<lparr>pk_SrcIP = take 4 (drop 12 pkt), pk_DstIP = take 4 (drop 16 pkt),
      pk_SrcPort = be_uint16 (pkt ! 20) (pkt ! 21), pk_DstPort = be_uint16 (pkt ! 22) (pkt ! 23),
      pk_SeqNum = be_uint32 (pkt ! 24) (pkt ! 25) (pkt ! 26) (pkt ! 27),
      pk_AckNum = be_uint32 (pkt ! 28) (pkt ! 29) (pkt ! 30) (pkt ! 31),
      pk_Flags = pkt ! 33, pk_TTL = pkt ! 8,
      pk_Window = be_uint16 (pkt ! 34) (pkt ! 35), pk_Payload = drop 40 pkt\<rparr>"

lemma marshal_decode:
  assumes "length (ip_SrcIP h) = 4" and "length (ip_DstIP h) = 4"
  shows "decode_packet (ip_marshal h @ tcp_marshal t src dst pl) =
     \<lparr>pk_SrcIP = ip_SrcIP h, pk_DstIP = ip_DstIP h, pk_SrcPort = tcp_SrcPort t,
      pk_DstPort = tcp_DstPort t, pk_SeqNum = tcp_SeqNum t, pk_AckNum = tcp_AckNum t,
      pk_Flags = tcp_Flags t, pk_TTL = ip_TTL h, pk_Window = tcp_Window t, pk_Payload = pl\<rparr>"
proof -
  obtain a b c d where src: "ip_SrcIP h = [a, b, c, d]" by (rule list4_cases [OF assms(1)])
  obtain a' b' c' d' where dst: "ip_DstIP h = [a', b', c', d']"
    by (rule list4_cases [OF assms(2)])
  show ?thesis
    unfolding ip_marshal_eq tcp_marshal_eq
    by (simp add: decode_packet_def src dst ip_head_def tcp_head_def put_uint16_def put_uint32_def)
qed

text \<open>The two tests of a receiver: the IP header's checksum and the TCP checksum.\<close>

definition ip_checksum_ok :: "bytes \<Rightarrow> bool" where
  "ip_checksum_ok pkt \<longleftrightarrow> checksum_ok (take 20 pkt)"

definition tcp_checksum_ok :: "bytes \<Rightarrow> bool" where
  "tcp_checksum_ok pkt \<longleftrightarrow>
     checksum_ok (tcp_pseudo (take 4 (drop 12 pkt)) (take 4 (drop 16 pkt)) (drop 20 pkt))"

lemma length_ip_marshal [simp]:
  "length (ip_SrcIP h) = 4 \<Longrightarrow> length (ip_DstIP h) = 4 \<Longrightarrow> length (ip_marshal h) = 20"
  by (simp add: ip_marshal_eq)

lemma ip_marshal_addresses:
  assumes "length (ip_SrcIP h) = 4" and "length (ip_DstIP h) = 4"
  shows "take 4 (drop 12 (ip_marshal h @ seg)) = ip_SrcIP h"
    and "take 4 (drop 16 (ip_marshal h @ seg)) = ip_DstIP h"
  using assms by (simp_all add: ip_marshal_eq)

lemma CraftPacket_accepted:
  assumes "CraftPacket p d = Inr pkt" and "length (pk_Payload p) \<le> 65495"
  shows "length pkt = 40 + length (pk_Payload p) \<and>
    unat (be_uint16 (pkt ! 2) (pkt ! 3)) = length pkt \<and>
    ip_checksum_ok pkt \<and> tcp_checksum_ok pkt"
proof -
  obtain src dst where lens: "length src = 4" "length dst = 4"
    and pkt: "pkt = ip_marshal (packet_ip_header p d src dst) @
       tcp_marshal (packet_tcp_header p) src dst (pk_Payload p)"
    by (rule CraftPacket_Inr [OF assms(1)])
  let ?h = "packet_ip_header p d src dst"
  have addrs: "ip_SrcIP ?h = src" "ip_DstIP ?h = dst"
    by (simp_all add: packet_ip_header_def)
  have len: "length pkt = 40 + length (pk_Payload p)"
    using lens by (simp add: pkt addrs)
  have "be_uint16 (pkt ! 2) (pkt ! 3) = word_of_nat (40 + length (pk_Payload p))"
    by (simp add: pkt ip_marshal_eq ip_head_def packet_ip_header_def put_uint16_def
        del: of_nat_add)
  then have "unat (be_uint16 (pkt ! 2) (pkt ! 3)) = length pkt"
    using assms(2) len by (simp add: unat_of_nat del: of_nat_add)
  moreover have "ip_checksum_ok pkt"
    using ip_marshal_ok [of ?h] lens by (simp add: ip_checksum_ok_def pkt addrs)
  moreover have "tcp_checksum_ok pkt"
  proof -
    let ?seg = "tcp_marshal (packet_tcp_header p) src dst (pk_Payload p)"
    have "drop 20 pkt = ?seg" using lens by (simp add: pkt addrs)
    moreover have "take 4 (drop 12 pkt) = src" "take 4 (drop 16 pkt) = dst"
      using ip_marshal_addresses [of ?h ?seg] lens unfolding pkt addrs by blast+
    moreover have "checksum_ok (tcp_pseudo src dst ?seg)"
      using lens assms(2) by (intro tcp_marshal_ok) simp_all
    ultimately show ?thesis by (simp only: tcp_checksum_ok_def)
  qed
  ultimately show ?thesis using len by blast
qed

text \<open>C7. A crafted packet is one an IPv4 host accepts: its total-length field is its length, and
  both its header checksum and its TCP checksum (over the pseudo-header) pass the receiver's
  test, for every payload that fits an IPv4 packet.\<close>

theorem CraftPacket_wellformed:
  assumes "CraftPacket p d = Inr pkt" and "length (pk_Payload p) \<le> 65495"
  shows "length pkt = 40 + length (pk_Payload p) \<and>
    unat (be_uint16 (pkt ! 2) (pkt ! 3)) = length pkt \<and>
    ip_checksum_ok pkt \<and> tcp_checksum_ok pkt"
  by (rule CraftPacket_accepted [OF assms])

definition sample_params :: PacketParams where
  "sample_params =
     \<lparr>pk_SrcIP = [10, 0, 0, 1], pk_DstIP = [1, 2, 3, 4], pk_SrcPort = 40000, pk_DstPort = 443,
      pk_SeqNum = 1000, pk_AckNum = 0, pk_Flags = 0x18, pk_TTL = 0, pk_Window = 0,
      pk_Payload = [1, 2, 3]\<rparr>"

definition sample_draws :: craft_draws where
  "sample_draws = \<lparr>draw_ttl1 = 0, draw_ttl2 = 3, draw_ipid = 77\<rparr>"

lemma CraftPacket_sample: "\<exists>pkt. CraftPacket sample_params sample_draws = Inr pkt"
  by (simp add: CraftPacket_def sample_params_def To4_def Let_def)

theorem CraftPacket_wellformed_witness:
  "\<exists>pkt. CraftPacket sample_params sample_draws = Inr pkt \<and> length pkt = 43 \<and>
     unat (be_uint16 (pkt ! 2) (pkt ! 3)) = 43 \<and> ip_checksum_ok pkt \<and> tcp_checksum_ok pkt"
proof -
  obtain pkt where "CraftPacket sample_params sample_draws = Inr pkt"
    using CraftPacket_sample by blast
  with CraftPacket_wellformed [OF this] show ?thesis by (simp add: sample_params_def)
qed

lemma CraftPacket_decode:
  assumes "CraftPacket p d = Inr pkt"
  shows "decode_packet pkt = p\<lparr>pk_SrcIP := the (To4 (pk_SrcIP p)),
      pk_DstIP := the (To4 (pk_DstIP p)), pk_TTL := packet_ttl p d,
      pk_Window := (if pk_Window p = 0 then 65535 else pk_Window p)\<rparr>"
    and "To4 (pk_SrcIP p) \<noteq> None" and "To4 (pk_DstIP p) \<noteq> None"
proof -
  obtain src dst where ips: "To4 (pk_SrcIP p) = Some src" "To4 (pk_DstIP p) = Some dst"
    and lens: "length src = 4" "length dst = 4"
    and pkt: "pkt = ip_marshal (packet_ip_header p d src dst) @
       tcp_marshal (packet_tcp_header p) src dst (pk_Payload p)"
    by (rule CraftPacket_Inr [OF assms])
  show "decode_packet pkt = p\<lparr>pk_SrcIP := the (To4 (pk_SrcIP p)),
      pk_DstIP := the (To4 (pk_DstIP p)), pk_TTL := packet_ttl p d,
      pk_Window := (if pk_Window p = 0 then 65535 else pk_Window p)\<rparr>"
    unfolding pkt using lens ips
    by (simp add: marshal_decode packet_ip_header_def packet_tcp_header_def)
  show "To4 (pk_SrcIP p) \<noteq> None" and "To4 (pk_DstIP p) \<noteq> None"
    using ips by simp_all
qed

text \<open>C40. Every parameter of a crafted packet is read back from its bytes: ports, sequence and
  acknowledgement numbers, flags, payload and the 4-byte addresses as given, a zero window as
  65535 and a zero TTL as the drawn one.\<close>

theorem CraftPacket_roundtrip:
  assumes "CraftPacket p d = Inr pkt"
  shows "Some (pk_SrcIP (decode_packet pkt)) = To4 (pk_SrcIP p) \<and>
    Some (pk_DstIP (decode_packet pkt)) = To4 (pk_DstIP p) \<and>
    decode_packet pkt = p\<lparr>pk_SrcIP := pk_SrcIP (decode_packet pkt),
      pk_DstIP := pk_DstIP (decode_packet pkt), pk_TTL := packet_ttl p d,
      pk_Window := (if pk_Window p = 0 then 65535 else pk_Window p)\<rparr>"
  using CraftPacket_decode [OF assms] by auto

theorem CraftPacket_roundtrip_witness:
  "\<exists>pkt. CraftPacket sample_params sample_draws = Inr pkt \<and>
     pk_SeqNum (decode_packet pkt) = 1000 \<and> pk_Window (decode_packet pkt) = 65535"
proof -
  obtain pkt where pkt: "CraftPacket sample_params sample_draws = Inr pkt"
    using CraftPacket_sample by blast
  have "pk_SeqNum (decode_packet pkt) = 1000 \<and> pk_Window (decode_packet pkt) = 65535"
    by (subst (1 2) conjunct2 [OF conjunct2 [OF CraftPacket_roundtrip [OF pkt]]])
      (simp add: sample_params_def)
  with pkt show ?thesis by blast
qed

text \<open>A drawn TTL is one a common host shows at one to eight hops: 56 to 63 or 120 to 127. In
  particular it is never zero, so \<open>CraftPacket\<close> never sends a packet with TTL zero.\<close>

theorem RandomTTL_range:
  "(56 \<le> unat (RandomTTL r1 r2) \<and> unat (RandomTTL r1 r2) \<le> 63) \<or>
   (120 \<le> unat (RandomTTL r1 r2) \<and> unat (RandomTTL r1 r2) \<le> 127)"
proof -
  define hops :: byte where "hops = word_of_nat (r2 mod 8 + 1)"
  have le: "r2 mod 8 + 1 \<le> 8" using mod_less_divisor [of 8 r2] by linarith
  then have hops: "unat hops = r2 mod 8 + 1"
    by (simp add: hops_def unat_of_nat del: of_nat_add of_nat_Suc)
  have "commonTTLs ! (r1 mod length commonTTLs) \<in> {64, 128}"
  proof -
    have "r1 mod length commonTTLs < length commonTTLs" by (simp add: commonTTLs_def)
    then have "commonTTLs ! (r1 mod length commonTTLs) \<in> set commonTTLs" by (rule nth_mem)
    then show ?thesis by (simp add: commonTTLs_def)
  qed
  then obtain base where base: "commonTTLs ! (r1 mod length commonTTLs) = base"
    and mem: "base \<in> {64, 128}" by blast
  have "\<not> hops \<ge> base" using mem hops le by (auto simp: word_le_nat_alt)
  then have ttl: "RandomTTL r1 r2 = base - hops"
    unfolding RandomTTL_def Let_def base hops_def [symmetric] by simp
  have "unat (base - hops) = unat base - unat hops"
    using mem hops le by (intro unat_sub) (auto simp: word_le_nat_alt)
  moreover have "unat base = 64 \<or> unat base = 128" using mem by auto
  ultimately show ?thesis unfolding ttl using hops le by linarith
qed

end
