(* ===== verification/Timing.thy ===== *)
theory Timing
  imports Complex_Main Prelude
begin

text \<open>
  Delays, \<^verbatim>\<open>internal/bypass/timing.go\<close>. A \<^verbatim>\<open>float64\<close> is a real number here: the rounding of
  the floating-point operations is not modelled, the comparisons and clamps, on which every
  theorem below rests, are exact in both. A duration is an \<open>int\<close> of nanoseconds, and
  \<^verbatim>\<open>time.Duration(x)\<close> truncates towards zero. A draw of the generator is an argument:
  \<open>u\<close> of \<^verbatim>\<open>Float64\<close> (a number in [0,1)), \<open>z\<close> of \<^verbatim>\<open>NormFloat64\<close>.
\<close>

definition trunc :: "real \<Rightarrow> int" where
  "trunc x = (if x \<ge> 0 then \<lfloor>x\<rfloor> else - \<lfloor>- x\<rfloor>)"

definition Millisecond :: int where "Millisecond = 1000000"

definition Second :: int where "Second = 1000000000"

definition ms_dur :: "real \<Rightarrow> int" where
  "ms_dur x = trunc (x * real_of_int Millisecond)"

definition sec_dur :: "real \<Rightarrow> int" where
  "sec_dur x = trunc (x * real_of_int Second)"

text \<open>The draws of one \<open>HumanDelay\<close>: the branch, the tail's uniform, the normal.\<close>

record delay_draws =
  dd_branch :: real
  dd_tail :: real
  dd_norm :: real

definition HumanDelay :: "delay_draws \<Rightarrow> real \<Rightarrow> real \<Rightarrow> real \<Rightarrow> int" where
  "HumanDelay d baseMs minMs maxMs =
     (let minMs = (if minMs \<le> 0 then 1 / 10 else minMs);
          maxMs = (if maxMs \<le> 0 then 50 else maxMs);
          delayMs = (if dd_branch d < 8 / 100
            then let u = (if dd_tail d \<ge> 1 then 9999 / 10000 else dd_tail d)
                 in 8 * ((- ln (1 - u)) powr (1 / (3 / 2))) + 5
            else let sigma = baseMs * (30 / 100) in baseMs + dd_norm d * sigma);
          delayMs = (if delayMs < minMs then minMs else delayMs);
          delayMs = (if delayMs > maxMs then maxMs else delayMs)
      in ms_dur delayMs)"

text \<open>\<open>now\<close> is the clock when \<^verbatim>\<open>time.Since(synTime)\<close> is read.\<close>

definition AdaptiveDelay :: "delay_draws \<Rightarrow> int \<Rightarrow> int \<Rightarrow> real \<Rightarrow> real \<Rightarrow> real \<Rightarrow> int" where
  "AdaptiveDelay d now synTime baseMs minMs maxMs =
     (let target = HumanDelay d baseMs minMs maxMs;
          remaining = target - (now - synTime)
      in if remaining < 0 then 0 else remaining)"

text \<open>How long \<open>JitterSleep\<close> sleeps; a negative sum returns at once, a sleep of 0.\<close>

definition jitter_of :: "real \<Rightarrow> real \<Rightarrow> int" where
  "jitter_of u jitterMs = ms_dur ((u * 2 - 1) * jitterMs)"

definition JitterSleep :: "real \<Rightarrow> int \<Rightarrow> real \<Rightarrow> int" where
  "JitterSleep u base jitterMs =
     (if jitterMs \<le> 0 then max 0 base
      else let d = base + jitter_of u jitterMs in if d < 0 then 0 else d)"

definition ExponentialBackoff :: "real \<Rightarrow> nat \<Rightarrow> real \<Rightarrow> real \<Rightarrow> int" where
  "ExponentialBackoff u attempt baseMs maxMs =
     (let baseMs = (if baseMs \<le> 0 then 100 else baseMs);
          maxMs = (if maxMs \<le> 0 then 5000 else maxMs);
          delay = baseMs * 2 ^ attempt;
          jitter = u * baseMs * (1 / 2);
          delay = delay + jitter;
          delay = (if delay > maxMs then maxMs else delay)
      in ms_dur delay)"

section \<open>Truncation\<close>

lemma trunc_mono: "x \<le> y \<Longrightarrow> trunc x \<le> trunc y"
proof -
  assume "x \<le> y"
  consider "0 \<le> x" | "x < 0" "0 \<le> y" | "x < 0" "y < 0" by linarith
  then show ?thesis
  proof cases
    case 1
    with \<open>x \<le> y\<close> show ?thesis by (simp add: trunc_def floor_mono)
  next
    case 2
    then have "trunc x \<le> 0" and "0 \<le> trunc y" by (simp_all add: trunc_def)
    then show ?thesis by linarith
  next
    case 3
    with \<open>x \<le> y\<close> have "\<lfloor>- y\<rfloor> \<le> \<lfloor>- x\<rfloor>" by (intro floor_mono) simp
    with 3 show ?thesis by (simp add: trunc_def)
  qed
qed

lemma trunc_nonneg: "0 \<le> x \<Longrightarrow> 0 \<le> trunc x"
  by (simp add: trunc_def)

lemma ms_dur_mono: "x \<le> y \<Longrightarrow> ms_dur x \<le> ms_dur y"
  unfolding ms_dur_def by (intro trunc_mono) (simp add: Millisecond_def)

lemma ms_dur_nonneg: "0 \<le> x \<Longrightarrow> 0 \<le> ms_dur x"
  unfolding ms_dur_def by (intro trunc_nonneg) (simp add: Millisecond_def)

lemma sec_dur_mono: "x \<le> y \<Longrightarrow> sec_dur x \<le> sec_dur y"
  unfolding sec_dur_def by (intro trunc_mono) (simp add: Second_def)

lemma sec_dur_nonneg: "0 \<le> x \<Longrightarrow> 0 \<le> sec_dur x"
  unfolding sec_dur_def by (intro trunc_nonneg) (simp add: Second_def)

section \<open>Bounds\<close>

definition eff_min :: "real \<Rightarrow> real" where "eff_min m = (if m \<le> 0 then 1 / 10 else m)"

definition eff_max :: "real \<Rightarrow> real" where "eff_max m = (if m \<le> 0 then 50 else m)"

lemma HumanDelay_bounds:
  "ms_dur (min (eff_min lo) (eff_max hi)) \<le> HumanDelay d b lo hi \<and>
   HumanDelay d b lo hi \<le> ms_dur (eff_max hi)"
  unfolding HumanDelay_def Let_def eff_min_def [symmetric] eff_max_def [symmetric]
  by (auto intro!: ms_dur_mono simp: min_def)

lemma HumanDelay_nonneg: "0 \<le> HumanDelay d b lo hi"
proof -
  have "0 \<le> ms_dur (min (eff_min lo) (eff_max hi))"
    by (intro ms_dur_nonneg) (simp add: eff_min_def eff_max_def)
  with HumanDelay_bounds [of lo hi d b] show ?thesis by linarith
qed

text \<open>The injection waits until a point of the clock that lies inside the configured window
  after the handshake: whatever the draws and however much time has passed, the wait is never
  negative and never beyond the upper bound, and when it is positive it ends no earlier than the
  lower bound (or the upper one, when a configuration has them crossed) after the SYN.\<close>

theorem AdaptiveDelay_window:
  "0 \<le> AdaptiveDelay d now syn b lo hi \<and>
   (AdaptiveDelay d now syn b lo hi > 0 \<longrightarrow>
      syn + ms_dur (min (eff_min lo) (eff_max hi)) \<le> now + AdaptiveDelay d now syn b lo hi \<and>
      now + AdaptiveDelay d now syn b lo hi \<le> syn + ms_dur (eff_max hi))"
  using HumanDelay_bounds [of lo hi d b]
  by (auto simp: AdaptiveDelay_def Let_def)

theorem AdaptiveDelay_window_witness:
  "0 < AdaptiveDelay \<lparr>dd_branch = 1 / 2, dd_tail = 0, dd_norm = 0\<rparr> 100 0 1 (1 / 2) 10 \<and>
   100 + AdaptiveDelay \<lparr>dd_branch = 1 / 2, dd_tail = 0, dd_norm = 0\<rparr> 100 0 1 (1 / 2) 10
     \<le> ms_dur (eff_max 10)"
proof -
  have pos: "0 < AdaptiveDelay \<lparr>dd_branch = 1 / 2, dd_tail = 0, dd_norm = 0\<rparr> 100 0 1 (1 / 2) 10"
    by (simp add: AdaptiveDelay_def HumanDelay_def Let_def ms_dur_def trunc_def Millisecond_def)
  with AdaptiveDelay_window [of "\<lparr>dd_branch = 1 / 2, dd_tail = 0, dd_norm = 0\<rparr>" 100 0 1 "1 / 2" 10]
  show ?thesis by simp
qed

definition eff_base :: "real \<Rightarrow> real" where "eff_base b = (if b \<le> 0 then 100 else b)"

definition eff_cap :: "real \<Rightarrow> real" where "eff_cap m = (if m \<le> 0 then 5000 else m)"

lemma ExponentialBackoff_eq:
  "ExponentialBackoff u n b m =
     ms_dur (min (eff_cap m) (eff_base b * 2 ^ n + u * eff_base b * (1 / 2)))"
  unfolding ExponentialBackoff_def Let_def eff_base_def [symmetric] eff_cap_def [symmetric]
  by (simp add: min_def)

lemma ExponentialBackoff_capped:
  assumes "0 \<le> u"
  shows "0 \<le> ExponentialBackoff u n b m \<and> ExponentialBackoff u n b m \<le> ms_dur (eff_cap m)"
proof -
  have "0 < eff_base b" by (simp add: eff_base_def)
  then have "0 \<le> eff_base b * 2 ^ n + u * eff_base b * (1 / 2)" using assms by simp
  then show ?thesis
    unfolding ExponentialBackoff_eq by (intro conjI ms_dur_nonneg ms_dur_mono) (simp_all add: eff_cap_def)
qed

text \<open>The retry delay doubles with each attempt up to its cap: the n-th delay lies between
  \<open>base * 2^n\<close> and half a base more, both cut at the cap, so it is never negative and never above
  the configured maximum.\<close>

theorem ExponentialBackoff_bounds:
  assumes "0 \<le> u" and "u < 1"
  shows "ms_dur (min (eff_cap m) (eff_base b * 2 ^ n)) \<le> ExponentialBackoff u n b m \<and>
    ExponentialBackoff u n b m \<le> ms_dur (min (eff_cap m) (eff_base b * 2 ^ n + eff_base b / 2)) \<and>
    0 \<le> ExponentialBackoff u n b m"
proof -
  let ?d = "eff_base b * 2 ^ n + u * eff_base b * (1 / 2)"
  have base: "0 < eff_base b" by (simp add: eff_base_def)
  then have lo: "0 \<le> u * eff_base b * (1 / 2)" using assms(1) by simp
  have hi: "u * eff_base b * (1 / 2) \<le> eff_base b / 2"
    using base assms by (simp add: mult_le_cancel_right1)
  have "0 \<le> min (eff_cap m) (eff_base b * 2 ^ n)"
    using base by (simp add: eff_cap_def)
  then have "0 \<le> ms_dur (min (eff_cap m) (eff_base b * 2 ^ n))"
    by (rule ms_dur_nonneg)
  moreover have "ms_dur (min (eff_cap m) (eff_base b * 2 ^ n)) \<le> ms_dur (min (eff_cap m) ?d)"
    using lo by (intro ms_dur_mono min.mono) simp_all
  moreover have "ms_dur (min (eff_cap m) ?d) \<le>
      ms_dur (min (eff_cap m) (eff_base b * 2 ^ n + eff_base b / 2))"
    using hi by (intro ms_dur_mono min.mono) simp_all
  ultimately show ?thesis unfolding ExponentialBackoff_eq by linarith
qed

theorem ExponentialBackoff_bounds_witness:
  "ms_dur (min (eff_cap 5000) (eff_base 100 * 2 ^ 3)) \<le> ExponentialBackoff (1 / 2) 3 100 5000 \<and>
   ExponentialBackoff (1 / 2) 3 100 5000
     \<le> ms_dur (min (eff_cap 5000) (eff_base 100 * 2 ^ 3 + eff_base 100 / 2))"
  using ExponentialBackoff_bounds [of "1 / 2" 5000 100 3] by simp

end
