(* ===== verification/Strategies.thy ===== *)
theory Strategies
  imports HelloRoundtrip Packet Timing
begin

text \<open>
  The three injection strategies: \<^verbatim>\<open>internal/bypass/wrongseq.go\<close>, \<^verbatim>\<open>fragment.go\<close> and
  \<^verbatim>\<open>desync.go\<close>, with the raw injector of \<^verbatim>\<open>packet_linux.go\<close> they send through.

  A bypass object is its two counters and the trace of what it did: packets handed to the kernel
  and sleeps. What the world decides during one call is the environment \<open>inject_env\<close>: the
  generator's draws, the clock, whether a \<^verbatim>\<open>select\<close> finds the context cancelled, what
  \<^verbatim>\<open>Sendto\<close> answers. The counters are \<open>int\<close>: the \<^verbatim>\<open>int64\<close> wrap at $2^{63}$ is not modelled.
\<close>

section \<open>State and environment\<close>

datatype inj_event = Sent bytes | Slept int

record bypass =
  bp_OK :: int
  bp_Fail :: int
  bp_trace :: "inj_event list"

definition new_bypass :: bypass where
  "new_bypass = \<lparr>bp_OK = 0, bp_Fail = 0, bp_trace = []\<rparr>"

record inject_env =
  ie_profile_draw :: nat
  ie_entropy :: entropy
  ie_now :: int
  ie_delay :: delay_draws
  ie_jitter :: real
  ie_wait_cancelled :: bool
  ie_cancelled :: "nat \<Rightarrow> bool"
  ie_ctx_err :: go_error
  ie_ttl1 :: "nat \<Rightarrow> nat"
  ie_ttl2 :: "nat \<Rightarrow> nat"
  ie_craft :: "nat \<Rightarrow> craft_draws"
  ie_sendto :: "nat \<Rightarrow> go_error option"
  ie_frag_jitter :: "nat \<Rightarrow> real"

definition ok_add :: "bypass \<Rightarrow> bypass" where
  "ok_add b = b\<lparr>bp_OK := bp_OK b + 1\<rparr>"

definition fail_add :: "bypass \<Rightarrow> bypass" where
  "fail_add b = b\<lparr>bp_Fail := bp_Fail b + 1\<rparr>"

definition slept :: "int \<Rightarrow> bypass \<Rightarrow> bypass" where
  "slept d b = b\<lparr>bp_trace := bp_trace b @ [Slept d]\<rparr>"

text \<open>\<^verbatim>\<open>RawInjector.Send\<close>: the \<open>i\<close>-th \<^verbatim>\<open>Sendto\<close> of the call.\<close>

definition Send :: "inject_env \<Rightarrow> nat \<Rightarrow> bytes \<Rightarrow> bytes \<Rightarrow> bypass \<Rightarrow> go_error option \<times> bypass" where
  "Send env i pkt dstIP b =
     (case To4 dstIP of None \<Rightarrow> (Some [''raw inject: IPv6 not supported''], b)
      | Some dst4 \<Rightarrow>
          (case ie_sendto env i of Some e \<Rightarrow> (Some e, b)
           | None \<Rightarrow> (None, b\<lparr>bp_trace := bp_trace b @ [Sent pkt]\<rparr>)))"

section \<open>Wrong sequence number\<close>

record InjectParams =
  wp_SrcIP :: bytes
  wp_DstIP :: bytes
  wp_SrcPort :: uint16
  wp_DstPort :: uint16
  wp_SynSeq :: uint32
  wp_SynTime :: int
  wp_FakeSNI :: string
  wp_Profile :: string
  wp_TTLSpoof :: bool
  wp_DelayMs :: real
  wp_MinDelayMs :: real
  wp_MaxDelayMs :: real
  wp_JitterMs :: real

definition wrongseq_delay :: "inject_env \<Rightarrow> InjectParams \<Rightarrow> int" where
  "wrongseq_delay env p =
     (let delay = AdaptiveDelay (ie_delay env) (ie_now env) (wp_SynTime p)
                    (wp_DelayMs p) (wp_MinDelayMs p) (wp_MaxDelayMs p)
      in if wp_JitterMs p > 0
         then let delay = delay + jitter_of (ie_jitter env) (wp_JitterMs p)
              in if delay < 0 then 0 else delay
         else delay)"

definition fake_seq :: "uint32 \<Rightarrow> bytes \<Rightarrow> uint32" where
  "fake_seq synSeq payload = (synSeq + 1 - word_of_nat (length payload)) AND 0xFFFFFFFF"

definition wrongseq_packet :: "inject_env \<Rightarrow> InjectParams \<Rightarrow> bytes \<Rightarrow> PacketParams" where
  "wrongseq_packet env p fakeHello =
     \<lparr>pk_SrcIP = wp_SrcIP p, pk_DstIP = wp_DstIP p, pk_SrcPort = wp_SrcPort p,
      pk_DstPort = wp_DstPort p, pk_SeqNum = fake_seq (wp_SynSeq p) fakeHello, pk_AckNum = 0,
      pk_Flags = TCPFlagPSH OR TCPFlagACK,
      pk_TTL = (if wp_TTLSpoof p then RandomTTL (ie_ttl1 env 0) (ie_ttl2 env 0) else 0),
      pk_Window = 0, pk_Payload = fakeHello\<rparr>"

definition WrongSeq_Inject ::
  "inject_env \<Rightarrow> InjectParams \<Rightarrow> bypass \<Rightarrow> go_error option \<times> bypass" where
  "WrongSeq_Inject env p b =
     (case Build (NewBuilder (wp_Profile p) (ie_profile_draw env)) (wp_FakeSNI p) (ie_entropy env) of
        Inl e \<Rightarrow> (Some (wrap_error ''wrong_seq: build'' e), fail_add b)
      | Inr fakeHello \<Rightarrow>
          (let delay = wrongseq_delay env p
           in if delay > 0 \<and> ie_wait_cancelled env then (Some (ie_ctx_err env), fail_add b)
              else let b = (if delay > 0 then slept delay b else b)
              in if ie_cancelled env 0 then (Some (ie_ctx_err env), fail_add b)
              else (case CraftPacket (wrongseq_packet env p fakeHello) (ie_craft env 0) of
                  Inl e \<Rightarrow> (Some (wrap_error ''wrong_seq: craft'' e), fail_add b)
                | Inr pkt \<Rightarrow>
                    (case Send env 0 pkt (wp_DstIP p) b of
                       (Some e, b) \<Rightarrow> (Some (wrap_error ''wrong_seq: send'' e), fail_add b)
                     | (None, b) \<Rightarrow> (None, ok_add b)))))"

section \<open>Fragments\<close>

record FragmentParams =
  fp_SrcIP :: bytes
  fp_DstIP :: bytes
  fp_SrcPort :: uint16
  fp_DstPort :: uint16
  fp_SynSeq :: uint32
  fp_SynAckSeq :: uint32
  fp_SynTime :: int
  fp_Payload :: bytes
  fp_FragSize :: int
  fp_DelayMs :: real
  fp_MinDelayMs :: real
  fp_MaxDelayMs :: real
  fp_JitterMs :: real
  fp_TTLSpoof :: bool
  fp_InterFragMs :: real

definition sniSplitPoint :: "bytes \<Rightarrow> int" where
  "sniSplitPoint data = (if length data < 10 then int (length data) div 2 else 1)"

function chunk_loop :: "nat \<Rightarrow> bytes \<Rightarrow> bytes list" where
  "chunk_loop sz data =
     (if data = [] \<or> sz = 0 then []
      else let n = (if sz > length data then length data else sz)
           in take n data # chunk_loop sz (drop n data))"
  by pat_completeness auto

termination
  by (relation "measure (\<lambda>(sz, data). length data)") auto

declare chunk_loop.simps [simp del]

definition chunkBytes :: "bytes \<Rightarrow> int \<Rightarrow> bytes list" where
  "chunkBytes data sz = (if sz \<le> 0 then [data] else chunk_loop (nat sz) data)"

definition frag_size :: "bytes \<Rightarrow> int \<Rightarrow> int" where
  "frag_size payload fragSize =
     (let fragSize = (if fragSize \<le> 0 then sniSplitPoint payload else fragSize)
      in if fragSize \<le> 0 \<or> fragSize \<ge> int (length payload)
         then int (length payload) div 2 else fragSize)"

definition frag_packet ::
  "inject_env \<Rightarrow> FragmentParams \<Rightarrow> nat \<Rightarrow> bool \<Rightarrow> uint32 \<Rightarrow> bytes \<Rightarrow> PacketParams" where
  "frag_packet env p i last_one cur frag =
     \<lparr>pk_SrcIP = fp_SrcIP p, pk_DstIP = fp_DstIP p, pk_SrcPort = fp_SrcPort p,
      pk_DstPort = fp_DstPort p, pk_SeqNum = cur, pk_AckNum = fp_SynAckSeq p + 1,
      pk_Flags = (if last_one then TCPFlagACK OR TCPFlagPSH else TCPFlagACK),
      pk_TTL = (if fp_TTLSpoof p then RandomTTL (ie_ttl1 env i) (ie_ttl2 env i) else 0),
      pk_Window = 0, pk_Payload = frag\<rparr>"

text \<open>The loop over the fragments; \<open>i\<close> is the index, \<open>last_one\<close> is \<open>i = len(frags)-1\<close>.\<close>

fun frag_loop ::
  "inject_env \<Rightarrow> FragmentParams \<Rightarrow> nat \<Rightarrow> uint32 \<Rightarrow> bytes list \<Rightarrow> bypass \<Rightarrow> go_error option \<times> bypass"
where
  "frag_loop env p i cur [] b = (None, ok_add b)"
| "frag_loop env p i cur (frag # frags) b =
     (if ie_cancelled env i then (Some (ie_ctx_err env), fail_add b)
      else case CraftPacket (frag_packet env p i (frags = []) cur frag) (ie_craft env i) of
          Inl e \<Rightarrow> (Some (wrap_error (''fragment: craft['' @ dec i @ '']'') e), fail_add b)
        | Inr pkt \<Rightarrow>
            (case Send env i pkt (fp_DstIP p) b of
               (Some e, b) \<Rightarrow> (Some (wrap_error (''fragment: send['' @ dec i @ '']'') e), fail_add b)
             | (None, b) \<Rightarrow>
                 (let cur = (cur + word_of_nat (length frag)) AND 0xFFFFFFFF;
                      b = (if fp_InterFragMs p > 0 \<and> frags \<noteq> []
                           then slept (JitterSleep (ie_frag_jitter env i)
                                  (ms_dur (fp_InterFragMs p)) (fp_JitterMs p)) b
                           else b)
                  in frag_loop env p (Suc i) cur frags b)))"

definition Fragment_Inject ::
  "inject_env \<Rightarrow> FragmentParams \<Rightarrow> bypass \<Rightarrow> go_error option \<times> bypass" where
  "Fragment_Inject env p b =
     (if fp_Payload p = [] then (Some [''fragment: empty payload''], b)
      else let fragSize = frag_size (fp_Payload p) (fp_FragSize p);
               delay = AdaptiveDelay (ie_delay env) (ie_now env) (fp_SynTime p)
                         (fp_DelayMs p) (fp_MinDelayMs p) (fp_MaxDelayMs p)
           in if ie_wait_cancelled env then (Some (ie_ctx_err env), fail_add b)
              else let b = slept delay b;
                       baseSeq = fake_seq (fp_SynSeq p) (fp_Payload p);
                       frags = chunkBytes (fp_Payload p) fragSize
                   in frag_loop env p 0 baseSeq frags b)"

section \<open>Desynchronisation\<close>

datatype DesyncMethod = DesyncBadChecksum | DesyncRST | DesyncTTLLimited

record DesyncParams =
  dp_SrcIP :: bytes
  dp_DstIP :: bytes
  dp_SrcPort :: uint16
  dp_DstPort :: uint16
  dp_SynSeq :: uint32
  dp_SynAckSeq :: uint32
  dp_SynTime :: int
  dp_Method :: DesyncMethod
  dp_Payload :: bytes
  dp_DelayMs :: real
  dp_MinDelayMs :: real
  dp_MaxDelayMs :: real
  dp_JitterMs :: real

definition flip_checksum :: "bytes \<Rightarrow> bytes" where
  "flip_checksum pkt =
     (if length pkt \<ge> 38 then pkt[36 := pkt ! 36 XOR 0xFF, 37 := pkt ! 37 XOR 0xFF] else pkt)"

definition badcs_packet :: "inject_env \<Rightarrow> DesyncParams \<Rightarrow> PacketParams" where
  "badcs_packet env p =
     \<lparr>pk_SrcIP = dp_SrcIP p, pk_DstIP = dp_DstIP p, pk_SrcPort = dp_SrcPort p,
      pk_DstPort = dp_DstPort p, pk_SeqNum = dp_SynSeq p + 1, pk_AckNum = dp_SynAckSeq p + 1,
      pk_Flags = TCPFlagPSH OR TCPFlagACK, pk_TTL = RandomTTL (ie_ttl1 env 0) (ie_ttl2 env 0),
      pk_Window = 0, pk_Payload = dp_Payload p\<rparr>"

definition badChecksum :: "inject_env \<Rightarrow> DesyncParams \<Rightarrow> bypass \<Rightarrow> go_error option \<times> bypass" where
  "badChecksum env p b =
     (case CraftPacket (badcs_packet env p) (ie_craft env 0) of
        Inl e \<Rightarrow> (Some (wrap_error ''desync bad-cs: craft'' e), b)
      | Inr pkt \<Rightarrow> Send env 0 (flip_checksum pkt) (dp_DstIP p) b)"

definition rst_packet :: "inject_env \<Rightarrow> DesyncParams \<Rightarrow> PacketParams" where
  "rst_packet env p =
     \<lparr>pk_SrcIP = dp_SrcIP p, pk_DstIP = dp_DstIP p, pk_SrcPort = dp_SrcPort p,
      pk_DstPort = dp_DstPort p, pk_SeqNum = (dp_SynSeq p + 1 - 65536) AND 0xFFFFFFFF,
      pk_AckNum = 0, pk_Flags = TCPFlagRST,
      pk_TTL = RandomTTL (ie_ttl1 env 0) (ie_ttl2 env 0), pk_Window = 0, pk_Payload = []\<rparr>"

definition rst :: "inject_env \<Rightarrow> DesyncParams \<Rightarrow> bypass \<Rightarrow> go_error option \<times> bypass" where
  "rst env p b =
     (case CraftPacket (rst_packet env p) (ie_craft env 0) of
        Inl e \<Rightarrow> (Some (wrap_error ''desync rst: craft'' e), b)
      | Inr pkt \<Rightarrow> Send env 0 pkt (dp_DstIP p) b)"

definition ttl_packet :: "DesyncParams \<Rightarrow> PacketParams" where
  "ttl_packet p =
     \<lparr>pk_SrcIP = dp_SrcIP p, pk_DstIP = dp_DstIP p, pk_SrcPort = dp_SrcPort p,
      pk_DstPort = dp_DstPort p, pk_SeqNum = fake_seq (dp_SynSeq p) (dp_Payload p),
      pk_AckNum = dp_SynAckSeq p + 1, pk_Flags = TCPFlagPSH OR TCPFlagACK, pk_TTL = 1,
      pk_Window = 0, pk_Payload = dp_Payload p\<rparr>"

definition ttlLimited :: "inject_env \<Rightarrow> DesyncParams \<Rightarrow> bypass \<Rightarrow> go_error option \<times> bypass" where
  "ttlLimited env p b =
     (case CraftPacket (ttl_packet p) (ie_craft env 0) of
        Inl e \<Rightarrow> (Some (wrap_error ''desync ttl: craft'' e), b)
      | Inr pkt \<Rightarrow> Send env 0 pkt (dp_DstIP p) b)"

definition desync_run :: "inject_env \<Rightarrow> DesyncParams \<Rightarrow> bypass \<Rightarrow> go_error option \<times> bypass" where
  "desync_run env p b =
     (case dp_Method p of
        DesyncBadChecksum \<Rightarrow> badChecksum env p b
      | DesyncRST \<Rightarrow> rst env p b
      | DesyncTTLLimited \<Rightarrow> ttlLimited env p b)"

definition Desync_Inject ::
  "inject_env \<Rightarrow> DesyncParams \<Rightarrow> bypass \<Rightarrow> go_error option \<times> bypass" where
  "Desync_Inject env p b =
     (let delay = AdaptiveDelay (ie_delay env) (ie_now env) (dp_SynTime p)
                    (dp_DelayMs p) (dp_MinDelayMs p) (dp_MaxDelayMs p)
      in if ie_wait_cancelled env then (Some (ie_ctx_err env), fail_add b)
         else let b = slept delay b
         in if ie_cancelled env 0 then (Some (ie_ctx_err env), fail_add b)
         else (case desync_run env p b of
                 (Some e, b) \<Rightarrow> (Some e, fail_add b)
               | (None, b) \<Rightarrow> (None, ok_add b)))"

section \<open>Counters and traces\<close>

lemma bypass_add_simps [simp]:
  "bp_OK (ok_add b) = bp_OK b + 1" "bp_Fail (ok_add b) = bp_Fail b"
  "bp_trace (ok_add b) = bp_trace b"
  "bp_OK (fail_add b) = bp_OK b" "bp_Fail (fail_add b) = bp_Fail b + 1"
  "bp_trace (fail_add b) = bp_trace b"
  "bp_OK (slept d b) = bp_OK b" "bp_Fail (slept d b) = bp_Fail b"
  "bp_trace (slept d b) = bp_trace b @ [Slept d]"
  by (simp_all add: ok_add_def fail_add_def slept_def)

text \<open>The packets of a trace.\<close>

fun sent :: "inj_event list \<Rightarrow> bytes list" where
  "sent [] = []"
| "sent (Sent pkt # es) = pkt # sent es"
| "sent (Slept d # es) = sent es"

abbreviation wire :: "bypass \<Rightarrow> bytes list" where "wire b \<equiv> sent (bp_trace b)"

lemma sent_append [simp]: "sent (es @ es') = sent es @ sent es'"
  by (induction es rule: sent.induct) simp_all

lemma Send_cases:
  obtains (refused) e where "Send env i pkt dst b = (Some e, b)"
  | (handed) "Send env i pkt dst b = (None, b\<lparr>bp_trace := bp_trace b @ [Sent pkt]\<rparr>)"
      "To4 dst \<noteq> None" "ie_sendto env i = None"
  by (cases "To4 dst"; cases "ie_sendto env i") (auto simp: Send_def)

lemma Send_None: "Send env i pkt dst b = (None, b') \<Longrightarrow> wire b' = wire b @ [pkt]"
  by (cases rule: Send_cases [of env i pkt dst b]) auto

text \<open>The contract of an attempt, whatever the strategy: success adds one to the first counter, a
  counted failure one to the second, and the trace only grows.\<close>

locale attempt_contract =
  fixes attempt :: "'p \<Rightarrow> bypass \<Rightarrow> go_error option \<times> bypass"
    and counted :: "'p \<Rightarrow> bool"
  assumes counters: "attempt p b = (r, b') \<Longrightarrow>
      bp_OK b' = bp_OK b + (if r = None then 1 else 0) \<and>
      bp_Fail b' = bp_Fail b + (if r \<noteq> None \<and> counted p then 1 else 0)"
    and trace_grows: "attempt p b = (r, b') \<Longrightarrow> \<exists>es. bp_trace b' = bp_trace b @ es"
    and success_sends: "attempt p b = (None, b') \<Longrightarrow> wire b' \<noteq> wire b"

text \<open>A sequence of attempts on one object.\<close>

fun attempts ::
  "('p \<Rightarrow> bypass \<Rightarrow> go_error option \<times> bypass) \<Rightarrow> 'p list \<Rightarrow> bypass \<Rightarrow> go_error option list \<times> bypass"
where
  "attempts att [] b = ([], b)"
| "attempts att (p # ps) b =
     (case att p b of (r, b) \<Rightarrow> (case attempts att ps b of (rs, b) \<Rightarrow> (r # rs, b)))"

context attempt_contract
begin

lemma history_counters:
  "attempts attempt ps b = (rs, b') \<Longrightarrow>
     length rs = length ps \<and>
     bp_OK b' = bp_OK b + int (length (filter (\<lambda>r. r = None) rs)) \<and>
     bp_Fail b' = bp_Fail b +
       int (length (filter (\<lambda>(p, r). r \<noteq> None \<and> counted p) (zip ps rs)))"
proof (induction ps arbitrary: b rs b')
  case Nil
  then show ?case by simp
next
  case (Cons p ps)
  obtain r b1 where att: "attempt p b = (r, b1)" by fastforce
  obtain rs1 b2 where rest: "attempts attempt ps b1 = (rs1, b2)" by fastforce
  from Cons.prems att rest have "rs = r # rs1" "b' = b2" by auto
  with Cons.IH [OF rest] counters [OF att] show ?case by auto
qed

lemma history_balance:
  assumes "\<forall>p \<in> set ps. counted p" and "attempts attempt ps b = (rs, b')"
  shows "bp_OK b' + bp_Fail b' = bp_OK b + bp_Fail b + int (length ps)"
proof -
  have len: "length rs = length ps" using history_counters [OF assms(2)] by blast
  have "filter (\<lambda>(p, r). r \<noteq> None \<and> counted p) (zip ps rs) = filter (\<lambda>(p, r). r \<noteq> None) (zip ps rs)"
    using assms(1) by (intro filter_cong) (auto dest: set_zip_leftD)
  moreover have "length (filter (\<lambda>(p, r). r \<noteq> None) (zip ps rs)) = length (filter (\<lambda>r. r \<noteq> None) rs)"
    using len by (induction ps rs rule: list_induct2') auto
  moreover have "length (filter (\<lambda>r. r = None) rs) + length (filter (\<lambda>r. r \<noteq> None) rs) = length rs"
    by (rule sum_length_filter_compl)
  ultimately show ?thesis using history_counters [OF assms(2)] len by simp
qed

end

section \<open>Wrong sequence number: what is sent\<close>

lemma word_and_max32 [simp]: "(w :: uint32) AND 0xFFFFFFFF = w"
proof -
  have "(0xFFFFFFFF :: uint32) = - 1" by simp
  then show ?thesis by (simp only: and.right_neutral)
qed

lemma fake_seq_ends: "fake_seq s pl + word_of_nat (length pl) = s + 1"
  by (simp add: fake_seq_def)

lemma WrongSeq_Inject_cases:
  obtains (failed) e es where "WrongSeq_Inject env p b =
      (Some e, fail_add (b\<lparr>bp_trace := bp_trace b @ es\<rparr>))" "sent es = []"
  | (injected) hello pkt es where
      "Build (NewBuilder (wp_Profile p) (ie_profile_draw env)) (wp_FakeSNI p) (ie_entropy env) = Inr hello"
      "CraftPacket (wrongseq_packet env p hello) (ie_craft env 0) = Inr pkt"
      "WrongSeq_Inject env p b = (None, ok_add (b\<lparr>bp_trace := bp_trace b @ es @ [Sent pkt]\<rparr>))"
      "sent es = []"
proof (cases "Build (NewBuilder (wp_Profile p) (ie_profile_draw env)) (wp_FakeSNI p) (ie_entropy env)")
  case (Inl e)
  then show ?thesis by (intro failed [of _ "[]"]) (simp_all add: WrongSeq_Inject_def)
next
  case build: (Inr hello)
  define d where "d = wrongseq_delay env p"
  define es where "es = (if d > 0 then [Slept d] else [])"
  define b1 where "b1 = b\<lparr>bp_trace := bp_trace b @ es\<rparr>"
  have b1: "(if d > 0 then slept d b else b) = b1"
    by (simp add: b1_def es_def slept_def)
  have es: "sent es = []" by (simp add: es_def)
  note unfolded = WrongSeq_Inject_def [of env p b, unfolded build, simplified,
      folded d_def, unfolded Let_def b1]
  show ?thesis
  proof (cases "d > 0 \<and> ie_wait_cancelled env")
    case True
    then show ?thesis
      by (intro failed [of "ie_ctx_err env" "[]"]) (simp_all add: unfolded)
  next
    case False
    note waited = unfolded [unfolded if_not_P [OF False]]
    show ?thesis
    proof (cases "ie_cancelled env 0")
      case True
      with es show ?thesis
        by (intro failed [of "ie_ctx_err env" es]) (simp_all add: waited b1_def)
    next
      case live: False
      show ?thesis
      proof (cases "CraftPacket (wrongseq_packet env p hello) (ie_craft env 0)")
        case (Inl e)
        with live es show ?thesis
          by (intro failed [of "wrap_error ''wrong_seq: craft'' e" es])
            (simp_all add: waited b1_def)
      next
        case (Inr pkt)
        show ?thesis
        proof (cases rule: Send_cases [of env 0 pkt "wp_DstIP p" b1])
          case (refused e)
          with live es Inr show ?thesis
            by (intro failed [of "wrap_error ''wrong_seq: send'' e" es])
              (simp_all add: waited b1_def)
        next
          case handed
          with live es Inr build show ?thesis
            by (intro injected [of hello pkt es]) (simp_all add: waited b1_def)
        qed
      qed
    qed
  qed
qed

abbreviation wrongseq_attempt :: "inject_env \<times> InjectParams \<Rightarrow> bypass \<Rightarrow> go_error option \<times> bypass"
  where "wrongseq_attempt \<equiv> \<lambda>(env, p). WrongSeq_Inject env p"

interpretation wrongseq: attempt_contract wrongseq_attempt "\<lambda>_. True"
proof unfold_locales
  fix p :: "inject_env \<times> InjectParams" and b r b'
  assume att: "wrongseq_attempt p b = (r, b')"
  obtain env q where p: "p = (env, q)" by fastforce
  from att show "bp_OK b' = bp_OK b + (if r = None then 1 else 0) \<and>
      bp_Fail b' = bp_Fail b + (if r \<noteq> None \<and> True then 1 else 0)"
    by (cases rule: WrongSeq_Inject_cases [of env q b]) (auto simp: p)
  from att show "\<exists>es. bp_trace b' = bp_trace b @ es"
    by (cases rule: WrongSeq_Inject_cases [of env q b]) (auto simp: p)
next
  fix p :: "inject_env \<times> InjectParams" and b b'
  assume att: "wrongseq_attempt p b = (None, b')"
  obtain env q where p: "p = (env, q)" by fastforce
  from att show "wire b' \<noteq> wire b"
    by (cases rule: WrongSeq_Inject_cases [of env q b]) (auto simp: p)
qed

lemma WrongSeq_Inject_sent:
  assumes "WrongSeq_Inject env p b = (None, b')"
    and "wp_FakeSNI p \<noteq> []" and "length (wp_FakeSNI p) \<le> 15000"
  shows "\<exists>pkt. wire b' = wire b @ [pkt] \<and>
    ip_checksum_ok pkt \<and> tcp_checksum_ok pkt \<and>
    (let q = decode_packet pkt in
       ExtractSNI (pk_Payload q) = Some (wp_FakeSNI p, True) \<and>
       pk_SeqNum q + word_of_nat (length (pk_Payload q)) = wp_SynSeq p + 1 \<and>
       pk_Flags q = 0x18 \<and> pk_SrcPort q = wp_SrcPort p \<and> pk_DstPort q = wp_DstPort p \<and>
       Some (pk_SrcIP q) = To4 (wp_SrcIP p) \<and> Some (pk_DstIP q) = To4 (wp_DstIP p))"
proof (cases rule: WrongSeq_Inject_cases [of env p b])
  case (failed e es)
  with assms(1) show ?thesis by simp
next
  case (injected hello pkt es)
  have "wire b' = wire b @ [pkt]"
    using assms(1) injected(3,4) by auto
  moreover have sni: "ExtractSNI hello = Some (wp_FakeSNI p, True)"
    using Build_NewBuilder_SNI [OF injected(1) assms(2,3)] by blast
  moreover have "length hello \<le> 65495"
    using Build_profile_length [OF _ injected(1)] GetProfile_in_allProfiles assms(3)
    by (fastforce simp: NewBuilder_def)
  then have "ip_checksum_ok pkt \<and> tcp_checksum_ok pkt"
    using CraftPacket_accepted [OF injected(2)] by (simp add: wrongseq_packet_def)
  moreover have "decode_packet pkt = (wrongseq_packet env p hello)\<lparr>pk_SrcIP := the (To4 (wp_SrcIP p)),
      pk_DstIP := the (To4 (wp_DstIP p)),
      pk_TTL := packet_ttl (wrongseq_packet env p hello) (ie_craft env 0), pk_Window := 65535\<rparr>"
    and "To4 (wp_SrcIP p) \<noteq> None" "To4 (wp_DstIP p) \<noteq> None"
    using CraftPacket_decode [OF injected(2)] by (simp_all add: wrongseq_packet_def)
  ultimately show ?thesis
    by (simp add: wrongseq_packet_def fake_seq_ends)
qed

text \<open>C27. When the wrong-sequence strategy reports success it has sent exactly one packet: a
  well-formed PSH+ACK segment from the connection's source to its destination whose payload is a
  ClientHello naming the decoy server, and whose sequence numbers end exactly where the real
  stream starts (sequence number plus payload length is ISN + 1 modulo $2^{32}$), so that the peer
  discards it as already acknowledged.\<close>

theorem WrongSeq_Inject_success:
  assumes "WrongSeq_Inject env p b = (None, b')"
    and "wp_FakeSNI p \<noteq> []" and "length (wp_FakeSNI p) \<le> 15000"
  shows "\<exists>pkt. wire b' = wire b @ [pkt] \<and>
    ip_checksum_ok pkt \<and> tcp_checksum_ok pkt \<and>
    (let q = decode_packet pkt in
       ExtractSNI (pk_Payload q) = Some (wp_FakeSNI p, True) \<and>
       pk_SeqNum q + word_of_nat (length (pk_Payload q)) = wp_SynSeq p + 1 \<and>
       pk_Flags q = 0x18 \<and> pk_SrcPort q = wp_SrcPort p \<and> pk_DstPort q = wp_DstPort p \<and>
       Some (pk_SrcIP q) = To4 (wp_SrcIP p) \<and> Some (pk_DstIP q) = To4 (wp_DstIP p))"
  by (rule WrongSeq_Inject_sent [OF assms])

definition sample_env :: inject_env where
  "sample_env =
     \<lparr>ie_profile_draw = 0, ie_entropy = zero_entropy, ie_now = 0,
      ie_delay = \<lparr>dd_branch = 1 / 2, dd_tail = 0, dd_norm = 0\<rparr>, ie_jitter = 0,
      ie_wait_cancelled = False, ie_cancelled = (\<lambda>_. False), ie_ctx_err = [''context canceled''],
      ie_ttl1 = (\<lambda>_. 0), ie_ttl2 = (\<lambda>_. 0), ie_craft = (\<lambda>_. sample_draws),
      ie_sendto = (\<lambda>_. None), ie_frag_jitter = (\<lambda>_. 0)\<rparr>"

definition sample_inject :: InjectParams where
  "sample_inject =
     \<lparr>wp_SrcIP = [10, 0, 0, 1], wp_DstIP = [1, 2, 3, 4], wp_SrcPort = 40000, wp_DstPort = 443,
      wp_SynSeq = 5, wp_SynTime = 0, wp_FakeSNI = ''hcaptcha.com'', wp_Profile = ''firefox'',
      wp_TTLSpoof = True, wp_DelayMs = 2, wp_MinDelayMs = 1, wp_MaxDelayMs = 10, wp_JitterMs = 0\<rparr>"

lemma WrongSeq_Inject_sample: "\<exists>b'. WrongSeq_Inject sample_env sample_inject new_bypass = (None, b')"
proof -
  obtain hello where "Build (NewBuilder ''firefox'' 0) ''hcaptcha.com'' zero_entropy = Inr hello"
    using Build_zero_entropy by blast
  then show ?thesis
    by (simp add: WrongSeq_Inject_def sample_env_def sample_inject_def CraftPacket_def
        wrongseq_packet_def To4_def Send_def Let_def)
qed

theorem WrongSeq_Inject_success_witness:
  "\<exists>b' pkt. WrongSeq_Inject sample_env sample_inject new_bypass = (None, b') \<and>
     wire b' = [pkt] \<and>
     ExtractSNI (pk_Payload (decode_packet pkt)) = Some (''hcaptcha.com'', True)"
proof -
  obtain b' where b': "WrongSeq_Inject sample_env sample_inject new_bypass = (None, b')"
    using WrongSeq_Inject_sample by blast
  from WrongSeq_Inject_success [OF b'] b' show ?thesis
    by (auto simp: sample_inject_def new_bypass_def Let_def)
qed

section \<open>Fragments: what is sent\<close>

lemma chunk_loop_step:
  assumes "data \<noteq> []" and "0 < n"
  shows "chunk_loop n data = take n data # chunk_loop n (drop n data)"
  using assms by (subst chunk_loop.simps) (auto simp: Let_def)

lemma chunk_loop_Nil [simp]: "chunk_loop n [] = []"
  by (simp add: chunk_loop.simps)

lemma chunk_loop_concat: "0 < n \<Longrightarrow> concat (chunk_loop n data) = data"
proof (induction n data rule: chunk_loop.induct)
  case (1 n data)
  show ?case
  proof (cases "data = []")
    case False
    with 1(2) 1(1) [OF _ refl] show ?thesis
      by (cases "n > length data") (simp_all add: chunk_loop_step)
  qed simp
qed

lemma chunk_loop_sizes:
  assumes "0 < n" and "c \<in> set (chunk_loop n data)"
  shows "c \<noteq> [] \<and> length c \<le> n"
  using assms
proof (induction n data rule: chunk_loop.induct)
  case (1 n data)
  show ?case
  proof (cases "data = []")
    case False
    with 1(2,3) consider "c = take n data" | "c \<in> set (chunk_loop n (drop n data))"
      by (auto simp: chunk_loop_step)
    then show ?thesis
    proof cases
      case 2
      with False 1(1) [OF _ refl] 1(2) show ?thesis
        by (cases "n > length data") simp_all
    qed (use False 1(2) in simp)
  qed (use 1 in simp)
qed

lemma chunkBytes_concat [simp]: "concat (chunkBytes data n) = data"
  by (simp add: chunkBytes_def chunk_loop_concat)

lemma chunkBytes_nonempty: "data \<noteq> [] \<Longrightarrow> c \<in> set (chunkBytes data n) \<Longrightarrow> c \<noteq> []"
  using chunk_loop_sizes [of "nat n" c data] by (auto simp: chunkBytes_def split: if_splits)

text \<open>The packets the loop means to send.\<close>

definition frag_plan :: "inject_env \<Rightarrow> FragmentParams \<Rightarrow> nat \<Rightarrow> uint32 \<Rightarrow> bytes list \<Rightarrow> nat \<Rightarrow> PacketParams"
where
  "frag_plan env p i cur frags j =
     frag_packet env p (i + j) (Suc j = length frags)
       (cur + word_of_nat (length (concat (take j frags)))) (frags ! j)"

lemma frag_plan_0: "frag_plan env p i cur (f # fs) 0 = frag_packet env p i (fs = []) cur f"
  by (simp add: frag_plan_def)

lemma frag_plan_Suc:
  "frag_plan env p i cur (f # fs) (Suc j) =
     frag_plan env p (Suc i) (cur + word_of_nat (length f)) fs j"
  by (simp add: frag_plan_def add.assoc)

lemma frag_loop_sends:
  "frag_loop env p i cur frags b = (r, b') \<Longrightarrow>
     \<exists>es. bp_trace b' = bp_trace b @ es \<and> length (sent es) \<le> length frags \<and>
       (r = None \<longrightarrow> length (sent es) = length frags) \<and>
       (\<forall>j < length (sent es).
          CraftPacket (frag_plan env p i cur frags j) (ie_craft env (i + j)) = Inr (sent es ! j)) \<and>
       bp_OK b' = bp_OK b + (if r = None then 1 else 0) \<and>
       bp_Fail b' = bp_Fail b + (if r = None then 0 else 1)"
proof (induction frags arbitrary: i cur b)
  case Nil
  then show ?case by auto
next
  case (Cons f fs)
  show ?case
  proof (cases "ie_cancelled env i")
    case True
    with Cons.prems show ?thesis by (intro exI [of _ "[]"]) auto
  next
    case live: False
    show ?thesis
    proof (cases "CraftPacket (frag_packet env p i (fs = []) cur f) (ie_craft env i)")
      case (Inl e)
      with Cons.prems live show ?thesis by (intro exI [of _ "[]"]) auto
    next
      case (Inr pkt)
      show ?thesis
      proof (cases rule: Send_cases [of env i pkt "fp_DstIP p" b])
        case (refused e)
        with Cons.prems live Inr show ?thesis by (intro exI [of _ "[]"]) auto
      next
        case handed
        define es1 where "es1 = (if fp_InterFragMs p > 0 \<and> fs \<noteq> []
            then [Sent pkt, Slept (JitterSleep (ie_frag_jitter env i)
                    (ms_dur (fp_InterFragMs p)) (fp_JitterMs p))] else [Sent pkt])"
        have es1: "sent es1 = [pkt]" by (simp add: es1_def)
        let ?b = "b\<lparr>bp_trace := bp_trace b @ es1\<rparr>"
        have rest: "frag_loop env p (Suc i) (cur + word_of_nat (length f)) fs ?b = (r, b')"
          using Cons.prems live Inr handed(1) by (auto simp: Let_def es1_def slept_def split: if_splits)
        obtain es where es: "bp_trace b' = bp_trace ?b @ es" "length (sent es) \<le> length fs"
           "r = None \<longrightarrow> length (sent es) = length fs"
           "\<And>j. j < length (sent es) \<Longrightarrow> CraftPacket (frag_plan env p (Suc i)
               (cur + word_of_nat (length f)) fs j) (ie_craft env (Suc i + j)) = Inr (sent es ! j)"
           "bp_OK b' = bp_OK ?b + (if r = None then 1 else 0)"
           "bp_Fail b' = bp_Fail ?b + (if r = None then 0 else 1)"
          using Cons.IH [OF rest] by blast
        have "CraftPacket (frag_plan env p i cur (f # fs) j) (ie_craft env (i + j)) =
            Inr ((pkt # sent es) ! j)" if "j < Suc (length (sent es))" for j
          using that es(4) Inr
          by (cases j) (simp_all only: frag_plan_0 frag_plan_Suc, simp_all)
        with es show ?thesis
          by (intro exI [of _ "es1 @ es"]) (auto simp: es1)
      qed
    qed
  qed
qed

text \<open>A started attempt either stops before the loop or runs it.\<close>

definition frag_frags :: "FragmentParams \<Rightarrow> bytes list" where
  "frag_frags p = chunkBytes (fp_Payload p) (frag_size (fp_Payload p) (fp_FragSize p))"

lemma Fragment_Inject_sends:
  assumes inj: "Fragment_Inject env p b = (r, b')" and ne: "fp_Payload p \<noteq> []"
  obtains es where "bp_trace b' = bp_trace b @ es" and "length (sent es) \<le> length (frag_frags p)"
    and "r = None \<longrightarrow> length (sent es) = length (frag_frags p)"
    and "\<And>j. j < length (sent es) \<Longrightarrow>
      CraftPacket (frag_plan env p 0 (fake_seq (fp_SynSeq p) (fp_Payload p)) (frag_frags p) j)
        (ie_craft env j) = Inr (sent es ! j)"
    and "bp_OK b' = bp_OK b + (if r = None then 1 else 0)"
    and "bp_Fail b' = bp_Fail b + (if r = None then 0 else 1)"
proof (cases "ie_wait_cancelled env")
  case True
  with inj ne that [of "[]"] show ?thesis by (auto simp: Fragment_Inject_def Let_def)
next
  case False
  let ?d = "AdaptiveDelay (ie_delay env) (ie_now env) (fp_SynTime p)
              (fp_DelayMs p) (fp_MinDelayMs p) (fp_MaxDelayMs p)"
  have "frag_loop env p 0 (fake_seq (fp_SynSeq p) (fp_Payload p)) (frag_frags p) (slept ?d b) = (r, b')"
    using inj ne False by (simp add: Fragment_Inject_def Let_def frag_frags_def)
  from frag_loop_sends [OF this] show ?thesis
    using that [of "Slept ?d # es" for es] by force
qed

lemma frag_frags_concat [simp]: "concat (frag_frags p) = fp_Payload p"
  by (simp add: frag_frags_def)

interpretation fragment: attempt_contract "\<lambda>(env, p). Fragment_Inject env p"
  "\<lambda>(env, p). fp_Payload p \<noteq> []"
proof unfold_locales
  fix x :: "inject_env \<times> FragmentParams" and b r b'
  assume att: "(\<lambda>(env, p). Fragment_Inject env p) x b = (r, b')"
  obtain env p where x: "x = (env, p)" by fastforce
  with att have inj: "Fragment_Inject env p b = (r, b')" by simp
  show "bp_OK b' = bp_OK b + (if r = None then 1 else 0) \<and>
      bp_Fail b' = bp_Fail b +
        (if r \<noteq> None \<and> (\<lambda>(env, p). fp_Payload p \<noteq> []) x then 1 else 0)"
  proof (cases "fp_Payload p = []")
    case True
    with inj show ?thesis by (auto simp: x Fragment_Inject_def)
  next
    case False
    show ?thesis by (rule Fragment_Inject_sends [OF inj False]) (simp add: x False)
  qed
  show "\<exists>es. bp_trace b' = bp_trace b @ es"
  proof (cases "fp_Payload p = []")
    case True
    with inj show ?thesis by (auto simp: x Fragment_Inject_def)
  next
    case False
    show ?thesis by (rule Fragment_Inject_sends [OF inj False]) blast
  qed
next
  fix x :: "inject_env \<times> FragmentParams" and b b'
  assume att: "(\<lambda>(env, p). Fragment_Inject env p) x b = (None, b')"
  obtain env p where x: "x = (env, p)" by fastforce
  with att have inj: "Fragment_Inject env p b = (None, b')" by simp
  then have ne: "fp_Payload p \<noteq> []" by (auto simp: Fragment_Inject_def)
  then have "frag_frags p \<noteq> []" by (metis concat.simps(1) frag_frags_concat)
  with Fragment_Inject_sends [OF inj ne] show "wire b' \<noteq> wire b" by force
qed

lemma concat_drop_take:
  assumes "i \<le> k" and "k \<le> length xs"
  shows "concat (drop i (take k xs)) @ concat (drop k xs) = concat (drop i xs)"
proof -
  have "drop i (take k xs @ drop k xs) = drop i (take k xs) @ drop k xs"
    using assms by (simp only: drop_append) simp
  then show ?thesis by (simp flip: concat_append)
qed

lemma length_concat_take_drop:
  "length (concat xs) = length (concat (take i xs)) + length (concat (drop i xs))"
  by (simp flip: length_append concat_append)

lemma length_concat_member: "x \<in> set xss \<Longrightarrow> length x \<le> length (concat xss)"
  by (induction xss) auto

lemma sent_plan_decode:
  assumes "CraftPacket (frag_plan env p 0 cur frags j) d = Inr pkt"
  shows "pk_Payload (decode_packet pkt) = frags ! j"
    and "pk_SeqNum (decode_packet pkt) = cur + word_of_nat (length (concat (take j frags)))"
    and "pk_Flags (decode_packet pkt) = (if Suc j = length frags then 0x18 else 0x10)"
  using CraftPacket_decode(1) [OF assms] by (simp_all add: frag_plan_def frag_packet_def)

lemma concat_drop_Nil:
  assumes "\<forall>f \<in> set fs. f \<noteq> []" and "k \<le> length fs"
  shows "concat (drop k fs) = [] \<longleftrightarrow> k = length fs"
proof
  assume "concat (drop k fs) = []"
  then have "drop k fs = []" using assms(1) by (cases "drop k fs") (auto, metis in_set_dropD list.set_intros(1))
  with assms(2) show "k = length fs" by simp
qed simp

text \<open>What a run of crafted fragments carries: \<open>pkts\<close> are the first packets of the plan.\<close>

lemma sent_plan_payloads:
  assumes "\<And>j. j < length pkts \<Longrightarrow> CraftPacket (frag_plan env p 0 cur frags j) (d j) = Inr (pkts ! j)"
    and "length pkts \<le> length frags"
  shows "map pk_Payload (map decode_packet pkts) = take (length pkts) frags"
  using sent_plan_decode(1) [OF assms(1)] assms(2) by (intro nth_equalityI) simp_all

lemma sent_plan_position:
  assumes "\<And>j. j < length pkts \<Longrightarrow> CraftPacket (frag_plan env p 0 cur frags j) (d j) = Inr (pkts ! j)"
    and k: "length pkts \<le> length frags" and ne: "\<forall>f \<in> set frags. f \<noteq> []" and i: "i < length pkts"
  defines "qs \<equiv> map decode_packet pkts" and "rest \<equiv> concat (drop (length pkts) frags)"
  shows "pk_Payload (qs ! i) \<noteq> [] \<and>
    pk_SeqNum (qs ! i) + word_of_nat (length (concat (map pk_Payload (drop i qs)) @ rest)) =
      cur + word_of_nat (length (concat frags)) \<and>
    pk_Flags (qs ! i) = (if Suc i = length qs \<and> rest = [] then 0x18 else 0x10)"
proof -
  note dec = sent_plan_decode [OF assms(1) [OF i]]
  have payloads: "map pk_Payload qs = take (length pkts) frags"
    unfolding qs_def by (rule sent_plan_payloads [OF assms(1) k])
  have "concat (map pk_Payload (drop i qs)) @ rest = concat (drop i frags)"
    unfolding drop_map [symmetric] payloads rest_def
    using i k by (simp add: concat_drop_take)
  then have "length (concat frags) = length (concat (take i frags)) +
      length (concat (map pk_Payload (drop i qs)) @ rest)"
    by (simp add: length_concat_take_drop [of frags i])
  then have "pk_SeqNum (qs ! i) + word_of_nat (length (concat (map pk_Payload (drop i qs)) @ rest)) =
      cur + word_of_nat (length (concat frags))"
    using dec(2) i by (simp add: qs_def)
  moreover have "frags ! i \<noteq> []" using i k ne by simp
  ultimately show ?thesis
    using dec(1,3) i k concat_drop_Nil [OF ne k] by (auto simp: qs_def rest_def)
qed

lemma sent_plan_sums:
  assumes "\<And>j. j < length pkts \<Longrightarrow> CraftPacket (frag_plan env p 0 cur frags j) (d j) = Inr (pkts ! j)"
    and "length pkts \<le> length frags" and "length (concat frags) \<le> 65495" and "pkt \<in> set pkts"
  shows "ip_checksum_ok pkt \<and> tcp_checksum_ok pkt"
proof -
  obtain j where j: "j < length pkts" "pkt = pkts ! j" using assms(4) by (auto simp: in_set_conv_nth)
  have "length (frags ! j) \<le> length (concat frags)"
    using nth_mem [of j frags] j(1) assms(2) by (intro length_concat_member) simp
  with assms(3) show ?thesis
    using CraftPacket_accepted [OF assms(1), of j] j by (simp add: frag_plan_def frag_packet_def)
qed

text \<open>C28. Fragmented injection, whatever cuts it short: the packets sent are well formed; their
  payloads in order are a prefix of the fake ClientHello, every one not empty; the sequence number of
  each is where the previous one ended, starting so that the whole hello would end at ISN + 1
  (modulo $2^{32}$); only the final fragment carries PSH; and when the call reports success the
  whole hello has been sent.\<close>

theorem Fragment_Inject_stream:
  assumes "Fragment_Inject env p b = (r, b')" and "fp_Payload p \<noteq> []"
    and "length (fp_Payload p) \<le> 65495"
  shows "\<exists>pkts rest. wire b' = wire b @ pkts \<and>
    (let qs = map decode_packet pkts in
       concat (map pk_Payload qs) @ rest = fp_Payload p \<and> (r = None \<longrightarrow> rest = []) \<and>
       (\<forall>i < length qs. pk_Payload (qs ! i) \<noteq> [] \<and>
          pk_SeqNum (qs ! i) + word_of_nat (length (concat (map pk_Payload (drop i qs)) @ rest)) =
            fp_SynSeq p + 1 \<and>
          pk_Flags (qs ! i) = (if Suc i = length qs \<and> rest = [] then 0x18 else 0x10))) \<and>
    (\<forall>pkt \<in> set pkts. ip_checksum_ok pkt \<and> tcp_checksum_ok pkt)"
proof -
  obtain es where es: "bp_trace b' = bp_trace b @ es" "length (sent es) \<le> length (frag_frags p)"
    "r = None \<longrightarrow> length (sent es) = length (frag_frags p)"
    and craft: "\<And>j. j < length (sent es) \<Longrightarrow>
      CraftPacket (frag_plan env p 0 (fake_seq (fp_SynSeq p) (fp_Payload p)) (frag_frags p) j)
        (ie_craft env j) = Inr (sent es ! j)"
    by (rule Fragment_Inject_sends [OF assms(1,2)]) blast
  define qs where "qs = map decode_packet (sent es)"
  define rest where "rest = concat (drop (length (sent es)) (frag_frags p))"
  have ne: "\<forall>f \<in> set (frag_frags p). f \<noteq> []"
    using chunkBytes_nonempty [OF assms(2)] by (simp add: frag_frags_def)
  have payloads: "map pk_Payload qs = take (length (sent es)) (frag_frags p)"
    unfolding qs_def by (rule sent_plan_payloads [OF craft es(2)])
  have "concat (map pk_Payload qs) @ rest = fp_Payload p"
    unfolding payloads rest_def by (simp flip: concat_append)
  moreover have "wire b' = wire b @ sent es" using es(1) by simp
  moreover have "r = None \<longrightarrow> rest = []" using es(3) by (simp add: rest_def)
  moreover have "pk_Payload (qs ! i) \<noteq> [] \<and>
      pk_SeqNum (qs ! i) + word_of_nat (length (concat (map pk_Payload (drop i qs)) @ rest)) =
        fp_SynSeq p + 1 \<and>
      pk_Flags (qs ! i) = (if Suc i = length qs \<and> rest = [] then 0x18 else 0x10)" if "i < length qs" for i
  proof -
    have "i < length (sent es)" using that by (simp add: qs_def)
    from sent_plan_position [OF craft es(2) ne this, folded qs_def rest_def] show ?thesis
      unfolding frag_frags_concat fake_seq_ends .
  qed
  moreover have "\<forall>pkt \<in> set (sent es). ip_checksum_ok pkt \<and> tcp_checksum_ok pkt"
    using sent_plan_sums [OF craft es(2)] assms(3) by simp
  ultimately show ?thesis unfolding Let_def qs_def by blast
qed

definition sample_frag :: FragmentParams where
  "sample_frag =
     \<lparr>fp_SrcIP = [10, 0, 0, 1], fp_DstIP = [1, 2, 3, 4], fp_SrcPort = 40000, fp_DstPort = 443,
      fp_SynSeq = 1, fp_SynAckSeq = 9, fp_SynTime = 0, fp_Payload = [22, 3, 1], fp_FragSize = 2,
      fp_DelayMs = 2, fp_MinDelayMs = 1, fp_MaxDelayMs = 10, fp_JitterMs = 0, fp_TTLSpoof = False,
      fp_InterFragMs = 1 / 2\<rparr>"

lemma Fragment_Inject_sample:
  "\<exists>b'. Fragment_Inject sample_env sample_frag new_bypass = (None, b')"
  by (simp add: Fragment_Inject_def sample_env_def sample_frag_def frag_size_def chunkBytes_def
      chunk_loop_step numeral_2_eq_2 Let_def CraftPacket_def frag_packet_def To4_def Send_def)

theorem Fragment_Inject_stream_witness:
  "\<exists>b' pkts. Fragment_Inject sample_env sample_frag new_bypass = (None, b') \<and>
     wire b' = pkts \<and> concat (map pk_Payload (map decode_packet pkts)) = [22, 3, 1]"
proof -
  obtain b' where b': "Fragment_Inject sample_env sample_frag new_bypass = (None, b')"
    using Fragment_Inject_sample by blast
  from Fragment_Inject_stream [OF b'] b' show ?thesis
    by (auto simp: sample_frag_def new_bypass_def Let_def)
qed

section \<open>Desynchronisation: what is sent\<close>

lemma put_uint16_flip:
  "[ucast (drop_bit 8 v) XOR 0xFF, ucast v XOR 0xFF] = put_uint16 (NOT v)"
proof -
  have flip: "x XOR 0xFF = NOT x" for x :: byte
  proof -
    have "(0xFF :: byte) = NOT 0" by simp
    then show ?thesis by (simp only: bit.xor_compl_right xor.right_neutral)
  qed
  have "NOT (ucast (drop_bit 8 v)) = (ucast (drop_bit 8 (NOT v)) :: byte)"
    and "NOT (ucast v) = (ucast (NOT v) :: byte)"
    by (rule bit_word_eqI; auto simp: bit_simps)+
  then show ?thesis by (simp add: put_uint16_def flip)
qed

lemma flip_checksum_marshal:
  assumes "length iph = 20"
  shows "flip_checksum (iph @ tcp_head t @ put_uint16 cs @ post) =
    iph @ tcp_head t @ put_uint16 (NOT cs) @ post"
proof -
  have upd: "(xs @ [a, b] @ post)[length xs := a', Suc (length xs) := b'] = xs @ [a', b'] @ post"
    for xs post :: bytes and a b a' b'
    by (simp add: list_update_append)
  have "(iph @ tcp_head t @ put_uint16 cs @ post)[36 := a', 37 := b'] = iph @ tcp_head t @ [a', b'] @ post"
    for a' b'
    using upd [of "iph @ tcp_head t" "ucast (drop_bit 8 cs)" "ucast cs" post a' b'] assms
    by (simp add: put_uint16_def)
  moreover have "(iph @ tcp_head t @ put_uint16 cs @ post) ! 36 = ucast (drop_bit 8 cs)"
    "(iph @ tcp_head t @ put_uint16 cs @ post) ! 37 = ucast cs"
    using assms by (simp_all add: nth_append put_uint16_def)
  ultimately show ?thesis
    using assms put_uint16_flip [of cs] by (simp add: flip_checksum_def)
qed

lemma double_mod_65535:
  assumes "(s + c) mod 65535 = 0" and "0 < s" and "c \<le> (65535 :: nat)"
  shows "(s + (65535 - c)) mod 65535 = 0 \<longleftrightarrow> c = 0 \<or> c = 65535"
proof
  assume "(s + (65535 - c)) mod 65535 = 0"
  then obtain m where m: "s + (65535 - c) = 65535 * m" by (metis mod_0_imp_dvd dvdE)
  obtain n where n: "s + c = 65535 * n" using assms(1) by (metis mod_0_imp_dvd dvdE)
  define k where "k = int n + 1 - int m"
  have "s + 65535 = 65535 * m + c" using m assms(3) by simp
  then have "int s + 65535 = 65535 * int m + int c"
    by (metis of_nat_add of_nat_mult of_nat_numeral)
  moreover have "int s + int c = 65535 * int n"
    using n by (metis of_nat_add of_nat_mult of_nat_numeral)
  ultimately have c: "2 * int c = 65535 * k" unfolding k_def by simp
  then have "0 \<le> k" and "k \<le> 2" using assms(3) by linarith+
  moreover have "k \<noteq> 1"
  proof
    assume "k = 1"
    with c have "even (65535 :: int)" by (metis dvd_triv_left mult.right_neutral)
    then show False by simp
  qed
  ultimately have "k = 0 \<or> k = 2" by linarith
  then show "c = 0 \<or> c = 65535" using c by auto
next
  assume "c = 0 \<or> c = 65535"
  then show "(s + (65535 - c)) mod 65535 = 0" using assms(1) by auto
qed

text \<open>The one checksum value a flip leaves valid.\<close>

lemma tcp_flip_ok_iff:
  assumes len: "length src = 4" "length dst = 4" "length pl \<le> 65535" "length urg = 2"
    and valid: "checksum_ok (tcp_pseudo src dst (tcp_head t @ put_uint16 cs @ urg @ pl))"
  shows "checksum_ok (tcp_pseudo src dst (tcp_head t @ put_uint16 (NOT cs) @ urg @ pl)) \<longleftrightarrow>
      cs = 0 \<or> cs = 0xFFFF"
proof -
  let ?xs = "src @ dst @ [0, IPPROTO_TCP] @ put_uint16 (word_of_nat (20 + length pl)) @ tcp_head t"
  let ?ys = "urg @ pl"
  let ?s = "be_sum ?xs + be_sum ?ys"
  have pseudo: "tcp_pseudo src dst (tcp_head t @ put_uint16 v @ urg @ pl) = ?xs @ put_uint16 v @ ?ys"
    for v using len by (simp add: tcp_pseudo_def)
  have iff: "checksum_ok (?xs @ put_uint16 v @ ?ys) \<longleftrightarrow>
      0 < ?s + unat v \<and> (?s + unat v) mod 65535 = 0" for v
    using len by (intro checksum_put_iff) simp_all
  have pos: "0 < ?s"
    using len by (simp add: be_sum_append IPPROTO_TCP_def)
  have le: "unat cs \<le> 65535" using unsigned_less [of cs, where ?'a = nat] by simp
  have "(?s + unat cs) mod 65535 = 0" using valid unfolding pseudo iff by blast
  from double_mod_65535 [OF this pos le] have
    "checksum_ok (?xs @ put_uint16 (NOT cs) @ ?ys) \<longleftrightarrow> unat cs = 0 \<or> unat cs = 65535"
    unfolding iff using pos by (simp add: unat_NOT16)
  moreover have "unat cs = 65535 \<longleftrightarrow> cs = 0xFFFF"
    by (simp add: word_unat_eq_iff)
  ultimately show ?thesis unfolding pseudo by (simp add: unat_eq_0)
qed

lemma desync_run_cases:
  obtains (failed) e where "desync_run env p b = (Some e, b)"
  | (handed) pkt where "desync_run env p b = (None, b\<lparr>bp_trace := bp_trace b @ [Sent pkt]\<rparr>)"
proof -
  have send: thesis if "desync_run env p b = Send env 0 pkt (dp_DstIP p) b" for pkt
    by (cases rule: Send_cases [of env 0 pkt "dp_DstIP p" b])
      (use that failed handed in auto)
  show thesis
    by (cases "dp_Method p"; cases "CraftPacket (badcs_packet env p) (ie_craft env 0)";
        cases "CraftPacket (rst_packet env p) (ie_craft env 0)";
        cases "CraftPacket (ttl_packet p) (ie_craft env 0)")
      (auto simp: desync_run_def badChecksum_def rst_def ttlLimited_def intro: send failed)
qed

lemma Desync_Inject_cases:
  obtains (failed) e es where
      "Desync_Inject env p b = (Some e, fail_add (b\<lparr>bp_trace := bp_trace b @ es\<rparr>))" "sent es = []"
  | (injected) d pkt where
      "desync_run env p (slept d b) =
         (None, (slept d b)\<lparr>bp_trace := bp_trace (slept d b) @ [Sent pkt]\<rparr>)"
      "Desync_Inject env p b = (None, ok_add (b\<lparr>bp_trace := bp_trace b @ [Slept d, Sent pkt]\<rparr>))"
proof -
  define d where "d = AdaptiveDelay (ie_delay env) (ie_now env) (dp_SynTime p)
                    (dp_DelayMs p) (dp_MinDelayMs p) (dp_MaxDelayMs p)"
  note unfolded = Desync_Inject_def [of env p b, folded d_def, unfolded Let_def]
  consider "ie_wait_cancelled env" | "\<not> ie_wait_cancelled env" "ie_cancelled env 0"
    | "\<not> ie_wait_cancelled env" "\<not> ie_cancelled env 0" by blast
  then show ?thesis
  proof cases
    case 1
    then show ?thesis
      by (intro failed [of "ie_ctx_err env" "[]"]) (simp_all add: unfolded)
  next
    case 2
    then show ?thesis
      by (intro failed [of "ie_ctx_err env" "[Slept d]"]) (simp_all add: unfolded slept_def)
  next
    case 3
    show ?thesis
    proof (cases rule: desync_run_cases [of env p "slept d b"])
      case (failed e)
      with 3 show ?thesis
        by (intro that(1) [of e "[Slept d]"]) (simp_all add: unfolded slept_def)
    next
      case (handed pkt)
      with 3 show ?thesis
        by (intro injected [of d pkt]) (simp_all add: unfolded slept_def)
    qed
  qed
qed

interpretation desync: attempt_contract "\<lambda>(env, p). Desync_Inject env p" "\<lambda>_. True"
proof unfold_locales
  fix x :: "inject_env \<times> DesyncParams" and b r b'
  assume att: "(\<lambda>(env, p). Desync_Inject env p) x b = (r, b')"
  obtain env p where x: "x = (env, p)" by fastforce
  from att show "bp_OK b' = bp_OK b + (if r = None then 1 else 0) \<and>
      bp_Fail b' = bp_Fail b + (if r \<noteq> None \<and> True then 1 else 0)"
    by (cases rule: Desync_Inject_cases [of env p b]) (auto simp: x)
  from att show "\<exists>es. bp_trace b' = bp_trace b @ es"
    by (cases rule: Desync_Inject_cases [of env p b]) (auto simp: x)
next
  fix x :: "inject_env \<times> DesyncParams" and b b'
  assume att: "(\<lambda>(env, p). Desync_Inject env p) x b = (None, b')"
  obtain env p where x: "x = (env, p)" by fastforce
  from att show "wire b' \<noteq> wire b"
    by (cases rule: Desync_Inject_cases [of env p b]) (auto simp: x)
qed

text \<open>The checksum field of a packet.\<close>

definition tcp_checksum_field :: "bytes \<Rightarrow> uint16" where
  "tcp_checksum_field pkt = be_uint16 (pkt ! 36) (pkt ! 37)"

lemma badChecksum_flip:
  assumes "CraftPacket p d = Inr orig" and "length (pk_Payload p) \<le> 65495"
  shows "ip_checksum_ok (flip_checksum orig) \<and>
    decode_packet (flip_checksum orig) = decode_packet orig \<and>
    (tcp_checksum_ok (flip_checksum orig) \<longleftrightarrow>
       tcp_checksum_field orig = 0 \<or> tcp_checksum_field orig = 0xFFFF)"
proof -
  obtain src dst where lens: "length src = 4" "length dst = 4"
    and pkt: "orig = ip_marshal (packet_ip_header p d src dst) @
       tcp_marshal (packet_tcp_header p) src dst (pk_Payload p)"
    by (rule CraftPacket_Inr [OF assms(1)])
  let ?h = "packet_ip_header p d src dst" and ?t = "packet_tcp_header p"
  let ?cs = "tcpChecksum src dst (tcp_unsummed ?t (pk_Payload p))"
  let ?urg = "put_uint16 (tcp_Urgent ?t)"
  have addrs: "ip_SrcIP ?h = src" "ip_DstIP ?h = dst"
    by (simp_all add: packet_ip_header_def)
  have hlen: "length (ip_marshal ?h) = 20" using lens by (simp add: addrs)
  have orig: "orig = ip_marshal ?h @ tcp_head ?t @ put_uint16 ?cs @ ?urg @ pk_Payload p"
    by (simp add: pkt tcp_marshal_eq)
  have flip: "flip_checksum orig =
      ip_marshal ?h @ tcp_head ?t @ put_uint16 (NOT ?cs) @ ?urg @ pk_Payload p"
    unfolding orig by (rule flip_checksum_marshal [OF hlen])
  have ips: "take 4 (drop 12 (ip_marshal ?h @ seg)) = src"
    "take 4 (drop 16 (ip_marshal ?h @ seg)) = dst" for seg
    using ip_marshal_addresses [of ?h seg] lens unfolding addrs by blast+
  have field: "tcp_checksum_field orig = ?cs"
    using hlen by (simp add: tcp_checksum_field_def orig nth_append put_uint16_def)
  have acc: "ip_checksum_ok orig" "tcp_checksum_ok orig"
    using CraftPacket_accepted [OF assms] by blast+
  have ok: "tcp_checksum_ok (ip_marshal ?h @ seg) \<longleftrightarrow> checksum_ok (tcp_pseudo src dst seg)" for seg
    unfolding tcp_checksum_ok_def ips using hlen by simp
  have valid: "checksum_ok (tcp_pseudo src dst (tcp_head ?t @ put_uint16 ?cs @ ?urg @ pk_Payload p))"
    using acc(2) unfolding orig ok .
  have "tcp_checksum_ok (flip_checksum orig) \<longleftrightarrow> ?cs = 0 \<or> ?cs = 0xFFFF"
    unfolding flip ok using lens assms(2) valid by (intro tcp_flip_ok_iff) simp_all
  moreover have "ip_checksum_ok (flip_checksum orig)"
    using acc(1) hlen unfolding ip_checksum_ok_def flip unfolding orig by simp
  moreover have "decode_packet (flip_checksum orig) = decode_packet orig"
    using hlen unfolding decode_packet_def flip unfolding orig by (simp add: nth_append)
  ultimately show ?thesis using field by simp
qed

text \<open>C36. What the bad-checksum strategy sends. On success it has handed over one packet that
  carries the ISN + 1 segment with the whole payload and a valid IP header checksum; the receiver
  rejects its TCP checksum in every case but one: complementing the field leaves the packet
  valid exactly when the crafted checksum is 0x0000 or 0xFFFF (the two spellings of zero in ones'
  complement), and then the decoy is delivered as real data.\<close>

theorem badChecksum_rejected_iff:
  assumes "badChecksum env p b = (None, b')" and "length (dp_Payload p) \<le> 65495"
  shows "\<exists>orig. CraftPacket (badcs_packet env p) (ie_craft env 0) = Inr orig \<and>
    wire b' = wire b @ [flip_checksum orig] \<and>
    pk_Payload (decode_packet (flip_checksum orig)) = dp_Payload p \<and>
    pk_SeqNum (decode_packet (flip_checksum orig)) = dp_SynSeq p + 1 \<and>
    ip_checksum_ok (flip_checksum orig) \<and>
    (tcp_checksum_ok (flip_checksum orig) \<longleftrightarrow>
       tcp_checksum_field orig = 0 \<or> tcp_checksum_field orig = 0xFFFF)"
proof (cases "CraftPacket (badcs_packet env p) (ie_craft env 0)")
  case (Inl e)
  with assms(1) show ?thesis by (simp add: badChecksum_def)
next
  case (Inr orig)
  have "length (pk_Payload (badcs_packet env p)) \<le> 65495"
    using assms(2) by (simp add: badcs_packet_def)
  note flip = badChecksum_flip [OF Inr this]
  have "wire b' = wire b @ [flip_checksum orig]"
    using assms(1) Inr
    by (cases rule: Send_cases [of env 0 "flip_checksum orig" "dp_DstIP p" b])
      (auto simp: badChecksum_def)
  with flip Inr CraftPacket_decode(1) [OF Inr] show ?thesis
    by (intro exI [of _ orig]) (simp add: badcs_packet_def)
qed

definition sample_desync :: "DesyncMethod \<Rightarrow> DesyncParams" where
  "sample_desync m =
     \<lparr>dp_SrcIP = [10, 0, 0, 1], dp_DstIP = [1, 2, 3, 4], dp_SrcPort = 40000, dp_DstPort = 443,
      dp_SynSeq = 1, dp_SynAckSeq = 9, dp_SynTime = 0, dp_Method = m, dp_Payload = [22, 3, 1],
      dp_DelayMs = 2, dp_MinDelayMs = 1, dp_MaxDelayMs = 10, dp_JitterMs = 0\<rparr>"

theorem badChecksum_rejected_iff_witness:
  "\<exists>b' pkt. badChecksum sample_env (sample_desync DesyncBadChecksum) new_bypass = (None, b') \<and>
     wire b' = [pkt] \<and> pk_SeqNum (decode_packet pkt) = 2 \<and> ip_checksum_ok pkt"
proof -
  obtain b' where b': "badChecksum sample_env (sample_desync DesyncBadChecksum) new_bypass = (None, b')"
    by (simp add: badChecksum_def sample_env_def sample_desync_def CraftPacket_def badcs_packet_def
        To4_def Send_def Let_def)
  from badChecksum_rejected_iff [OF b'] b' show ?thesis
    by (auto simp: sample_desync_def new_bypass_def)
qed

text \<open>What the other desynchronisation methods send. A successful call hands over exactly one
  packet: the TTL-limited one has TTL 1, acknowledges the server's SYN and ends at ISN + 1, so that it
  dies at the first router; the reset carries RST alone at ISN + 1 - 65536, outside the peer's
  window.\<close>

theorem Desync_Inject_success:
  assumes "Desync_Inject env p b = (None, b')" and "dp_Method p \<noteq> DesyncBadChecksum"
  shows "\<exists>pkt. wire b' = wire b @ [pkt] \<and>
    (let q = decode_packet pkt in
       (if dp_Method p = DesyncTTLLimited
        then pk_TTL q = 1 \<and> pk_Payload q = dp_Payload p \<and> pk_Flags q = 0x18 \<and>
             pk_AckNum q = dp_SynAckSeq p + 1 \<and>
             pk_SeqNum q + word_of_nat (length (pk_Payload q)) = dp_SynSeq p + 1
        else pk_Flags q = 0x04 \<and> pk_Payload q = [] \<and> pk_AckNum q = 0 \<and>
             pk_SeqNum q + 65536 = dp_SynSeq p + 1))"
proof (cases rule: Desync_Inject_cases [of env p b])
  case (failed e es)
  with assms(1) show ?thesis by simp
next
  case (injected d pkt)
  have wire: "wire b' = wire b @ [pkt]" using assms(1) injected(2) by auto
  have sent_pkt: "pkt' = pkt" if
    "Send env 0 pkt' (dp_DstIP p) (slept d b) =
       (None, (slept d b)\<lparr>bp_trace := bp_trace (slept d b) @ [Sent pkt]\<rparr>)" for pkt'
    using Send_None [OF that] by simp
  show ?thesis
  proof (cases "dp_Method p")
    case DesyncBadChecksum
    with assms(2) show ?thesis by simp
  next
    case DesyncRST
    then have "CraftPacket (rst_packet env p) (ie_craft env 0) = Inr pkt"
      using injected(1) sent_pkt
      by (auto simp: desync_run_def rst_def split: sum.splits)
    from CraftPacket_decode(1) [OF this] wire DesyncRST show ?thesis
      by (simp add: rst_packet_def)
  next
    case DesyncTTLLimited
    then have craft: "CraftPacket (ttl_packet p) (ie_craft env 0) = Inr pkt"
      using injected(1) sent_pkt
      by (auto simp: desync_run_def ttlLimited_def split: sum.splits)
    have "packet_ttl (ttl_packet p) (ie_craft env 0) = 1"
      by (simp add: packet_ttl_def ttl_packet_def)
    with CraftPacket_decode(1) [OF craft] wire DesyncTTLLimited show ?thesis
      by (simp add: ttl_packet_def fake_seq_ends)
  qed
qed

theorem Desync_Inject_success_witness:
  "\<exists>b' pkt. Desync_Inject sample_env (sample_desync DesyncTTLLimited) new_bypass = (None, b') \<and>
     wire b' = [pkt] \<and> pk_TTL (decode_packet pkt) = 1"
proof -
  obtain b' where b': "Desync_Inject sample_env (sample_desync DesyncTTLLimited) new_bypass = (None, b')"
    by (simp add: Desync_Inject_def desync_run_def ttlLimited_def sample_env_def sample_desync_def
        CraftPacket_def ttl_packet_def To4_def Send_def Let_def)
  from Desync_Inject_success [OF b'] b' show ?thesis
    by (auto simp: sample_desync_def new_bypass_def Let_def)
qed

text \<open>The counters of the strategies are exact over any sequence of attempts on one object,
  whatever the network and the context do: OK counts the calls that returned no error, and for the
  wrong-sequence and desynchronisation strategies OK plus Fail is the number of calls. For the
  fragment strategy Fail counts only failures with a payload: a call with an empty payload fails
  without being counted.\<close>

theorem Inject_accounting:
  "(case attempts (\<lambda>(env, p). WrongSeq_Inject env p) ws b of (rs, b') \<Rightarrow>
      bp_OK b' = bp_OK b + int (length (filter (\<lambda>r. r = None) rs)) \<and>
      bp_OK b' + bp_Fail b' = bp_OK b + bp_Fail b + int (length ws)) \<and>
   (case attempts (\<lambda>(env, p). Desync_Inject env p) ds b of (rs, b') \<Rightarrow>
      bp_OK b' = bp_OK b + int (length (filter (\<lambda>r. r = None) rs)) \<and>
      bp_OK b' + bp_Fail b' = bp_OK b + bp_Fail b + int (length ds)) \<and>
   (case attempts (\<lambda>(env, p). Fragment_Inject env p) fs b of (rs, b') \<Rightarrow>
      bp_OK b' = bp_OK b + int (length (filter (\<lambda>r. r = None) rs)) \<and>
      bp_Fail b' = bp_Fail b +
        int (length (filter (\<lambda>((env, p), r). r \<noteq> None \<and> fp_Payload p \<noteq> []) (zip fs rs))))"
proof -
  obtain rs b' where ws: "attempts (\<lambda>(env, p). WrongSeq_Inject env p) ws b = (rs, b')" by fastforce
  obtain rs' b'' where ds: "attempts (\<lambda>(env, p). Desync_Inject env p) ds b = (rs', b'')" by fastforce
  obtain rsf bf where fs: "attempts (\<lambda>(env, p). Fragment_Inject env p) fs b = (rsf, bf)" by fastforce
  have pred: "(\<lambda>((env :: inject_env, p), r). r \<noteq> None \<and> fp_Payload p \<noteq> []) =
      (\<lambda>(x, r :: go_error option). r \<noteq> None \<and> (\<lambda>(env, p). fp_Payload p \<noteq> []) x)"
    by (rule ext) (simp split: prod.split)
  note counts = wrongseq.history_counters [OF ws] wrongseq.history_balance [OF _ ws]
    desync.history_counters [OF ds] desync.history_balance [OF _ ds]
    fragment.history_counters [OF fs, folded pred]
  show ?thesis
    unfolding ws ds fs prod.case using counts by blast
qed

end
