(* ===== verification/LruCache.thy ===== *)
theory LruCache
  imports Prelude
begin

text \<open>
  The strategy cache of \<^verbatim>\<open>internal/bypass/adaptive.go\<close>: a map from keys to elements of a
  doubly linked list that is kept in order of use. The model keeps the pointers: an element is a
  number, \<open>lru_elems\<close> is the heap of element values, \<open>lru_order\<close> the list from front to
  back. \<open>None\<close> is a nil-pointer panic. The abstract cache is the list of entries alone; the
  refinement theorems say the pointer version implements it.
\<close>

datatype Strategy =
    StrategyWrongSeq | StrategyFragment | StrategyDesyncBadCS | StrategyDesyncTTL | StrategyUnknown

fun Strategy_String :: "Strategy \<Rightarrow> string" where
  "Strategy_String StrategyWrongSeq = ''wrong_seq''"
| "Strategy_String StrategyFragment = ''fragment''"
| "Strategy_String StrategyDesyncBadCS = ''desync_bad_cs''"
| "Strategy_String StrategyDesyncTTL = ''desync_ttl''"
| "Strategy_String StrategyUnknown = ''unknown''"

record cacheEntry =
  ce_key :: string
  ce_strategy :: Strategy
  ce_expiresAt :: int

record lruCache =
  lru_cap :: int
  lru_ttl :: int
  lru_items :: "string \<rightharpoonup> nat"
  lru_order :: "nat list"
  lru_elems :: "nat \<rightharpoonup> cacheEntry"
  lru_next :: nat

definition newLRUCache :: "int \<Rightarrow> int \<Rightarrow> lruCache" where
  "newLRUCache cap ttl =
     \<lparr>lru_cap = cap, lru_ttl = ttl, lru_items = Map.empty, lru_order = [],
      lru_elems = Map.empty, lru_next = 0\<rparr>"

definition list_Remove :: "nat \<Rightarrow> nat list \<Rightarrow> nat list" where
  "list_Remove el l = remove1 el l"

definition list_MoveToFront :: "nat \<Rightarrow> nat list \<Rightarrow> nat list" where
  "list_MoveToFront el l = el # remove1 el l"

definition list_Back :: "nat list \<Rightarrow> nat option" where
  "list_Back l = (if l = [] then None else Some (last l))"

definition lru_get ::
  "lruCache \<Rightarrow> string \<Rightarrow> int \<Rightarrow> ((Strategy \<times> bool) \<times> lruCache) option" where
  "lru_get c key now =
     (case lru_items c key of None \<Rightarrow> Some ((StrategyUnknown, False), c)
      | Some el \<Rightarrow> do {
          entry \<leftarrow> lru_elems c el;
          if now > ce_expiresAt entry
          then Some ((StrategyUnknown, False),
                 c\<lparr>lru_order := list_Remove el (lru_order c),
                   lru_items := (lru_items c)(key := None)\<rparr>)
          else Some ((ce_strategy entry, True),
                 c\<lparr>lru_order := list_MoveToFront el (lru_order c)\<rparr>)
        })"

definition lru_evict :: "lruCache \<Rightarrow> lruCache option" where
  "lru_evict c =
     (if int (length (lru_order c)) \<ge> lru_cap c
      then (case list_Back (lru_order c) of None \<Rightarrow> Some c
        | Some oldest \<Rightarrow> do {
            entry \<leftarrow> lru_elems c oldest;
            Some (c\<lparr>lru_order := list_Remove oldest (lru_order c),
                    lru_items := (lru_items c)(ce_key entry := None)\<rparr>)
          })
      else Some c)"

definition lru_set :: "lruCache \<Rightarrow> string \<Rightarrow> Strategy \<Rightarrow> int \<Rightarrow> lruCache option" where
  "lru_set c key s now =
     (case lru_items c key of
        Some el \<Rightarrow> do {
          entry \<leftarrow> lru_elems c el;
          Some (c\<lparr>lru_order := list_MoveToFront el (lru_order c),
                  lru_elems := (lru_elems c)(el \<mapsto>
                    entry\<lparr>ce_strategy := s, ce_expiresAt := now + lru_ttl c\<rparr>)\<rparr>)
        }
      | None \<Rightarrow> do {
          c \<leftarrow> lru_evict c;
          let el = lru_next c;
          Some (c\<lparr>lru_elems := (lru_elems c)(el \<mapsto>
                    \<lparr>ce_key = key, ce_strategy = s, ce_expiresAt = now + lru_ttl c\<rparr>),
                  lru_order := el # lru_order c,
                  lru_items := (lru_items c)(key \<mapsto> el),
                  lru_next := Suc el\<rparr>)
        })"

section \<open>The abstract cache\<close>

text \<open>Entries in order of use, the most recent first.\<close>

fun spec_lookup :: "cacheEntry list \<Rightarrow> string \<Rightarrow> cacheEntry option" where
  "spec_lookup [] k = None"
| "spec_lookup (e # es) k = (if ce_key e = k then Some e else spec_lookup es k)"

definition spec_drop :: "cacheEntry list \<Rightarrow> string \<Rightarrow> cacheEntry list" where
  "spec_drop es k = filter (\<lambda>e. ce_key e \<noteq> k) es"

definition spec_get ::
  "cacheEntry list \<Rightarrow> string \<Rightarrow> int \<Rightarrow> (Strategy \<times> bool) \<times> cacheEntry list" where
  "spec_get es key now =
     (case spec_lookup es key of None \<Rightarrow> ((StrategyUnknown, False), es)
      | Some e \<Rightarrow>
          (if now > ce_expiresAt e then ((StrategyUnknown, False), spec_drop es key)
           else ((ce_strategy e, True), e # spec_drop es key)))"

definition spec_set ::
  "int \<Rightarrow> int \<Rightarrow> cacheEntry list \<Rightarrow> string \<Rightarrow> Strategy \<Rightarrow> int \<Rightarrow> cacheEntry list" where
  "spec_set cap ttl es key s now =
     \<lparr>ce_key = key, ce_strategy = s, ce_expiresAt = now + ttl\<rparr> #
     (if spec_lookup es key \<noteq> None then spec_drop es key
      else if int (length es) \<ge> cap then butlast es else es)"

section \<open>Invariant and abstraction\<close>

definition lru_inv :: "lruCache \<Rightarrow> bool" where
  "lru_inv c \<longleftrightarrow>
     distinct (lru_order c) \<and>
     (\<forall>el \<in> set (lru_order c). lru_elems c el \<noteq> None \<and> el < lru_next c) \<and>
     (\<forall>k el. lru_items c k = Some el \<longleftrightarrow>
        el \<in> set (lru_order c) \<and> (\<exists>e. lru_elems c el = Some e \<and> ce_key e = k)) \<and>
     int (length (lru_order c)) \<le> max 1 (lru_cap c)"

definition lru_abs :: "lruCache \<Rightarrow> cacheEntry list" where
  "lru_abs c = map (\<lambda>el. the (lru_elems c el)) (lru_order c)"

lemma lru_invD:
  fixes el :: nat and k :: string
  assumes "lru_inv c"
  shows "distinct (lru_order c)"
    and "el \<in> set (lru_order c) \<Longrightarrow> \<exists>e. lru_elems c el = Some e"
    and "el \<in> set (lru_order c) \<Longrightarrow> el < lru_next c"
    and "lru_items c k = Some el \<longleftrightarrow>
        el \<in> set (lru_order c) \<and> (\<exists>e. lru_elems c el = Some e \<and> ce_key e = k)"
    and "int (length (lru_order c)) \<le> max 1 (lru_cap c)"
  using assms unfolding lru_inv_def by auto

lemma lru_inv_new [simp]: "lru_inv (newLRUCache cap ttl)"
  by (simp add: lru_inv_def newLRUCache_def)

lemma lru_abs_new [simp]: "lru_abs (newLRUCache cap ttl) = []"
  by (simp add: lru_abs_def newLRUCache_def)

text \<open>Two elements of the list never share a key.\<close>

lemma lru_keys_inj:
  assumes "lru_inv c" and "el \<in> set (lru_order c)" and "el' \<in> set (lru_order c)"
    and "ce_key (the (lru_elems c el)) = ce_key (the (lru_elems c el'))"
  shows "el = el'"
proof -
  let ?k = "ce_key (the (lru_elems c el))"
  have "lru_items c ?k = Some el" "lru_items c ?k = Some el'"
    using assms by (force simp: lru_invD(4) [OF assms(1)] dest: lru_invD(2) [OF assms(1)])+
  then show ?thesis by simp
qed

lemma spec_lookup_map:
  assumes "lru_inv c"
  shows "spec_lookup (lru_abs c) k = map_option (\<lambda>el. the (lru_elems c el)) (lru_items c k)"
proof -
  have "spec_lookup (map (\<lambda>el. the (lru_elems c el)) els) k =
      (case find (\<lambda>el. ce_key (the (lru_elems c el)) = k) els of None \<Rightarrow> None
       | Some el \<Rightarrow> Some (the (lru_elems c el)))" for els
    by (induction els) simp_all
  moreover have "find (\<lambda>el. ce_key (the (lru_elems c el)) = k) (lru_order c) = lru_items c k"
  proof (cases "lru_items c k")
    case None
    have "ce_key (the (lru_elems c el)) \<noteq> k" if "el \<in> set (lru_order c)" for el
      using that None lru_invD(4) [OF assms, of k el] lru_invD(2) [OF assms that] by force
    with None show ?thesis by (simp add: find_None_iff)
  next
    case (Some el)
    then have el: "el \<in> set (lru_order c)" "ce_key (the (lru_elems c el)) = k"
      using lru_invD(4) [OF assms] by auto
    then obtain el' where el': "find (\<lambda>el. ce_key (the (lru_elems c el)) = k) (lru_order c) = Some el'"
      by (cases "find (\<lambda>el. ce_key (the (lru_elems c el)) = k) (lru_order c)")
        (auto simp: find_None_iff)
    then have "el' \<in> set (lru_order c)" "ce_key (the (lru_elems c el')) = k"
      by (auto simp: find_Some_iff)
    with el have "el' = el" by (intro lru_keys_inj [OF assms]) simp_all
    with el' Some show ?thesis by simp
  qed
  ultimately show ?thesis
    unfolding lru_abs_def by (simp split: option.split)
qed

lemma lru_abs_remove1:
  assumes "lru_inv c" and "lru_items c k = Some el"
  shows "map (\<lambda>el. the (lru_elems c el)) (remove1 el (lru_order c)) = spec_drop (lru_abs c) k"
proof -
  have el: "el \<in> set (lru_order c)" "ce_key (the (lru_elems c el)) = k"
    using assms(2) lru_invD(4) [OF assms(1)] by auto
  have "remove1 el (lru_order c) = filter (\<lambda>x. el \<noteq> x) (lru_order c)"
    using lru_invD(1) [OF assms(1)] by (simp add: distinct_remove1_removeAll removeAll_filter_not_eq)
  also have "\<dots> = filter (\<lambda>x. ce_key (the (lru_elems c x)) \<noteq> k) (lru_order c)"
  proof (rule filter_cong [OF refl])
    fix x
    assume x: "x \<in> set (lru_order c)"
    show "(el \<noteq> x) = (ce_key (the (lru_elems c x)) \<noteq> k)"
      using lru_keys_inj [OF assms(1) x el(1)] el(2) by auto
  qed
  finally show ?thesis
    by (simp add: lru_abs_def spec_drop_def filter_map o_def)
qed

text \<open>Unlinking an element, and moving one to the front, keep the invariant.\<close>

lemma lru_length_remove1:
  assumes "el \<in> set (lru_order c)"
  shows "Suc (length (remove1 el (lru_order c))) = length (lru_order c)"
  using assms length_pos_if_in_set [OF assms] by (simp add: length_remove1)

lemma lru_inv_unlink:
  assumes inv: "lru_inv c" and it: "lru_items c k = Some el"
  shows "lru_inv (c\<lparr>lru_order := remove1 el (lru_order c), lru_items := (lru_items c)(k := None)\<rparr>)"
    (is "lru_inv ?c")
proof -
  obtain e where el: "el \<in> set (lru_order c)" and e: "lru_elems c el = Some e" "ce_key e = k"
    using it unfolding lru_invD(4) [OF inv, of k el] by blast
  have set_rem: "set (remove1 el (lru_order c)) = set (lru_order c) - {el}"
    by (rule set_remove1_eq [OF lru_invD(1) [OF inv]])
  have "lru_items ?c k' = Some el' \<longleftrightarrow>
      el' \<in> set (lru_order ?c) \<and> (\<exists>e. lru_elems ?c el' = Some e \<and> ce_key e = k')" for k' el'
  proof (cases "el' = el")
    case True
    then show ?thesis
      using it e lru_invD(4) [OF inv, of k' el] by (simp add: set_rem)
  next
    case False
    then have ne: "lru_items c k \<noteq> Some el'" using it by simp
    show ?thesis
    proof (cases "k' = k")
      case True
      then show ?thesis
        using False ne unfolding lru_invD(4) [OF inv, of k el'] by (simp add: set_rem)
    next
      case neq: False
      then show ?thesis
        using False lru_invD(4) [OF inv, of k' el'] by (simp add: set_rem)
    qed
  qed
  moreover have "\<forall>el' \<in> set (lru_order ?c). lru_elems ?c el' \<noteq> None \<and> el' < lru_next ?c"
    using inv by (simp add: lru_inv_def set_rem)
  moreover have "int (length (lru_order ?c)) \<le> max 1 (lru_cap ?c)"
    using lru_invD(5) [OF inv] lru_length_remove1 [OF el] by simp
  ultimately show ?thesis
    using lru_invD(1) [OF inv] unfolding lru_inv_def by simp
qed

lemma lru_inv_front:
  assumes inv: "lru_inv c" and el: "el \<in> set (lru_order c)"
  shows "lru_inv (c\<lparr>lru_order := el # remove1 el (lru_order c)\<rparr>)"
proof -
  have "set (el # remove1 el (lru_order c)) = set (lru_order c)"
    using el set_remove1_eq [OF lru_invD(1) [OF inv]] by auto
  moreover have "length (el # remove1 el (lru_order c)) = length (lru_order c)"
    using lru_length_remove1 [OF el] by simp
  moreover have "distinct (el # remove1 el (lru_order c))"
    using lru_invD(1) [OF inv] by (simp add: set_remove1_eq)
  ultimately show ?thesis
    using inv by (simp only: lru_inv_def lruCache.simps) simp
qed

section \<open>Every operation keeps the invariant and implements the specification\<close>

lemma lru_get_refines:
  assumes inv: "lru_inv c"
  shows "\<exists>r c'. lru_get c key now = Some (r, c') \<and> lru_inv c' \<and>
    (r, lru_abs c') = spec_get (lru_abs c) key now \<and> lru_cap c' = lru_cap c \<and> lru_ttl c' = lru_ttl c"
proof (cases "lru_items c key")
  case None
  then show ?thesis
    using inv by (simp add: lru_get_def spec_get_def spec_lookup_map)
next
  case (Some el)
  then have el: "el \<in> set (lru_order c)"
    using lru_invD(4) [OF inv] by blast
  obtain e where e: "lru_elems c el = Some e" "ce_key e = key"
    using Some lru_invD(4) [OF inv] by blast
  have look: "spec_lookup (lru_abs c) key = Some e"
    using Some e inv by (simp add: spec_lookup_map)
  show ?thesis
  proof (cases "now > ce_expiresAt e")
    case True
    then show ?thesis
      using Some e look lru_abs_remove1 [OF inv Some] lru_inv_unlink [OF inv Some]
      by (simp add: lru_get_def spec_get_def list_Remove_def lru_abs_def)
  next
    case False
    then show ?thesis
      using Some e look lru_abs_remove1 [OF inv Some] lru_inv_front [OF inv el]
      by (simp add: lru_get_def spec_get_def list_MoveToFront_def lru_abs_def)
  qed
qed

text \<open>Rewriting the value of an element without touching its key, and pushing a fresh one.\<close>

lemma lru_inv_rewrite:
  assumes inv: "lru_inv c" and e: "lru_elems c el = Some e" and key: "ce_key e' = ce_key e"
  shows "lru_inv (c\<lparr>lru_elems := (lru_elems c)(el \<mapsto> e')\<rparr>)" (is "lru_inv ?c")
proof -
  have "(\<exists>d. lru_elems ?c el' = Some d \<and> ce_key d = k) \<longleftrightarrow>
      (\<exists>d. lru_elems c el' = Some d \<and> ce_key d = k)" for el' k
    using e key by simp
  then show ?thesis
    using inv unfolding lru_inv_def by simp
qed

lemma lru_inv_push:
  assumes inv: "lru_inv c" and fresh: "lru_items c (ce_key e) = None"
    and room: "int (length (lru_order c)) < max 1 (lru_cap c)"
  shows "lru_inv (c\<lparr>lru_elems := (lru_elems c)(lru_next c \<mapsto> e),
      lru_order := lru_next c # lru_order c,
      lru_items := (lru_items c)(ce_key e \<mapsto> lru_next c), lru_next := Suc (lru_next c)\<rparr>)"
    (is "lru_inv ?c")
proof -
  have new: "lru_next c \<notin> set (lru_order c)"
    using lru_invD(3) [OF inv] by blast
  have "lru_items ?c k = Some el \<longleftrightarrow>
      el \<in> set (lru_order ?c) \<and> (\<exists>d. lru_elems ?c el = Some d \<and> ce_key d = k)" for k el
  proof (cases "el = lru_next c")
    case True
    then show ?thesis
      using new lru_invD(4) [OF inv, of k el] by auto
  next
    case el: False
    show ?thesis
    proof (cases "k = ce_key e")
      case True
      then show ?thesis
        using el fresh lru_invD(4) [OF inv, of k el] by simp
    next
      case False
      then show ?thesis
        using el lru_invD(4) [OF inv, of k el] by simp
    qed
  qed
  moreover have "\<forall>el \<in> set (lru_order ?c). lru_elems ?c el \<noteq> None \<and> el < lru_next ?c"
    using inv by (auto simp: lru_inv_def)
  moreover have "distinct (lru_order ?c)"
    using new lru_invD(1) [OF inv] by simp
  ultimately show ?thesis
    using room unfolding lru_inv_def by simp
qed

lemma spec_lookup_None_iff:
  "spec_lookup es k = None \<longleftrightarrow> k \<notin> ce_key ` set es"
  by (induction es) auto

text \<open>Eviction makes room and drops the entry that was used last.\<close>

lemma remove1_last_distinct:
  "distinct xs \<Longrightarrow> xs \<noteq> [] \<Longrightarrow> remove1 (last xs) xs = butlast xs"
  by (induction xs) auto

lemma lru_evict_refines:
  assumes inv: "lru_inv c"
  obtains c' where "lru_evict c = Some c'" and "lru_inv c'"
    and "lru_abs c' =
      (if int (length (lru_abs c)) \<ge> lru_cap c then butlast (lru_abs c) else lru_abs c)"
    and "int (length (lru_order c')) < max 1 (lru_cap c)"
    and "\<And>k. lru_items c k = None \<Longrightarrow> lru_items c' k = None"
    and "lru_cap c' = lru_cap c" and "lru_ttl c' = lru_ttl c"
proof (cases "int (length (lru_order c)) \<ge> lru_cap c")
  case full: True
  show ?thesis
  proof (cases "lru_order c = []")
    case True
    with full inv show ?thesis
      by (intro that [of c]) (simp_all add: lru_evict_def list_Back_def lru_abs_def)
  next
    case False
    define el where "el = last (lru_order c)"
    have el: "el \<in> set (lru_order c)" using False by (simp add: el_def)
    obtain e where e: "lru_elems c el = Some e" using lru_invD(2) [OF inv el] by blast
    have it: "lru_items c (ce_key e) = Some el"
      using lru_invD(4) [OF inv, of "ce_key e" el] el e by simp
    let ?c = "c\<lparr>lru_order := remove1 el (lru_order c), lru_items := (lru_items c)(ce_key e := None)\<rparr>"
    have "lru_evict c = Some ?c"
      using full False e by (simp add: lru_evict_def list_Back_def list_Remove_def el_def)
    moreover have "lru_abs ?c = butlast (lru_abs c)"
      using remove1_last_distinct [OF lru_invD(1) [OF inv] False]
      by (simp add: lru_abs_def el_def map_butlast)
    moreover have "int (length (lru_order ?c)) < max 1 (lru_cap c)"
      using lru_invD(5) [OF inv] lru_length_remove1 [OF el] by simp
    ultimately show ?thesis
      using full lru_inv_unlink [OF inv it]
      by (intro that [of ?c]) (simp_all add: lru_abs_def)
  qed
next
  case False
  with inv show ?thesis
    by (intro that [of c]) (simp_all add: lru_evict_def lru_abs_def)
qed

lemma lru_set_refines:
  assumes inv: "lru_inv c"
  shows "\<exists>c'. lru_set c key s now = Some c' \<and> lru_inv c' \<and>
    lru_abs c' = spec_set (lru_cap c) (lru_ttl c) (lru_abs c) key s now \<and>
    lru_cap c' = lru_cap c \<and> lru_ttl c' = lru_ttl c"
proof (cases "lru_items c key")
  case (Some el)
  obtain e where el: "el \<in> set (lru_order c)" and e: "lru_elems c el = Some e" "ce_key e = key"
    using Some unfolding lru_invD(4) [OF inv, of key el] by blast
  let ?e = "\<lparr>ce_key = key, ce_strategy = s, ce_expiresAt = now + lru_ttl c\<rparr>"
  have upd: "e\<lparr>ce_strategy := s, ce_expiresAt := now + lru_ttl c\<rparr> = ?e"
    using e(2) by simp
  let ?f = "c\<lparr>lru_order := el # remove1 el (lru_order c)\<rparr>"
  let ?c = "?f\<lparr>lru_elems := (lru_elems c)(el \<mapsto> ?e)\<rparr>"
  have "lru_inv ?c"
    using lru_inv_rewrite [OF lru_inv_front [OF inv el], of el e ?e] e by simp
  moreover have "lru_set c key s now = Some ?c"
    using Some e(1) unfolding upd [symmetric] by (simp add: lru_set_def list_MoveToFront_def)
  moreover have "lru_abs ?c = spec_set (lru_cap c) (lru_ttl c) (lru_abs c) key s now"
  proof -
    have "map (\<lambda>x. the (((lru_elems c)(el \<mapsto> ?e)) x)) (remove1 el (lru_order c))
        = spec_drop (lru_abs c) key"
      unfolding lru_abs_remove1 [OF inv Some, symmetric]
      using set_remove1_eq [OF lru_invD(1) [OF inv]] by (intro map_cong) auto
    then show ?thesis
      using Some e spec_lookup_map [OF inv, of key]
      by (simp add: lru_abs_def spec_set_def)
  qed
  ultimately show ?thesis by fastforce
next
  case None
  obtain c' where c': "lru_evict c = Some c'" "lru_inv c'"
      "lru_abs c' = (if int (length (lru_abs c)) \<ge> lru_cap c then butlast (lru_abs c) else lru_abs c)"
      "int (length (lru_order c')) < max 1 (lru_cap c)"
      "lru_items c' key = None" "lru_cap c' = lru_cap c" "lru_ttl c' = lru_ttl c"
    using lru_evict_refines [OF inv] None by metis
  let ?e = "\<lparr>ce_key = key, ce_strategy = s, ce_expiresAt = now + lru_ttl c\<rparr>"
  let ?c = "c'\<lparr>lru_elems := (lru_elems c')(lru_next c' \<mapsto> ?e),
      lru_order := lru_next c' # lru_order c',
      lru_items := (lru_items c')(key \<mapsto> lru_next c'), lru_next := Suc (lru_next c')\<rparr>"
  have "lru_inv ?c"
    using lru_inv_push [OF c'(2), of ?e] c' by simp
  moreover have "lru_set c key s now = Some ?c"
    using None c' by (simp add: lru_set_def Let_def)
  moreover have "lru_abs ?c = ?e # lru_abs c'"
    using lru_invD(3) [OF c'(2)] by (fastforce simp: lru_abs_def)
  moreover have "spec_lookup (lru_abs c) key = None"
    using None by (simp add: spec_lookup_map [OF inv])
  ultimately show ?thesis
    using c' by (simp add: spec_set_def)
qed

section \<open>Histories\<close>

datatype lru_op = LruGet string int | LruSet string Strategy int

fun lru_exec :: "lruCache \<Rightarrow> lru_op list \<Rightarrow> ((Strategy \<times> bool) list \<times> lruCache) option" where
  "lru_exec c [] = Some ([], c)"
| "lru_exec c (LruGet k now # ops) = do {
     (r, c) \<leftarrow> lru_get c k now;
     (rs, c) \<leftarrow> lru_exec c ops;
     Some (r # rs, c)
   }"
| "lru_exec c (LruSet k s now # ops) = do {
     c \<leftarrow> lru_set c k s now;
     lru_exec c ops
   }"

fun spec_exec ::
  "int \<Rightarrow> int \<Rightarrow> cacheEntry list \<Rightarrow> lru_op list \<Rightarrow> (Strategy \<times> bool) list \<times> cacheEntry list" where
  "spec_exec cap ttl es [] = ([], es)"
| "spec_exec cap ttl es (LruGet k now # ops) =
     (case spec_get es k now of (r, es) \<Rightarrow>
        (case spec_exec cap ttl es ops of (rs, es) \<Rightarrow> (r # rs, es)))"
| "spec_exec cap ttl es (LruSet k s now # ops) = spec_exec cap ttl (spec_set cap ttl es k s now) ops"

lemma lru_exec_refines:
  "lru_inv c \<Longrightarrow> \<exists>rs c'. lru_exec c ops = Some (rs, c') \<and> lru_inv c' \<and> lru_cap c' = lru_cap c \<and>
     (rs, lru_abs c') = spec_exec (lru_cap c) (lru_ttl c) (lru_abs c) ops"
proof (induction c ops rule: lru_exec.induct)
  case (1 c)
  then show ?case by simp
next
  case (2 c k now ops)
  obtain r c1 where g: "lru_get c k now = Some (r, c1)" "lru_inv c1" "lru_cap c1 = lru_cap c"
      "lru_ttl c1 = lru_ttl c" "spec_get (lru_abs c) k now = (r, lru_abs c1)"
    using lru_get_refines [OF 2(2), of k now] by metis
  obtain rs c2 where "lru_exec c1 ops = Some (rs, c2)" "lru_inv c2" "lru_cap c2 = lru_cap c"
      "spec_exec (lru_cap c) (lru_ttl c) (lru_abs c1) ops = (rs, lru_abs c2)"
    using 2(1) [OF g(1) refl g(2)] g(3,4) by metis
  with g show ?case by simp
next
  case (3 c k s now ops)
  obtain c1 where g: "lru_set c k s now = Some c1" "lru_inv c1" "lru_cap c1 = lru_cap c"
      "lru_ttl c1 = lru_ttl c" "lru_abs c1 = spec_set (lru_cap c) (lru_ttl c) (lru_abs c) k s now"
    using lru_set_refines [OF 3(2), of k s now] by metis
  obtain rs c2 where "lru_exec c1 ops = Some (rs, c2)" "lru_inv c2" "lru_cap c2 = lru_cap c"
      "spec_exec (lru_cap c) (lru_ttl c) (lru_abs c1) ops = (rs, lru_abs c2)"
    using 3(1) [OF g(1,2)] g(3,4) by metis
  with g show ?case by simp
qed

text \<open>C3. The strategy cache implements the abstract least-recently-used cache: for every
  capacity, time to live and history of \<^verbatim>\<open>get\<close> and \<^verbatim>\<open>set\<close> calls at any times, the linked-list
  and map version never dereferences a dangling element, answers every \<^verbatim>\<open>get\<close> as the list of
  entries in order of use does, and ends holding exactly those entries in that order.\<close>

theorem lruCache_refines_spec:
  "map_option (\<lambda>(answers, c). (answers, lru_abs c)) (lru_exec (newLRUCache cap ttl) ops) =
     Some (spec_exec cap ttl [] ops)"
  using lru_exec_refines [OF lru_inv_new, of cap ttl ops]
  by (auto simp: newLRUCache_def lru_abs_def)

lemma lru_items_dom:
  assumes "lru_inv c"
  shows "dom (lru_items c) = (\<lambda>el. ce_key (the (lru_elems c el))) ` set (lru_order c)"
proof (intro equalityI subsetI)
  fix k assume "k \<in> dom (lru_items c)"
  then obtain el where "lru_items c k = Some el" by blast
  then show "k \<in> (\<lambda>el. ce_key (the (lru_elems c el))) ` set (lru_order c)"
    unfolding lru_invD(4) [OF assms, of k el] by force
next
  fix k assume "k \<in> (\<lambda>el. ce_key (the (lru_elems c el))) ` set (lru_order c)"
  then obtain el where el: "el \<in> set (lru_order c)" "k = ce_key (the (lru_elems c el))" by blast
  then have "lru_items c k = Some el"
    unfolding lru_invD(4) [OF assms, of k el] using lru_invD(2) [OF assms el(1)] by force
  then show "k \<in> dom (lru_items c)" by blast
qed

lemma lru_keys_distinct:
  assumes "lru_inv c"
  shows "distinct (map ce_key (lru_abs c))"
  using lru_invD(1) [OF assms] lru_keys_inj [OF assms]
  by (auto simp: lru_abs_def distinct_map o_def inj_on_def)

text \<open>The cache is bounded and its two indexes stay in step: after any history on a cache of
  capacity \<open>cap\<close>, the list holds at most \<open>max 1 cap\<close> elements, no key twice, and the map has
  exactly one entry per element of the list (no leaked map entries after an expiry or an
  eviction).\<close>

theorem lruCache_bounded:
  assumes "lru_exec (newLRUCache cap ttl) ops = Some (answers, c)"
  shows "int (length (lru_order c)) \<le> max 1 cap \<and> distinct (map ce_key (lru_abs c)) \<and>
    dom (lru_items c) = set (map ce_key (lru_abs c)) \<and>
    card (dom (lru_items c)) = length (lru_order c)"
proof -
  have inv: "lru_inv c" and cap: "lru_cap c = cap"
    using lru_exec_refines [OF lru_inv_new, of cap ttl ops] assms by (auto simp: newLRUCache_def)
  have dom: "dom (lru_items c) = set (map ce_key (lru_abs c))"
    using lru_items_dom [OF inv] by (simp add: lru_abs_def image_image)
  have "card (set (map ce_key (lru_abs c))) = length (map ce_key (lru_abs c))"
    by (rule distinct_card [OF lru_keys_distinct [OF inv]])
  with dom show ?thesis
    using lru_invD(5) [OF inv] lru_keys_distinct [OF inv] cap by (simp add: lru_abs_def)
qed

theorem lruCache_bounded_witness:
  "\<exists>answers c.
     lru_exec (newLRUCache 2 10)
       [LruSet ''a'' StrategyFragment 0, LruSet ''b'' StrategyWrongSeq 1, LruGet ''a'' 2,
        LruSet ''c'' StrategyDesyncTTL 3, LruGet ''b'' 4, LruGet ''a'' 11] = Some (answers, c) \<and>
     answers = [(StrategyFragment, True), (StrategyUnknown, False), (StrategyUnknown, False)] \<and>
     int (length (lru_order c)) \<le> max 1 2"
proof -
  have ex: "\<exists>c. lru_exec (newLRUCache 2 10)
       [LruSet ''a'' StrategyFragment 0, LruSet ''b'' StrategyWrongSeq 1, LruGet ''a'' 2,
        LruSet ''c'' StrategyDesyncTTL 3, LruGet ''b'' 4, LruGet ''a'' 11] =
     Some ([(StrategyFragment, True), (StrategyUnknown, False), (StrategyUnknown, False)], c)"
    by (simp add: newLRUCache_def lru_set_def lru_get_def lru_evict_def list_Back_def
        list_Remove_def list_MoveToFront_def Let_def)
  then show ?thesis using lruCache_bounded by blast
qed

section \<open>The contract the adaptive strategy relies on\<close>

text \<open>What a client of the cache may assume, whatever the cache is: calls return, a \<open>set\<close> is
  seen by a \<open>get\<close> of the same key until the entry expires, and not after.\<close>

locale strategy_cache =
  fixes cget :: "'c \<Rightarrow> string \<Rightarrow> int \<Rightarrow> ((Strategy \<times> bool) \<times> 'c) option"
    and cset :: "'c \<Rightarrow> string \<Rightarrow> Strategy \<Rightarrow> int \<Rightarrow> 'c option"
    and cok :: "'c \<Rightarrow> bool"
    and cttl :: "'c \<Rightarrow> int"
  assumes get_total: "cok c \<Longrightarrow> \<exists>r c'. cget c k now = Some (r, c') \<and> cok c' \<and> cttl c' = cttl c"
    and set_total: "cok c \<Longrightarrow> \<exists>c'. cset c k s now = Some c' \<and> cok c' \<and> cttl c' = cttl c"
    and get_after_set: "cok c \<Longrightarrow> cset c k s now = Some c' \<Longrightarrow>
      \<exists>c''. cget c' k now' =
        Some (if now' > now + cttl c then (StrategyUnknown, False) else (s, True), c'')"
begin

lemma hit_after_set:
  assumes "cok c" and "now' \<le> now + cttl c"
  obtains c' c'' where "cset c k s now = Some c'" and "cget c' k now' = Some ((s, True), c'')"
proof -
  obtain c' where c': "cset c k s now = Some c'" using set_total [OF assms(1)] by metis
  obtain c'' where "cget c' k now' = Some ((s, True), c'')"
    using get_after_set [OF assms(1) c', of now'] assms(2) by auto
  with c' show ?thesis by (rule that)
qed

end

interpretation lru: strategy_cache lru_get lru_set lru_inv lru_ttl
proof unfold_locales
  fix c k now
  assume "lru_inv c"
  from lru_get_refines [OF this]
  show "\<exists>r c'. lru_get c k now = Some (r, c') \<and> lru_inv c' \<and> lru_ttl c' = lru_ttl c" by blast
next
  fix c k s now
  assume "lru_inv c"
  from lru_set_refines [OF this]
  show "\<exists>c'. lru_set c k s now = Some c' \<and> lru_inv c' \<and> lru_ttl c' = lru_ttl c" by blast
next
  fix c k s now c' now'
  assume inv: "lru_inv c" and set': "lru_set c k s now = Some c'"
  have c': "lru_inv c'" "lru_abs c' = spec_set (lru_cap c) (lru_ttl c) (lru_abs c) k s now"
    using lru_set_refines [OF inv, of k s now] set' by auto
  obtain r c'' where g: "lru_get c' k now' = Some (r, c'')"
      "(r, lru_abs c'') = spec_get (lru_abs c') k now'"
    using lru_get_refines [OF c'(1)] by blast
  have "r = (if now' > now + lru_ttl c then (StrategyUnknown, False) else (s, True))"
    using g(2) unfolding c'(2) by (simp add: spec_get_def spec_set_def split: if_splits)
  with g(1) show "\<exists>c''. lru_get c' k now' =
      Some (if now' > now + lru_ttl c then (StrategyUnknown, False) else (s, True), c'')"
    by blast
qed

end
