(* ===== verification/NetAddr.thy ===== *)
theory NetAddr
  imports Packet
begin

text \<open>
  The texts of addresses: Go's \<^verbatim>\<open>net.IP.String\<close> (dotted decimal for IPv4, RFC 5952 for IPv6)
  and the \<^verbatim>\<open>fmt.Sprintf("%s:%d")\<close> the code builds its addresses and cache keys with.
\<close>

definition hex_digit :: "nat \<Rightarrow> char" where
  "hex_digit n = (if n < 10 then char_of (48 + n) else char_of (87 + n))"

fun hex_nat :: "nat \<Rightarrow> string" where
  "hex_nat n = (if n < 16 then [hex_digit n] else hex_nat (n div 16) @ [hex_digit (n mod 16)])"

declare hex_nat.simps [simp del]

definition ipv4_text :: "bytes \<Rightarrow> string" where
  "ipv4_text ip4 =
     dec (unat (ip4 ! 0)) @ ''.'' @ dec (unat (ip4 ! 1)) @ ''.'' @
     dec (unat (ip4 ! 2)) @ ''.'' @ dec (unat (ip4 ! 3))"

text \<open>The eight groups, the first longest run of at least two zero groups, and the text.\<close>

definition v6_group :: "bytes \<Rightarrow> nat \<Rightarrow> nat" where
  "v6_group ip i = unat (be_uint16 (ip ! (2 * i)) (ip ! (2 * i + 1)))"

definition v6_zeros :: "bytes \<Rightarrow> nat \<times> nat" where
  "v6_zeros ip =
     foldl (\<lambda>(s, e) i.
         let j = i + length (takeWhile (\<lambda>k. v6_group ip k = 0) [i..<8])
         in if j - i \<ge> 2 \<and> j - i > e - s then (i, j) else (s, e))
       (255, 255) [0..<8]"

definition ipv6_text :: "bytes \<Rightarrow> string" where
  "ipv6_text ip =
     (case v6_zeros ip of (zs, ze) \<Rightarrow>
        concat (map (\<lambda>i.
          if i = zs then ''::''
          else if zs < i \<and> i < ze then []
          else if i = 0 \<or> i = ze then hex_nat (v6_group ip i)
          else CHR '':'' # hex_nat (v6_group ip i)) [0..<8]))"

definition hex_bytes :: "bytes \<Rightarrow> string" where
  "hex_bytes bs = concat (map (\<lambda>b. [hex_digit (unat b div 16), hex_digit (unat b mod 16)]) bs)"

definition IP_String :: "bytes \<Rightarrow> string" where
  "IP_String ip =
     (if ip = [] then ''<nil>''
      else if length ip \<noteq> 4 \<and> length ip \<noteq> 16 then CHR ''?'' # hex_bytes ip
      else case To4 ip of Some ip4 \<Rightarrow> ipv4_text ip4 | None \<Rightarrow> ipv6_text ip)"

definition host_port :: "string \<Rightarrow> nat \<Rightarrow> string" where
  "host_port host port = host @ CHR '':'' # dec port"

lemma IP_String_v4: "To4 ip = Some ip4 \<Longrightarrow> IP_String ip = ipv4_text ip4"
  by (auto simp: IP_String_def To4_def split: if_splits)

section \<open>Two destinations never share a text\<close>

lemma of_char_digit: "n < 10 \<Longrightarrow> of_char (char_of (48 + n) :: char) = (48 + n :: nat)"
  by simp

lemma dec_digits: "c \<in> set (dec n) \<Longrightarrow> 48 \<le> (of_char c :: nat) \<and> of_char c < (58 :: nat)"
proof (induction n rule: dec.induct)
  case (1 n)
  show ?case
  proof (cases "n < 10")
    case True
    with 1(2) show ?thesis by (simp add: dec.simps [of n] of_char_digit)
  next
    case False
    with 1(2) consider "c \<in> set (dec (n div 10))" | "c = char_of (48 + n mod 10)"
      by (auto simp: dec.simps [of n])
    then show ?thesis
    proof cases
      case 1
      then show ?thesis using 1(1) "1.IH" [OF False] by blast
    next
      case 2
      then show ?thesis using of_char_digit [of "n mod 10"] by simp
    qed
  qed
qed

text \<open>Reading the digits back.\<close>

definition undec :: "string \<Rightarrow> nat" where
  "undec s = foldl (\<lambda>a c. 10 * a + (of_char c - 48)) 0 s"

lemma undec_dec [simp]: "undec (dec n) = n"
proof (induction n rule: dec.induct)
  case (1 n)
  show ?case
  proof (cases "n < 10")
    case True
    then show ?thesis by (simp add: dec.simps [of n] undec_def of_char_digit)
  next
    case False
    with 1 show ?thesis
      by (simp add: dec.simps [of n] undec_def of_char_digit)
  qed
qed

lemma dec_inj: "dec m = dec n \<longleftrightarrow> m = n"
  by (metis undec_dec)

text \<open>A text split at its first separator.\<close>

lemma sep_split:
  assumes "xs @ sep # ys = xs' @ sep # ys'" and "sep \<notin> set xs" and "sep \<notin> set xs'"
  shows "xs = xs' \<and> ys = ys'"
  using assms
proof (induction xs arbitrary: xs')
  case Nil
  then show ?case by (cases xs') auto
next
  case (Cons x xs)
  then show ?case by (cases xs') auto
qed

lemma dec_no_dot: "CHR ''.'' \<notin> set (dec n)" and dec_no_colon: "CHR '':'' \<notin> set (dec n)"
  using dec_digits [of "CHR ''.''" n] dec_digits [of "CHR '':''" n] by auto

lemma ipv4_text_inj:
  assumes "length a = 4" and "length b = 4" and "ipv4_text a = ipv4_text b"
  shows "a = b"
proof -
  obtain a0 a1 a2 a3 where a: "a = [a0, a1, a2, a3]" by (rule list4_cases [OF assms(1)])
  obtain b0 b1 b2 b3 where b: "b = [b0, b1, b2, b3]" by (rule list4_cases [OF assms(2)])
  have eq: "dec (unat a0) @ CHR ''.'' # dec (unat a1) @ CHR ''.'' # dec (unat a2) @ CHR ''.'' # dec (unat a3) =
      dec (unat b0) @ CHR ''.'' # dec (unat b1) @ CHR ''.'' # dec (unat b2) @ CHR ''.'' # dec (unat b3)"
    using assms(3) by (simp add: a b ipv4_text_def)
  note s0 = sep_split [OF eq dec_no_dot dec_no_dot]
  note s1 = sep_split [OF conjunct2 [OF s0] dec_no_dot dec_no_dot]
  note s2 = sep_split [OF conjunct2 [OF s1] dec_no_dot dec_no_dot]
  from s0 s1 s2 show ?thesis by (simp add: a b dec_inj word_unat_eq_iff)
qed

lemma ipv4_text_no_colon: "length a = 4 \<Longrightarrow> CHR '':'' \<notin> set (ipv4_text a)"
  using dec_no_colon by (simp add: ipv4_text_def)

lemma host_port_inj:
  assumes "host_port h p = host_port h' p'" and "CHR '':'' \<notin> set h" and "CHR '':'' \<notin> set h'"
  shows "h = h' \<and> p = p'"
  using sep_split [OF assms(1) [unfolded host_port_def] assms(2,3)] by (simp add: dec_inj)

end
