(* ===== verification/Adaptive.thy ===== *)
theory Adaptive
  imports Strategies LruCache NetAddr
begin

text \<open>
  The adaptive bypass of \<^verbatim>\<open>internal/bypass/adaptive.go\<close>: it tries the strategy cached for a
  destination, falls back once to the next one, and remembers what worked. The cache's operations
  are arguments, so that the client's lemmas are proved once from the contract
  \<open>strategy_cache\<close> and then hold for the pointer-based cache of the theory \<open>LruCache\<close>. The
  recorder is the list of calls made on it, or \<open>None\<close> for a nil recorder.
\<close>

record 'c adaptive =
  ad_wrongSeq :: bypass
  ad_fragment :: bypass
  ad_desync :: bypass
  ad_cache :: 'c
  ad_recorder :: "(string \<times> bool) list option"

record AdaptiveParams =
  ap_SrcIP :: bytes
  ap_DstIP :: bytes
  ap_SrcPort :: uint16
  ap_DstPort :: uint16
  ap_SynSeq :: uint32
  ap_SynAckSeq :: uint32
  ap_SynTime :: int
  ap_FakeSNI :: string
  ap_Profile :: string
  ap_TTLSpoof :: bool
  ap_DelayMs :: real
  ap_MinDelayMs :: real
  ap_MaxDelayMs :: real
  ap_JitterMs :: real
  ap_FragSize :: int

text \<open>What the world decides in one \<open>run\<close> (the run builds a hello of its own first) and in one
  \<open>Inject\<close> (the clock at the cache look-up and at the store, and the two runs).\<close>

record run_env =
  re_profile_draw :: nat
  re_entropy :: entropy
  re_inject :: inject_env

record adaptive_env =
  ae_now_get :: int
  ae_run1 :: run_env
  ae_run2 :: run_env
  ae_now_set :: int

definition newAdaptiveBypass :: "(string \<times> bool) list option \<Rightarrow> lruCache adaptive" where
  "newAdaptiveBypass r =
     \<lparr>ad_wrongSeq = new_bypass, ad_fragment = new_bypass, ad_desync = new_bypass,
      ad_cache = newLRUCache 4096 (10 * 60 * Second), ad_recorder = r\<rparr>"

definition adaptive_key :: "bytes \<Rightarrow> uint16 \<Rightarrow> string" where
  "adaptive_key dstIP dstPort = host_port (IP_String dstIP) (unat dstPort)"

definition record_strategy :: "string \<Rightarrow> bool \<Rightarrow> 'c adaptive \<Rightarrow> 'c adaptive" where
  "record_strategy s ok a = a\<lparr>ad_recorder := map_option (\<lambda>calls. calls @ [(s, ok)]) (ad_recorder a)\<rparr>"

definition wrongseq_params :: "AdaptiveParams \<Rightarrow> InjectParams" where
  "wrongseq_params p =
     \<lparr>wp_SrcIP = ap_SrcIP p, wp_DstIP = ap_DstIP p, wp_SrcPort = ap_SrcPort p,
      wp_DstPort = ap_DstPort p, wp_SynSeq = ap_SynSeq p, wp_SynTime = ap_SynTime p,
      wp_FakeSNI = ap_FakeSNI p, wp_Profile = ap_Profile p, wp_TTLSpoof = ap_TTLSpoof p,
      wp_DelayMs = ap_DelayMs p, wp_MinDelayMs = ap_MinDelayMs p, wp_MaxDelayMs = ap_MaxDelayMs p,
      wp_JitterMs = ap_JitterMs p\<rparr>"

definition fragment_params :: "AdaptiveParams \<Rightarrow> bytes \<Rightarrow> FragmentParams" where
  "fragment_params p fakeHello =
     \<lparr>fp_SrcIP = ap_SrcIP p, fp_DstIP = ap_DstIP p, fp_SrcPort = ap_SrcPort p,
      fp_DstPort = ap_DstPort p, fp_SynSeq = ap_SynSeq p, fp_SynAckSeq = ap_SynAckSeq p,
      fp_SynTime = ap_SynTime p, fp_Payload = fakeHello, fp_FragSize = ap_FragSize p,
      fp_DelayMs = ap_DelayMs p, fp_MinDelayMs = ap_MinDelayMs p, fp_MaxDelayMs = ap_MaxDelayMs p,
      fp_JitterMs = ap_JitterMs p, fp_TTLSpoof = ap_TTLSpoof p, fp_InterFragMs = 1 / 2\<rparr>"

definition desync_params :: "AdaptiveParams \<Rightarrow> DesyncMethod \<Rightarrow> bytes \<Rightarrow> DesyncParams" where
  "desync_params p m fakeHello =
     \<lparr>dp_SrcIP = ap_SrcIP p, dp_DstIP = ap_DstIP p, dp_SrcPort = ap_SrcPort p,
      dp_DstPort = ap_DstPort p, dp_SynSeq = ap_SynSeq p, dp_SynAckSeq = ap_SynAckSeq p,
      dp_SynTime = ap_SynTime p, dp_Method = m, dp_Payload = fakeHello, dp_DelayMs = ap_DelayMs p,
      dp_MinDelayMs = ap_MinDelayMs p, dp_MaxDelayMs = ap_MaxDelayMs p, dp_JitterMs = ap_JitterMs p\<rparr>"

definition adaptive_run ::
  "run_env \<Rightarrow> Strategy \<Rightarrow> AdaptiveParams \<Rightarrow> 'c adaptive \<Rightarrow> go_error option \<times> 'c adaptive" where
  "adaptive_run env s p a =
     (case Build (NewBuilder (ap_Profile p) (re_profile_draw env)) (ap_FakeSNI p) (re_entropy env) of
        Inl e \<Rightarrow> (Some (wrap_error ''adaptive: build'' e), a)
      | Inr fakeHello \<Rightarrow>
          (case s of
             StrategyWrongSeq \<Rightarrow>
               (case WrongSeq_Inject (re_inject env) (wrongseq_params p) (ad_wrongSeq a) of
                  (r, b) \<Rightarrow> (r, a\<lparr>ad_wrongSeq := b\<rparr>))
           | StrategyFragment \<Rightarrow>
               (case Fragment_Inject (re_inject env) (fragment_params p fakeHello) (ad_fragment a) of
                  (r, b) \<Rightarrow> (r, a\<lparr>ad_fragment := b\<rparr>))
           | StrategyDesyncBadCS \<Rightarrow>
               (case Desync_Inject (re_inject env) (desync_params p DesyncBadChecksum fakeHello)
                       (ad_desync a) of
                  (r, b) \<Rightarrow> (r, a\<lparr>ad_desync := b\<rparr>))
           | StrategyDesyncTTL \<Rightarrow>
               (case Desync_Inject (re_inject env) (desync_params p DesyncTTLLimited fakeHello)
                       (ad_desync a) of
                  (r, b) \<Rightarrow> (r, a\<lparr>ad_desync := b\<rparr>))
           | StrategyUnknown \<Rightarrow> (Some [''adaptive: unknown strategy 4''], a)))"

fun adaptive_next :: "Strategy \<Rightarrow> Strategy" where
  "adaptive_next StrategyWrongSeq = StrategyFragment"
| "adaptive_next StrategyFragment = StrategyDesyncBadCS"
| "adaptive_next StrategyDesyncBadCS = StrategyDesyncTTL"
| "adaptive_next _ = StrategyWrongSeq"

text \<open>\<^verbatim>\<open>Inject\<close>, over the cache's two operations. \<open>None\<close> is a panic inside the cache.\<close>

definition Inject_with ::
  "('c \<Rightarrow> string \<Rightarrow> int \<Rightarrow> ((Strategy \<times> bool) \<times> 'c) option) \<Rightarrow>
   ('c \<Rightarrow> string \<Rightarrow> Strategy \<Rightarrow> int \<Rightarrow> 'c option) \<Rightarrow>
   adaptive_env \<Rightarrow> AdaptiveParams \<Rightarrow> 'c adaptive \<Rightarrow>
   ((Strategy \<times> go_error option) \<times> 'c adaptive) option" where
  "Inject_with cget cset env p a =
     (let key = adaptive_key (ap_DstIP p) (ap_DstPort p) in do {
        ((cached, ok), c) \<leftarrow> cget (ad_cache a) key (ae_now_get env);
        let a = a\<lparr>ad_cache := c\<rparr>;
        let strategy = (if ok then cached else StrategyWrongSeq);
        case adaptive_run (ae_run1 env) strategy p a of
          (Some err, a) \<Rightarrow>
            (let a = record_strategy (Strategy_String strategy) False a;
                 nxt = adaptive_next strategy
             in if nxt \<noteq> strategy
                then (case adaptive_run (ae_run2 env) nxt p a of
                    (None, a) \<Rightarrow> do {
                      c \<leftarrow> cset (ad_cache a) key nxt (ae_now_set env);
                      Some ((nxt, None),
                        record_strategy (Strategy_String nxt) True (a\<lparr>ad_cache := c\<rparr>))
                    }
                  | (Some err2, a) \<Rightarrow> Some ((strategy, Some err), a))
                else Some ((strategy, Some err), a))
        | (None, a) \<Rightarrow> do {
            c \<leftarrow> cset (ad_cache a) key strategy (ae_now_set env);
            Some ((strategy, None),
              record_strategy (Strategy_String strategy) True (a\<lparr>ad_cache := c\<rparr>))
          }
      })"

definition GetCached_with ::
  "('c \<Rightarrow> string \<Rightarrow> int \<Rightarrow> ((Strategy \<times> bool) \<times> 'c) option) \<Rightarrow>
   int \<Rightarrow> bytes \<Rightarrow> uint16 \<Rightarrow> 'c adaptive \<Rightarrow> (Strategy \<times> 'c adaptive) option" where
  "GetCached_with cget now dstIP dstPort a = do {
     ((s, ok), c) \<leftarrow> cget (ad_cache a) (adaptive_key dstIP dstPort) now;
     Some (if ok then s else StrategyUnknown, a\<lparr>ad_cache := c\<rparr>)
   }"

definition Adaptive_Inject ::
  "adaptive_env \<Rightarrow> AdaptiveParams \<Rightarrow> lruCache adaptive \<Rightarrow>
   ((Strategy \<times> go_error option) \<times> lruCache adaptive) option" where
  "Adaptive_Inject = Inject_with lru_get lru_set"

definition GetCached ::
  "int \<Rightarrow> bytes \<Rightarrow> uint16 \<Rightarrow> lruCache adaptive \<Rightarrow> (Strategy \<times> lruCache adaptive) option" where
  "GetCached = GetCached_with lru_get"

section \<open>Lemmas of the client, from the cache's contract\<close>

lemma adaptive_next_differs [simp]: "adaptive_next s \<noteq> s"
  by (cases s) simp_all

lemma adaptive_run_frame:
  assumes "adaptive_run env s p a = (r, a')"
  shows "ad_cache a' = ad_cache a \<and> ad_recorder a' = ad_recorder a"
  using assms by (auto simp: adaptive_run_def split: sum.splits Strategy.splits prod.splits)

lemma record_strategy_simps [simp]:
  "ad_cache (record_strategy s ok a) = ad_cache a"
  "ad_recorder (record_strategy s ok a) = map_option (\<lambda>calls. calls @ [(s, ok)]) (ad_recorder a)"
  by (simp_all add: record_strategy_def)

text \<open>The strategy \<open>Inject\<close> starts with.\<close>

definition first_strategy :: "Strategy \<times> bool \<Rightarrow> Strategy" where
  "first_strategy r = (if snd r then fst r else StrategyWrongSeq)"

text \<open>One call, as one of three outcomes.\<close>

lemma Inject_with_cases:
  assumes "Inject_with cget cset env p a = Some ((s, e), a')"
  obtains (first) r c where
      "cget (ad_cache a) (adaptive_key (ap_DstIP p) (ap_DstPort p)) (ae_now_get env) = Some (r, c)"
      "s = first_strategy r" "e = None"
      "cset c (adaptive_key (ap_DstIP p) (ap_DstPort p)) s (ae_now_set env) = Some (ad_cache a')"
      "ad_recorder a' = map_option (\<lambda>calls. calls @ [(Strategy_String s, True)]) (ad_recorder a)"
  | (fallback) r c where
      "cget (ad_cache a) (adaptive_key (ap_DstIP p) (ap_DstPort p)) (ae_now_get env) = Some (r, c)"
      "s = adaptive_next (first_strategy r)" "e = None"
      "cset c (adaptive_key (ap_DstIP p) (ap_DstPort p)) s (ae_now_set env) = Some (ad_cache a')"
      "ad_recorder a' = map_option (\<lambda>calls. calls @
         [(Strategy_String (first_strategy r), False), (Strategy_String s, True)]) (ad_recorder a)"
  | (both_failed) r c err where
      "cget (ad_cache a) (adaptive_key (ap_DstIP p) (ap_DstPort p)) (ae_now_get env) = Some (r, c)"
      "s = first_strategy r" "e = Some err" "ad_cache a' = c"
      "ad_recorder a' = map_option (\<lambda>calls. calls @ [(Strategy_String s, False)]) (ad_recorder a)"
proof -
  let ?key = "adaptive_key (ap_DstIP p) (ap_DstPort p)"
  obtain cached ok c where g: "cget (ad_cache a) ?key (ae_now_get env) = Some ((cached, ok), c)"
    using assms by (auto simp: Inject_with_def Let_def split: bind_splits)
  define s0 where "s0 = (if ok then cached else StrategyWrongSeq)"
  have s0: "first_strategy (cached, ok) = s0" by (simp add: s0_def first_strategy_def)
  let ?a = "a\<lparr>ad_cache := c\<rparr>"
  obtain r1 a1 where run1: "adaptive_run (ae_run1 env) s0 p ?a = (r1, a1)" by fastforce
  note frame1 = adaptive_run_frame [OF run1]
  let ?a1 = "record_strategy (Strategy_String s0) False a1"
  obtain r2 a2 where run2: "adaptive_run (ae_run2 env) (adaptive_next s0) p ?a1 = (r2, a2)"
    by fastforce
  note frame2 = adaptive_run_frame [OF run2]
  note eval = assms [unfolded Inject_with_def Let_def, simplified g Option.bind.bind_lunit prod.case,
      folded s0_def, simplified run1 run2]
  show ?thesis
  proof (cases r1)
    case None
    with eval obtain c1 where "cset (ad_cache a1) ?key s0 (ae_now_set env) = Some c1"
        "s = s0" "e = None" "a' = record_strategy (Strategy_String s0) True (a1\<lparr>ad_cache := c1\<rparr>)"
      by (auto split: bind_splits)
    with frame1 g s0 show ?thesis by (intro first [of "(cached, ok)" c]) simp_all
  next
    case (Some err)
    show ?thesis
    proof (cases r2)
      case None
      with eval Some obtain c1 where "cset (ad_cache a2) ?key (adaptive_next s0) (ae_now_set env) = Some c1"
        "s = adaptive_next s0" "e = None"
        "a' = record_strategy (Strategy_String (adaptive_next s0)) True (a2\<lparr>ad_cache := c1\<rparr>)"
        using run2 by (auto split: bind_splits)
      with frame1 frame2 g s0 show ?thesis
        by (intro fallback [of "(cached, ok)" c]) (simp_all add: option.map_comp o_def)
    next
      case (Some err2)
      with eval run2 \<open>r1 = Some err\<close> have "s = s0" "e = Some err" "a' = a2" by simp_all
      with frame1 frame2 g s0 show ?thesis
        by (intro both_failed [of "(cached, ok)" c err]) simp_all
    qed
  qed
qed

context strategy_cache
begin

lemma Inject_total:
  assumes "cok (ad_cache a)"
  obtains s e a' where "Inject_with cget cset env p a = Some ((s, e), a')"
proof -
  let ?key = "adaptive_key (ap_DstIP p) (ap_DstPort p)"
  obtain cached ok c where g: "cget (ad_cache a) ?key (ae_now_get env) = Some ((cached, ok), c)" "cok c"
    using get_total [OF assms] by (metis surj_pair)
  define s0 where "s0 = (if ok then cached else StrategyWrongSeq)"
  let ?a = "a\<lparr>ad_cache := c\<rparr>"
  obtain r1 a1 where run1: "adaptive_run (ae_run1 env) s0 p ?a = (r1, a1)" by fastforce
  let ?a1 = "record_strategy (Strategy_String s0) False a1"
  obtain r2 a2 where run2: "adaptive_run (ae_run2 env) (adaptive_next s0) p ?a1 = (r2, a2)"
    by fastforce
  have ok1: "ad_cache a1 = c" "ad_cache a2 = c"
    using adaptive_run_frame [OF run1] adaptive_run_frame [OF run2] by simp_all
  obtain c1 c2 where sets: "cset c ?key s0 (ae_now_set env) = Some c1"
      "cset c ?key (adaptive_next s0) (ae_now_set env) = Some c2"
    using set_total [OF g(2)] by metis
  have "\<exists>s e a'. Inject_with cget cset env p a = Some ((s, e), a')"
    by (cases r1; cases r2)
      (simp_all add: Inject_with_def Let_def g s0_def [symmetric] run1 run2 ok1 sets)
  with that show ?thesis by blast
qed

lemma Inject_keeps_ok:
  assumes ok: "cok (ad_cache a)" and inj: "Inject_with cget cset env p a = Some ((s, e), a')"
  shows "cok (ad_cache a') \<and> cttl (ad_cache a') = cttl (ad_cache a)"
proof -
  have get: "cok c \<and> cttl c = cttl (ad_cache a)"
    if "cget (ad_cache a) k now = Some (r, c)" for k now r c
    using get_total [OF ok, of k now] that by auto
  have set: "cok c' \<and> cttl c' = cttl c" if "cok c" "cset c k s now = Some c'" for c k s now c'
    using set_total [OF that(1), of k s now] that(2) by auto
  from inj show ?thesis
    by (cases rule: Inject_with_cases) (metis get set)+
qed

lemma Inject_sticky:
  assumes ok: "cok (ad_cache a)" and inj: "Inject_with cget cset env p a = Some ((s, None), a')"
  shows "\<exists>a''. GetCached_with cget now (ap_DstIP p) (ap_DstPort p) a' =
    Some (if now > ae_now_set env + cttl (ad_cache a) then StrategyUnknown else s, a'')"
proof -
  let ?key = "adaptive_key (ap_DstIP p) (ap_DstPort p)"
  obtain c where c: "cok c" "cttl c = cttl (ad_cache a)"
      "cset c ?key s (ae_now_set env) = Some (ad_cache a')"
    using inj
  proof (cases rule: Inject_with_cases)
    case (first r c)
    with get_total [OF ok, of ?key "ae_now_get env"] show ?thesis by (intro that [of c]) auto
  next
    case (fallback r c)
    with get_total [OF ok, of ?key "ae_now_get env"] show ?thesis by (intro that [of c]) auto
  qed simp
  from get_after_set [OF c(1,3), of now] c(2) show ?thesis
    by (auto simp: GetCached_with_def)
qed

end

section \<open>Properties of the adaptive bypass\<close>

text \<open>C4. The adaptive bypass remembers what worked. After an injection that succeeded with
  strategy \<open>s\<close>, and for any clock readings, \<^verbatim>\<open>GetCached\<close> of the same destination answers
  \<open>s\<close> until the entry's time to live has passed, and \<^verbatim>\<open>unknown\<close> afterwards; the cache
  keeps its invariant.\<close>

theorem Adaptive_Inject_sticky:
  assumes "lru_inv (ad_cache a)" and "Adaptive_Inject env p a = Some ((s, None), a')"
  shows "lru_inv (ad_cache a') \<and>
    (\<exists>a''. GetCached now (ap_DstIP p) (ap_DstPort p) a' =
       Some (if now > ae_now_set env + lru_ttl (ad_cache a) then StrategyUnknown else s, a''))"
proof
  note inj = assms(2) [unfolded Adaptive_Inject_def]
  show "lru_inv (ad_cache a')"
    using lru.Inject_keeps_ok [OF assms(1) inj] by blast
  show "\<exists>a''. GetCached now (ap_DstIP p) (ap_DstPort p) a' =
      Some (if now > ae_now_set env + lru_ttl (ad_cache a) then StrategyUnknown else s, a'')"
    using lru.Inject_sticky [OF assms(1) inj] by (simp add: GetCached_def)
qed

definition sample_adaptive_env :: adaptive_env where
  "sample_adaptive_env =
     (let r = \<lparr>re_profile_draw = 0, re_entropy = zero_entropy, re_inject = sample_env\<rparr>
      in \<lparr>ae_now_get = 0, ae_run1 = r, ae_run2 = r, ae_now_set = 5\<rparr>)"

definition sample_adaptive_params :: AdaptiveParams where
  "sample_adaptive_params =
     \<lparr>ap_SrcIP = [10, 0, 0, 1], ap_DstIP = [1, 2, 3, 4], ap_SrcPort = 40000, ap_DstPort = 443,
      ap_SynSeq = 5, ap_SynAckSeq = 9, ap_SynTime = 0, ap_FakeSNI = ''hcaptcha.com'',
      ap_Profile = ''firefox'', ap_TTLSpoof = True, ap_DelayMs = 2, ap_MinDelayMs = 1,
      ap_MaxDelayMs = 10, ap_JitterMs = 0, ap_FragSize = 0\<rparr>"

lemma sample_wrongseq_params: "wrongseq_params sample_adaptive_params = sample_inject"
  by (simp add: wrongseq_params_def sample_adaptive_params_def sample_inject_def)

lemma Adaptive_Inject_sample:
  "\<exists>a'. Adaptive_Inject sample_adaptive_env sample_adaptive_params (newAdaptiveBypass (Some [])) =
     Some ((StrategyWrongSeq, None), a')"
proof -
  obtain b where b: "WrongSeq_Inject sample_env sample_inject new_bypass = (None, b)"
    using WrongSeq_Inject_sample by blast
  obtain hello where hello:
    "Build (NewBuilder (ap_Profile sample_adaptive_params) 0) (ap_FakeSNI sample_adaptive_params)
       zero_entropy = Inr hello"
    using Build_zero_entropy by blast
  show ?thesis
    by (simp add: Adaptive_Inject_def Inject_with_def newAdaptiveBypass_def sample_adaptive_env_def
        Let_def lru_get_def newLRUCache_def adaptive_run_def hello sample_wrongseq_params b
        lru_set_def lru_evict_def)
qed

theorem Adaptive_Inject_sticky_witness:
  "\<exists>a' a''. Adaptive_Inject sample_adaptive_env sample_adaptive_params (newAdaptiveBypass (Some [])) =
     Some ((StrategyWrongSeq, None), a') \<and>
     GetCached 100 [1, 2, 3, 4] 443 a' = Some (StrategyWrongSeq, a'')"
proof -
  obtain a' where a': "Adaptive_Inject sample_adaptive_env sample_adaptive_params
      (newAdaptiveBypass (Some [])) = Some ((StrategyWrongSeq, None), a')"
    using Adaptive_Inject_sample by blast
  have "lru_inv (ad_cache (newAdaptiveBypass (Some [])))" by (simp add: newAdaptiveBypass_def)
  from Adaptive_Inject_sticky [OF this a', of 100] a' show ?thesis
    by (auto simp: newAdaptiveBypass_def newLRUCache_def sample_adaptive_env_def Let_def Second_def
        sample_adaptive_params_def)
qed



text \<open>Destinations are kept apart: two IPv4 destinations have the same cache key only if
  both the address and the port are the same.\<close>

theorem adaptive_key_inj:
  assumes "adaptive_key ip port = adaptive_key ip' port'"
    and "length ip = 4" and "length ip' = 4"
  shows "ip = ip' \<and> port = port'"
proof -
  have strs: "IP_String ip = ipv4_text ip" "IP_String ip' = ipv4_text ip'"
    using assms(2,3) by (simp_all add: IP_String_v4 To4_def)
  have "ipv4_text ip = ipv4_text ip' \<and> unat port = unat port'"
    using assms ipv4_text_no_colon [OF assms(2)] ipv4_text_no_colon [OF assms(3)]
    unfolding adaptive_key_def strs by (intro host_port_inj)
  with ipv4_text_inj [OF assms(2,3)] show ?thesis by (simp add: word_unat_eq_iff)
qed

theorem adaptive_key_inj_witness:
  "adaptive_key [1, 2, 3, 4] 443 = ''1.2.3.4:443'' \<and>
   (\<forall>ip' port'. length ip' = 4 \<and> adaptive_key [1, 2, 3, 4] 443 = adaptive_key ip' port' \<longrightarrow>
      [1, 2, 3, 4] = ip' \<and> 443 = port')"
proof
  show "adaptive_key [1, 2, 3, 4] 443 = ''1.2.3.4:443''"
    by code_simp
  show "\<forall>ip' port'. length ip' = 4 \<and> adaptive_key [1, 2, 3, 4] 443 = adaptive_key ip' port' \<longrightarrow>
      [1, 2, 3, 4] = ip' \<and> 443 = port'"
    using adaptive_key_inj [of "[1, 2, 3, 4]" 443] by simp
qed

end
