(* ===== verification/DomainPool.thy ===== *)
theory DomainPool
  imports Timing
begin

text \<open>
  The pool of decoy domains, \<^verbatim>\<open>internal/domain/pool.go\<close>: which domain to name in the fake
  hello, and when a domain that does not answer is probed again. Times are nanoseconds, the zero
  \<^verbatim>\<open>time.Time\<close> is \<open>None\<close>; a draw of \<^verbatim>\<open>rand.Float64\<close> is an argument. \<^verbatim>\<open>probeAll\<close> is one
  step: the additions and removals that may overlap it take effect before or after.
\<close>

record Entry =
  en_Domain :: string
  en_Latency :: int
  en_Alive :: bool
  en_LastCheck :: "int option"
  en_failStreak :: nat
  en_nextProbeAt :: "int option"

definition new_entry :: "string \<Rightarrow> Entry" where
  "new_entry d =
     \<lparr>en_Domain = d, en_Latency = 0, en_Alive = True, en_LastCheck = None, en_failStreak = 0,
      en_nextProbeAt = None\<rparr>"

definition streak_seconds :: "nat \<Rightarrow> real \<Rightarrow> real" where
  "streak_seconds streak u =
     (let base = 10;
          delay = base * 2 ^ (streak - 1);
          delay = (if delay > 600 then 600 else delay);
          jitter = u * base
      in delay + jitter)"

definition backoffDelay :: "real \<Rightarrow> Entry \<Rightarrow> int" where
  "backoffDelay u e =
     (if en_failStreak e = 0 then 0 else sec_dur (streak_seconds (en_failStreak e) u))"

text \<open>\<open>now\<close> and \<open>now'\<close> are the two clock readings.\<close>

definition recordResult :: "int \<Rightarrow> int \<Rightarrow> real \<Rightarrow> int \<Rightarrow> bool \<Rightarrow> Entry \<Rightarrow> Entry" where
  "recordResult now now' u lat alive e =
     (let e = e\<lparr>en_LastCheck := Some now\<rparr>;
          e = (if alive then e\<lparr>en_failStreak := 0, en_nextProbeAt := None\<rparr>
               else let e = e\<lparr>en_failStreak := en_failStreak e + 1\<rparr>
                    in e\<lparr>en_nextProbeAt :=
                         Some (now' + sec_dur (streak_seconds (en_failStreak e) u))\<rparr>)
      in e\<lparr>en_Latency := lat, en_Alive := alive\<rparr>)"

definition dueForProbe :: "int \<Rightarrow> Entry \<Rightarrow> bool" where
  "dueForProbe now e = (case en_nextProbeAt e of None \<Rightarrow> True | Some t \<Rightarrow> now > t)"

record Pool =
  pl_entries :: "Entry list"
  pl_best :: string
  pl_probePort :: int
  pl_probeTimeout :: int
  pl_probeInterval :: int

definition NewPool :: "string list \<Rightarrow> int \<Rightarrow> int \<Rightarrow> Pool" where
  "NewPool domains probePort probeInterval =
     (let entries = map new_entry domains
      in \<lparr>pl_entries = entries,
          pl_best = (if entries \<noteq> [] then en_Domain (hd entries) else []),
          pl_probePort = probePort, pl_probeTimeout = 3 * Second,
          pl_probeInterval = probeInterval * Second\<rparr>)"

definition Best :: "Pool \<Rightarrow> string" where "Best p = pl_best p"

definition All :: "Pool \<Rightarrow> string list" where "All p = map en_Domain (pl_entries p)"

definition Entries :: "Pool \<Rightarrow> Entry list" where "Entries p = pl_entries p"

text \<open>What the world answers in one round, by position in the snapshot: the clock when the entry
  is examined, the dial's outcome, and the clock readings and draw of \<open>recordResult\<close>.\<close>

record round_env =
  rd_due :: "nat \<Rightarrow> int"
  rd_probe :: "nat \<Rightarrow> int \<times> bool"
  rd_now1 :: "nat \<Rightarrow> int"
  rd_now2 :: "nat \<Rightarrow> int"
  rd_draw :: "nat \<Rightarrow> real"

definition probe_entry :: "round_env \<Rightarrow> nat \<Rightarrow> Entry \<Rightarrow> Entry" where
  "probe_entry env i e =
     (if \<not> dueForProbe (rd_due env i) e then e
      else case rd_probe env i of (lat, alive) \<Rightarrow>
        recordResult (rd_now1 env i) (rd_now2 env i) (rd_draw env i) lat alive e)"

definition entry_less :: "Entry \<Rightarrow> Entry \<Rightarrow> bool" where
  "entry_less a b =
     (if en_Alive a \<noteq> en_Alive b then en_Alive a
      else if en_Latency a = 0 \<and> en_Latency b = 0 then False
      else if en_Latency a = 0 then False
      else if en_Latency b = 0 then True
      else en_Latency a < en_Latency b)"

fun first_alive :: "Entry list \<Rightarrow> string \<Rightarrow> string" where
  "first_alive [] best = best"
| "first_alive (e # es) best = (if en_Alive e then en_Domain e else first_alive es best)"

definition probeAll :: "Entry slice_sort \<Rightarrow> round_env \<Rightarrow> Pool \<Rightarrow> Pool" where
  "probeAll srt env p =
     (let probed = map (\<lambda>(i, e). probe_entry env i e) (zip [0..<length (pl_entries p)] (pl_entries p));
          sorted = srt entry_less probed
      in p\<lparr>pl_entries := sorted, pl_best := first_alive sorted (pl_best p)\<rparr>)"

text \<open>The loop: one round at once, then one per tick until the context ends.\<close>

fun probe_loop :: "Entry slice_sort \<Rightarrow> round_env list \<Rightarrow> Pool \<Rightarrow> Pool" where
  "probe_loop srt [] p = p"
| "probe_loop srt (env # envs) p =
     (let p = probeAll srt env p
      in if pl_probeInterval p \<le> 0 then p else probe_loop srt envs p)"

definition Add :: "string \<Rightarrow> Pool \<Rightarrow> Pool" where
  "Add d p =
     (if (\<exists>e \<in> set (pl_entries p). en_Domain e = d) then p
      else p\<lparr>pl_entries := pl_entries p @ [new_entry d]\<rparr>)"

fun remove_first :: "string \<Rightarrow> Entry list \<Rightarrow> Entry list" where
  "remove_first d [] = []"
| "remove_first d (e # es) = (if en_Domain e = d then es else e # remove_first d es)"

definition Remove :: "string \<Rightarrow> Pool \<Rightarrow> Pool" where
  "Remove d p = p\<lparr>pl_entries := remove_first d (pl_entries p)\<rparr>"

section \<open>Back-off\<close>

lemma streak_seconds_bounds:
  assumes "0 \<le> u" and "u < 1"
  shows "min (10 * 2 ^ (n - 1)) 600 \<le> streak_seconds n u \<and>
    streak_seconds n u < min (10 * 2 ^ (n - 1)) 600 + 10"
  using assms by (auto simp: streak_seconds_def Let_def min_def)

text \<open>The retry schedule of a domain that does not answer. After its \<open>n\<close>-th failure in a row,
  recorded at \<open>now\<close> with a draw in [0, 1), it is not due before \<open>10 * 2 ^ (n - 1)\<close> seconds,
  capped at 600, have passed, and it is due again once ten seconds more have; a success
  makes it due at once and ends the run.\<close>

theorem recordResult_backoff:
  assumes "0 \<le> u" and "u < 1"
  shows "en_failStreak (recordResult now1 now u lat False e) = en_failStreak e + 1 \<and>
    (let e' = recordResult now1 now u lat False e;
         wait = min (10 * 2 ^ en_failStreak e) 600
     in (\<forall>t \<le> now + sec_dur wait. \<not> dueForProbe t e') \<and>
        (\<forall>t > now + sec_dur (wait + 10). dueForProbe t e')) \<and>
    (\<forall>t. dueForProbe t (recordResult now1 now u lat True e)) \<and>
    en_failStreak (recordResult now1 now u lat True e) = 0"
proof -
  have lo: "sec_dur (min (10 * 2 ^ en_failStreak e) 600) \<le>
      sec_dur (streak_seconds (en_failStreak e + 1) u)"
    using streak_seconds_bounds [OF assms, of "en_failStreak e + 1"]
    by (intro sec_dur_mono) simp
  have hi: "sec_dur (streak_seconds (en_failStreak e + 1) u) \<le>
      sec_dur (min (10 * 2 ^ en_failStreak e) 600 + 10)"
    using streak_seconds_bounds [OF assms, of "en_failStreak e + 1"]
    by (intro sec_dur_mono) simp
  from lo hi show ?thesis
    by (simp add: recordResult_def dueForProbe_def Let_def)
qed

theorem recordResult_backoff_witness:
  "(let e' = recordResult 0 0 (1 / 2) 0 False (new_entry ''a.example'');
        wait = min (10 * 2 ^ 0) 600
    in (\<forall>t \<le> sec_dur wait. \<not> dueForProbe t e') \<and> (\<forall>t > sec_dur (wait + 10). dueForProbe t e'))"
  using recordResult_backoff [of "1 / 2" 0 0 0 "new_entry ''a.example''"]
  by (simp add: new_entry_def Let_def)

section \<open>The best domain\<close>

lemma entry_less_weak: "strict_weak entry_less"
  by (rule strict_weakI) (auto simp: entry_less_def split: if_splits)

lemma first_alive_dead: "\<forall>e \<in> set es. \<not> en_Alive e \<Longrightarrow> first_alive es best = best"
  by (induction es) auto

lemma first_alive_hd: "es \<noteq> [] \<Longrightarrow> en_Alive (hd es) \<Longrightarrow> first_alive es best = en_Domain (hd es)"
  by (cases es) auto

text \<open>C37. A probing round picks the best domain. For every sort that meets the contract of
  \<^verbatim>\<open>sort.Slice\<close> and every outcome of the probes: the pool's entries are the probed ones in some
  order; when some entry is alive, \<^verbatim>\<open>Best\<close> is the domain of an alive entry that no alive entry beats
  on latency (an unmeasured one ranks last); when none is, the previous best is kept.\<close>

theorem probeAll_best:
  assumes "slice_sorter srt"
  shows "mset (pl_entries (probeAll srt env p)) =
      mset (map (\<lambda>(i, e). probe_entry env i e) (zip [0..<length (pl_entries p)] (pl_entries p))) \<and>
    (if \<exists>e \<in> set (pl_entries (probeAll srt env p)). en_Alive e
     then \<exists>e \<in> set (pl_entries (probeAll srt env p)).
       en_Alive e \<and> Best (probeAll srt env p) = en_Domain e \<and>
       (\<forall>e' \<in> set (pl_entries (probeAll srt env p)). en_Alive e' \<longrightarrow>
          (en_Latency e' = 0 \<or> (en_Latency e \<noteq> 0 \<and> en_Latency e \<le> en_Latency e')))
     else Best (probeAll srt env p) = Best p)"
proof -
  define probed where "probed =
    map (\<lambda>(i, e). probe_entry env i e) (zip [0..<length (pl_entries p)] (pl_entries p))"
  define es where "es = srt entry_less probed"
  have p': "pl_entries (probeAll srt env p) = es"
    "Best (probeAll srt env p) = first_alive es (Best p)"
    by (simp_all add: probeAll_def Let_def es_def probed_def Best_def)
  have "mset es = mset probed" unfolding es_def by (rule slice_sorter.mset_srt [OF assms])
  moreover have "Best (probeAll srt env p) = Best p" if "\<not> (\<exists>e \<in> set es. en_Alive e)"
    using that by (simp add: p' first_alive_dead)
  moreover have "\<exists>e \<in> set es. en_Alive e \<and> Best (probeAll srt env p) = en_Domain e \<and>
       (\<forall>e' \<in> set es. en_Alive e' \<longrightarrow>
          (en_Latency e' = 0 \<or> (en_Latency e \<noteq> 0 \<and> en_Latency e \<le> en_Latency e')))"
    if alive: "\<exists>e \<in> set es. en_Alive e"
  proof -
    have ne: "es \<noteq> []" using alive by auto
    have min: "\<not> entry_less e (hd es)" if "e \<in> set es" for e
      using that slice_sorter.hd_srt_minimal [OF assms entry_less_weak, of e probed]
        slice_sorter.set_srt [OF assms, of entry_less probed] by (simp add: es_def)
    obtain e0 where e0: "e0 \<in> set es" "en_Alive e0" using alive by blast
    then have hd_alive: "en_Alive (hd es)" using min [of e0] by (auto simp: entry_less_def split: if_splits)
    have "en_Latency e' = 0 \<or> (en_Latency (hd es) \<noteq> 0 \<and> en_Latency (hd es) \<le> en_Latency e')"
      if "e' \<in> set es" "en_Alive e'" for e'
      using min [OF that(1)] that(2) hd_alive by (auto simp: entry_less_def split: if_splits)
    with ne hd_alive show ?thesis
      by (intro bexI [of _ "hd es"]) (simp_all add: p' first_alive_hd)
  qed
  ultimately show ?thesis unfolding p'(1) probed_def by simp
qed

theorem probeAll_best_witness:
  "Best (probeAll insertion_sort
     \<lparr>rd_due = (\<lambda>_. 0), rd_probe = (\<lambda>i. (if i = 0 then (0, False) else (7, True))),
      rd_now1 = (\<lambda>_. 0), rd_now2 = (\<lambda>_. 0), rd_draw = (\<lambda>_. 0)\<rparr>
     (NewPool [''a'', ''b''] 443 300)) = ''b''"
proof -
  let ?env = "\<lparr>rd_due = (\<lambda>_. 0), rd_probe = (\<lambda>i. (if i = 0 then (0, False) else (7, True))),
      rd_now1 = (\<lambda>_. 0), rd_now2 = (\<lambda>_. 0), rd_draw = (\<lambda>_ :: nat. 0 :: real)\<rparr>"
  let ?p = "probeAll insertion_sort ?env (NewPool [''a'', ''b''] 443 300)"
  have m: "mset (pl_entries ?p) =
      {# recordResult 0 0 0 0 False (new_entry ''a''), recordResult 0 0 0 7 True (new_entry ''b'') #}"
    using probeAll_best [OF small_sort.slice_sorter_axioms, of ?env "NewPool [''a'', ''b''] 443 300"]
    by (simp add: NewPool_def probe_entry_def dueForProbe_def new_entry_def Let_def upt_conv_Cons)
  then have s: "set (pl_entries ?p) =
      {recordResult 0 0 0 0 False (new_entry ''a''), recordResult 0 0 0 7 True (new_entry ''b'')}"
    by (metis set_mset_add_mset_insert set_mset_empty set_mset_mset)
  show ?thesis
    using conjunct2 [OF probeAll_best [OF small_sort.slice_sorter_axioms, of ?env
        "NewPool [''a'', ''b''] 443 300"]]
    unfolding s by (simp add: recordResult_def new_entry_def Let_def)
qed

end
