(* ===== verification/Relay.thy ===== *)
theory Relay
  imports HelloRoundtrip
begin

text \<open>
  The relay of \<^verbatim>\<open>internal/proxy/relay.go\<close> (its SNI parser is in the theory \<open>Sni\<close>). What a
  connection does is a script: the outcomes of its reads in order (bytes, and the error that came
  with them), and for each write the failure it meets, if any: how many bytes went out, and the
  error. A script that ends without an error is a peer that stays silent; the loop then has not
  returned, which is \<open>None\<close>.
\<close>

datatype read_error = EOF | TimedOut | ReadError string

datatype read = Read (rd_data: bytes) (rd_error: "read_error option")

type_synonym writer = "nat \<Rightarrow> (nat \<times> go_error) option"

datatype relay_error = WriteFailed go_error | ReadFailed string

text \<open>What a call of \<open>copyLoop\<close> leaves: its two results, the bytes the destination got and the
  arguments of the byte callback.\<close>

record copied =
  cp_total :: int
  cp_err :: "relay_error option"
  cp_delivered :: bytes
  cp_counts :: "int list"

fun copy_loop :: "read list \<Rightarrow> writer \<Rightarrow> nat \<Rightarrow> copied \<Rightarrow> copied option" where
  "copy_loop [] w i c = None"
| "copy_loop (Read chunk err # reads) w i c =
     (let n = length chunk;
          (written, writeErr) = (case w i of None \<Rightarrow> (n, None) | Some (k, e) \<Rightarrow> (min k n, Some e));
          c' = (if n > 0
                then c\<lparr>cp_total := cp_total c + int written,
                       cp_delivered := cp_delivered c @ take written chunk,
                       cp_counts := cp_counts c @ [int written]\<rparr>
                else c)
      in if n > 0 \<and> writeErr \<noteq> None
         then Some (c'\<lparr>cp_err := Some (WriteFailed (the writeErr))\<rparr>)
         else case err of
             None \<Rightarrow> copy_loop reads w (if n > 0 then Suc i else i) c'
           | Some EOF \<Rightarrow> Some c'
           | Some TimedOut \<Rightarrow> Some c'
           | Some (ReadError m) \<Rightarrow> Some (c'\<lparr>cp_err := Some (ReadFailed m)\<rparr>))"

definition copyLoop :: "read list \<Rightarrow> writer \<Rightarrow> copied option" where
  "copyLoop reads w =
     copy_loop reads w 0 \<lparr>cp_total = 0, cp_err = None, cp_delivered = [], cp_counts = []\<rparr>"

text \<open>
  \<open>Relay\<close>: both loops, each with its own script (the end of one closes both connections, which is
  an error in the other's script). \<open>in_first\<close> says which loop reports its error first.
\<close>

record RelayResult =
  rr_BytesIn :: int
  rr_BytesOut :: int
  rr_Err :: "relay_error option"

definition setErr :: "relay_error option \<Rightarrow> relay_error option \<Rightarrow> relay_error option" where
  "setErr firstErr err = (if firstErr = None \<and> err \<noteq> None then err else firstErr)"

definition Relay ::
  "read list \<Rightarrow> writer \<Rightarrow> read list \<Rightarrow> writer \<Rightarrow> bool \<Rightarrow> (RelayResult \<times> copied \<times> copied) option" where
  "Relay creads to_server sreads to_client in_first = do {
     cin \<leftarrow> copyLoop creads to_server;
     cout \<leftarrow> copyLoop sreads to_client;
     let firstErr = (if in_first then setErr (setErr None (cp_err cin)) (cp_err cout)
                     else setErr (setErr None (cp_err cout)) (cp_err cin));
     Some (\<lparr>rr_BytesIn = cp_total cin, rr_BytesOut = cp_total cout, rr_Err = firstErr\<rparr>, cin, cout)
   }"

text \<open>The read loop of \<open>readSNI\<close>, over the parser it polls.\<close>

fun read_until ::
  "(bytes \<Rightarrow> ('r \<times> bool) option) \<Rightarrow> 'r \<Rightarrow> nat \<Rightarrow> read list \<Rightarrow> bytes \<Rightarrow> ('r \<times> bytes \<times> read list) option"
where
  "read_until parse none maxBuf [] acc =
     (if length acc < maxBuf then None else Some (none, acc, []))"
| "read_until parse none maxBuf (Read chunk err # reads) acc =
     (if length acc < maxBuf
      then if chunk \<noteq> []
           then do {
             (r, fin) \<leftarrow> parse (acc @ chunk);
             if fin then Some (r, acc @ chunk, reads)
             else if err \<noteq> None then Some (none, acc @ chunk, reads)
             else read_until parse none maxBuf reads (acc @ chunk)
           }
           else if err \<noteq> None then Some (none, acc, reads)
           else read_until parse none maxBuf reads acc
      else Some (none, acc, Read chunk err # reads))"

definition readSNI :: "read list \<Rightarrow> int \<Rightarrow> (string \<times> bytes \<times> read list) option" where
  "readSNI reads maxBuf =
     read_until parseSNI [] (nat (if maxBuf \<le> 0 then 16384 else maxBuf)) reads []"

text \<open>What \<open>RelayWithSNI\<close> leaves: its two results, all the bytes the server and the client got,
  and all the callbacks on incoming and outgoing bytes. \<open>first\<close> is the failure of the first write.\<close>

record relayed =
  rl_sni :: string
  rl_result :: RelayResult
  rl_to_server :: bytes
  rl_to_client :: bytes
  rl_in_counts :: "int list"
  rl_out_counts :: "int list"

definition RelayWithSNI ::
  "read list \<Rightarrow> (nat \<times> go_error) option \<Rightarrow> writer \<Rightarrow> read list \<Rightarrow> writer \<Rightarrow> bool \<Rightarrow> int \<Rightarrow> relayed option"
where
  "RelayWithSNI creads first to_server sreads to_client in_first maxSNIBuf = do {
     (sni, accumulated, creads) \<leftarrow> readSNI creads maxSNIBuf;
     if accumulated \<noteq> [] \<and> first \<noteq> None
     then Some \<lparr>rl_sni = sni,
            rl_result = \<lparr>rr_BytesIn = 0, rr_BytesOut = 0,
                         rr_Err = Some (WriteFailed (snd (the first)))\<rparr>,
            rl_to_server = take (fst (the first)) accumulated, rl_to_client = [],
            rl_in_counts = [], rl_out_counts = []\<rparr>
     else do {
       (result, cin, cout) \<leftarrow> Relay creads to_server sreads to_client in_first;
       Some \<lparr>rl_sni = sni, rl_result = result, rl_to_server = accumulated @ cp_delivered cin,
             rl_to_client = cp_delivered cout,
             rl_in_counts = (if accumulated \<noteq> [] then [int (length accumulated)] else []) @
                            cp_counts cin,
             rl_out_counts = cp_counts cout\<rparr>
     }
   }"

section \<open>The copy loop\<close>

definition stream_of :: "read list \<Rightarrow> bytes" where
  "stream_of reads = concat (map rd_data reads)"

lemma stream_of_simps [simp]:
  "stream_of [] = []" "stream_of (r # reads) = rd_data r @ stream_of reads"
  "stream_of (reads @ reads') = stream_of reads @ stream_of reads'"
  by (simp_all add: stream_of_def)

text \<open>Reads up to and including the first error.\<close>

fun until_error :: "read list \<Rightarrow> read list" where
  "until_error [] = []"
| "until_error (r # reads) = (if rd_error r = None then r # until_error reads else [r])"

text \<open>One turn of the loop: nothing read, a write that fails, a write that succeeds.\<close>

definition copied_add :: "bytes \<Rightarrow> copied \<Rightarrow> copied" where
  "copied_add out c = c\<lparr>cp_total := cp_total c + int (length out),
     cp_delivered := cp_delivered c @ out, cp_counts := cp_counts c @ [int (length out)]\<rparr>"

definition copy_end :: "read_error \<Rightarrow> copied \<Rightarrow> copied" where
  "copy_end e c = (case e of ReadError m \<Rightarrow> c\<lparr>cp_err := Some (ReadFailed m)\<rparr> | _ \<Rightarrow> c)"

lemma copied_add_simps [simp]:
  "cp_total (copied_add out c) = cp_total c + int (length out)"
  "cp_delivered (copied_add out c) = cp_delivered c @ out"
  "cp_counts (copied_add out c) = cp_counts c @ [int (length out)]"
  "cp_err (copied_add out c) = cp_err c"
  by (simp_all add: copied_add_def)

lemma copy_end_simps [simp]:
  "cp_total (copy_end e c) = cp_total c" "cp_delivered (copy_end e c) = cp_delivered c"
  "cp_counts (copy_end e c) = cp_counts c"
  by (simp_all add: copy_end_def split: read_error.split)

lemma copy_loop_turn:
  "copy_loop (Read [] None # reads) w i c = copy_loop reads w i c"
  "copy_loop (Read [] (Some e) # reads) w i c = Some (copy_end e c)"
  "chunk \<noteq> [] \<Longrightarrow> w i = Some (k, er) \<Longrightarrow> copy_loop (Read chunk err # reads) w i c =
     Some ((copied_add (take k chunk) c)\<lparr>cp_err := Some (WriteFailed er)\<rparr>)"
  "chunk \<noteq> [] \<Longrightarrow> w i = None \<Longrightarrow> copy_loop (Read chunk None # reads) w i c =
     copy_loop reads w (Suc i) (copied_add chunk c)"
  "chunk \<noteq> [] \<Longrightarrow> w i = None \<Longrightarrow> copy_loop (Read chunk (Some e) # reads) w i c =
     Some (copy_end e (copied_add chunk c))"
  by (cases "w i"; cases e; auto simp: Let_def copy_end_def copied_add_def min_def split: prod.splits)+

lemma copy_loop_delivers:
  "copy_loop reads w i c = Some c' \<Longrightarrow>
     \<exists>sent rest ns. cp_delivered c' = cp_delivered c @ sent \<and>
       stream_of (until_error reads) = sent @ rest \<and>
       cp_total c' = cp_total c + int (length sent) \<and>
       cp_counts c' = cp_counts c @ ns \<and> sum_list ns = int (length sent) \<and>
       ((\<forall>i. w i = None) \<longrightarrow> rest = [])"
proof (induction reads arbitrary: i c)
  case Nil
  then show ?case by simp
next
  case (Cons r reads)
  obtain chunk err where r: "r = Read chunk err" by (cases r)
  show ?case
  proof (cases "chunk = []")
    case True
    with Cons r show ?thesis by (cases err) (auto simp: copy_loop_turn simp del: copy_loop.simps)
  next
    case ne: False
    show ?thesis
    proof (cases "w i")
      case (Some ke)
      obtain k e where ke: "ke = (k, e)" by fastforce
      have "chunk = take k chunk @ drop k chunk" by simp
      moreover have "c' = (copied_add (take k chunk) c)\<lparr>cp_err := Some (WriteFailed e)\<rparr>"
        using Cons.prems ne Some ke r by (simp add: copy_loop_turn del: copy_loop.simps)
      ultimately show ?thesis
        using Some r
        by (intro exI [of _ "take k chunk"] exI [of _ "drop k chunk @
              (if err = None then stream_of (until_error reads) else [])"]
            exI [of _ "[int (length (take k chunk))]"]) (auto simp del: length_take)
    next
      case None
      show ?thesis
      proof (cases err)
        case (Some e)
        with Cons.prems None ne r have "c' = copy_end e (copied_add chunk c)"
          by (simp add: copy_loop_turn del: copy_loop.simps)
        with Some r show ?thesis
          by (intro exI [of _ chunk] exI [of _ "[]"] exI [of _ "[int (length chunk)]"]) simp
      next
        case noerr: None
        with Cons.prems None ne r have "copy_loop reads w (Suc i) (copied_add chunk c) = Some c'"
          by (simp add: copy_loop_turn del: copy_loop.simps)
        from Cons.IH [OF this] obtain sent rest ns where
            "cp_delivered c' = cp_delivered (copied_add chunk c) @ sent"
            "stream_of (until_error reads) = sent @ rest"
            "cp_total c' = cp_total (copied_add chunk c) + int (length sent)"
            "cp_counts c' = cp_counts (copied_add chunk c) @ ns" "sum_list ns = int (length sent)"
            "(\<forall>i. w i = None) \<longrightarrow> rest = []" by blast
        with noerr r show ?thesis
          by (intro exI [of _ "chunk @ sent"] exI [of _ rest] exI [of _ "int (length chunk) # ns"]) simp
      qed
    qed
  qed
qed

text \<open>The loop returns as soon as its script has an error, or a write fails.\<close>

lemma copy_loop_returns:
  "\<exists>r \<in> set reads. rd_error r \<noteq> None \<Longrightarrow> \<exists>c'. copy_loop reads w i c = Some c'"
proof (induction reads arbitrary: i c)
  case (Cons r reads)
  obtain chunk err where r: "r = Read chunk err" by (cases r)
  show ?case
  proof (cases err)
    case None
    with Cons.prems r have "\<exists>r \<in> set reads. rd_error r \<noteq> None" by simp
    with Cons.IH r None show ?thesis
      by (cases "chunk = []"; cases "w i") (auto simp: copy_loop_turn simp del: copy_loop.simps)
  next
    case (Some e)
    with r show ?thesis
      by (cases "chunk = []"; cases "w i") (auto simp: copy_loop_turn simp del: copy_loop.simps)
  qed
qed simp

section \<open>Sniffing is transparent and independent of the chunks\<close>

lemma read_until_split:
  "read_until parse none m reads acc = Some (r, acc', rest) \<Longrightarrow>
     \<exists>used. reads = used @ rest \<and> acc' = acc @ stream_of used"
proof (induction reads arbitrary: acc)
  case Nil
  then show ?case by (auto split: if_splits)
next
  case (Cons rd reads)
  obtain chunk err where rd: "rd = Read chunk err" by (cases rd)
  consider "acc' = acc" "rest = rd # reads" | "acc' = acc @ chunk" "rest = reads"
    | "read_until parse none m reads (acc @ chunk) = Some (r, acc', rest)"
    using Cons.prems rd by (auto split: if_splits bind_splits prod.splits)
  then show ?case
  proof cases
    case 1
    then show ?thesis by (intro exI [of _ "[]"]) simp
  next
    case 2
    then show ?thesis using rd by (intro exI [of _ "[rd]"]) simp
  next
    case 3
    from Cons.IH [OF this] obtain used where "reads = used @ rest" "acc' = (acc @ chunk) @ stream_of used"
      by blast
    then show ?thesis using rd by (intro exI [of _ "rd # used"]) simp
  qed
qed

context stream_parser
begin

text \<open>However the stream is cut, the loop answers what the parser says of the whole.\<close>

lemma read_until_chunks:
  assumes "\<forall>rd \<in> set reads. rd_error rd = None" and "parse acc = Some (r0, False)"
    and "parse (acc @ stream_of reads) = Some (r, True)"
    and "length (acc @ stream_of reads) \<le> m"
  shows "\<exists>acc' rest. read_until parse none m (reads @ post) acc = Some (r, acc', rest)"
  using assms
proof (induction reads arbitrary: acc r0)
  case Nil
  then show ?case by simp
next
  case (Cons rd reads)
  obtain chunk where rd: "rd = Read chunk None" using Cons.prems(1) by (cases rd) simp
  have "stream_of (rd # reads) \<noteq> []" using Cons.prems(2,3) by auto
  then have "0 < length (stream_of (rd # reads))" by blast
  then have room: "length acc < m" using Cons.prems(4) unfolding length_append by linarith
  show ?case
  proof (cases "chunk = []")
    case True
    with Cons.IH [of acc r0] Cons.prems rd room show ?thesis by simp
  next
    case False
    obtain r1 d where p: "parse (acc @ chunk) = Some (r1, d)" using parse_total by blast
    show ?thesis
    proof (cases d)
      case True
      with done_iff_suf [of "acc @ chunk" r1 "stream_of reads" r True] p Cons.prems(3) rd
      have "r = r1" by simp
      with True False p rd room show ?thesis by simp
    next
      case notyet: False
      with Cons.IH [of "acc @ chunk" r1] Cons.prems p rd
      have "\<exists>acc' rest. read_until parse none m (reads @ post) (acc @ chunk) = Some (r, acc', rest)"
        by simp
      with notyet False p rd room show ?thesis by simp
    qed
  qed
qed

text \<open>While the parser wants more and the peer is silent, nothing is answered.\<close>

lemma read_until_waits:
  assumes "\<forall>rd \<in> set reads. rd_error rd = None"
    and "length (acc @ stream_of reads) < m"
    and "parse (acc @ stream_of reads) = Some (r, False)"
  shows "read_until parse none m reads acc = None"
  using assms
proof (induction reads arbitrary: acc)
  case Nil
  then show ?case by simp
next
  case (Cons rd reads)
  obtain chunk where rd: "rd = Read chunk None" using Cons.prems(1) by (cases rd) simp
  obtain r1 where "parse (acc @ chunk) = Some (r1, False)"
    using not_done_prefix [of "acc @ chunk" "stream_of reads" r] Cons.prems(3) rd by auto
  with Cons.IH [of acc] Cons.IH [of "acc @ chunk"] Cons.prems rd show ?case
    by (cases "chunk = []") simp_all
qed

end

text \<open>C32. The relay learns the server name whatever the packets. If the bytes the client sends, at
  most 16384 of them and cut into reads in any way, are a hello from which \<^verbatim>\<open>parseSNI\<close> gets the
  name \<open>s\<close> (or gets that there is none), \<^verbatim>\<open>readSNI\<close> returns exactly \<open>s\<close>, and what it has read and what
  is left to read are together the client's stream: no byte is lost or reordered.\<close>

theorem readSNI_any_chunks:
  assumes "\<forall>rd \<in> set reads. rd_error rd = None" and "length (stream_of reads) \<le> 16384"
    and "parseSNI (stream_of reads) = Some (s, True)"
  shows "\<exists>acc rest. readSNI (reads @ post) 16384 = Some (s, acc, rest) \<and>
    acc @ stream_of rest = stream_of (reads @ post)"
proof -
  have "parseSNI [] = Some ([], False)" by (rule parseSNI_short) simp
  from relay_stream.read_until_chunks [OF assms(1) this, of s 16384 "[]" post] assms
  obtain acc rest where rd: "read_until parseSNI [] 16384 (reads @ post) [] = Some (s, acc, rest)"
    by auto
  then obtain used where "reads @ post = used @ rest" "acc = stream_of used"
    using read_until_split by fastforce
  then have "acc @ stream_of rest = stream_of (reads @ post)" by simp
  with rd show ?thesis by (auto simp: readSNI_def)
qed

theorem readSNI_any_chunks_witness:
  "\<exists>a b acc rest. readSNI [Read a None, Read b None] 16384 = Some (''hcaptcha.com'', acc, rest) \<and>
     length a = 3 \<and> acc @ stream_of rest = a @ b"
proof -
  obtain hello where build: "Build (NewBuilder ''firefox'' 0) ''hcaptcha.com'' zero_entropy = Inr hello"
    using Build_zero_entropy by blast
  have p: "parseSNI hello = Some (''hcaptcha.com'', True)"
    using Build_NewBuilder_SNI [OF build] by simp
  have "NewBuilder ''firefox'' 0 \<in> set allProfiles"
    unfolding NewBuilder_def by (rule GetProfile_in_allProfiles)
  from Build_profile_length [OF this build] have len: "length hello \<le> 16384" by simp
  have "5 \<le> length hello"
    using p by (cases hello rule: length_ge_5_cases) (auto simp: parseSNI_short)
  let ?a = "take 3 hello" and ?b = "drop 3 hello"
  from readSNI_any_chunks [of "[Read ?a None, Read ?b None]" "''hcaptcha.com''" "[]"] len p
  have "\<exists>acc rest. readSNI [Read ?a None, Read ?b None] 16384 = Some (''hcaptcha.com'', acc, rest) \<and>
     acc @ stream_of rest = ?a @ ?b" by simp
  with \<open>5 \<le> length hello\<close> show ?thesis
    by - (rule exI [of _ ?a], rule exI [of _ ?b], simp)
qed

text \<open>A hello fragmented over two TLS records stalls the connection. When the first record is
  complete but the handshake message in it is longer than its payload, \<^verbatim>\<open>parseSNI\<close> asks for
  more bytes for ever, whatever follows (the continuation in the next record included); so, however the
  bytes are cut, and while fewer than 16384 of them have come without a read error,
  \<^verbatim>\<open>readSNI\<close> does not return and nothing reaches the server.\<close>

theorem readSNI_fragmented_stall:
  assumes "length payload = int_be16 l1 l2" and "int_be16 l1 l2 \<le> 16384"
    and "payload = 0x01 # h1 # h2 # h3 # body" and "length body < int_be24 h1 h2 h3"
    and "\<forall>rd \<in> set reads. rd_error rd = None" and "length (stream_of reads) < 16384"
    and "stream_of reads = 0x16 # v1 # v2 # l1 # l2 # payload @ continuation"
  shows "parseSNI (stream_of reads) = Some ([], False) \<and> readSNI reads 16384 = None"
proof -
  have whole: "take (int_be16 l1 l2) (payload @ continuation) = payload"
    using assms(1) by simp
  have "parse_payload payload = Some ([], False)"
    using assms(4) by (simp add: assms(3) parse_payload_handshake)
  then have "parseSNI (stream_of reads) = Some ([], False)"
    using assms(1,2) unfolding assms(7) parseSNI_record whole by simp
  moreover from this have "read_until parseSNI [] 16384 reads [] = None"
    using assms(5,6) by (intro relay_stream.read_until_waits) simp_all
  ultimately show ?thesis by (simp add: readSNI_def)
qed

theorem readSNI_fragmented_stall_witness:
  "readSNI [Read [0x16, 3, 1, 0, 6, 1, 0, 0, 200, 3, 3] None, Read [0x16, 3, 1, 0, 1, 7] None] 16384 = None"
  using readSNI_fragmented_stall [of "[1, 0, 0, 200, 3, 3]" 0 6 0 0 200 "[3, 3]"
      "[Read [0x16, 3, 1, 0, 6, 1, 0, 0, 200, 3, 3] None, Read [0x16, 3, 1, 0, 1, 7] None]"
      3 1 "[0x16, 3, 1, 0, 1, 7]"]
  by (simp add: int_be16_arith int_be24_arith)

text \<open>C9. The relay is transparent, and its byte count is not. When \<^verbatim>\<open>RelayWithSNI\<close> returns
  and its first write succeeded, with \<open>used\<close> the reads the sniffer took: the server has got, in order
  and without a gap, a prefix of the client's stream, the whole of it up to the end of the
  connection when no write failed; the client has got a prefix of the server's stream; the byte callbacks
  add up to what the server got; but \<^verbatim>\<open>BytesIn\<close> of the result leaves out the sniffed
  bytes.\<close>

theorem RelayWithSNI_transparent:
  assumes "RelayWithSNI creads None w sreads w' in_first m = Some out"
  shows "\<exists>used rest lost lost'. creads = used @ rest \<and>
    rl_to_server out @ lost = stream_of used @ stream_of (until_error rest) \<and>
    ((\<forall>i. w i = None) \<longrightarrow> lost = []) \<and>
    rl_to_client out @ lost' = stream_of (until_error sreads) \<and>
    sum_list (rl_in_counts out) = int (length (rl_to_server out)) \<and>
    rr_BytesIn (rl_result out) = int (length (rl_to_server out)) - int (length (stream_of used))"
proof -
  obtain sni acc rest where sniff: "readSNI creads m = Some (sni, acc, rest)"
    using assms by (auto simp: RelayWithSNI_def split: bind_splits)
  then obtain used where used: "creads = used @ rest" "acc = stream_of used"
    using read_until_split unfolding readSNI_def by fastforce
  obtain result cin cout where relay: "Relay rest w sreads w' in_first = Some (result, cin, cout)"
    using assms sniff by (auto simp: RelayWithSNI_def split: bind_splits)
  from relay have loops: "copyLoop rest w = Some cin" "copyLoop sreads w' = Some cout"
    and res: "rr_BytesIn result = cp_total cin"
    by (auto simp: Relay_def Let_def split: bind_splits)
  have out: "out = \<lparr>rl_sni = sni, rl_result = result, rl_to_server = acc @ cp_delivered cin,
      rl_to_client = cp_delivered cout,
      rl_in_counts = (if acc \<noteq> [] then [int (length acc)] else []) @ cp_counts cin,
      rl_out_counts = cp_counts cout\<rparr>"
    using assms sniff relay by (simp add: RelayWithSNI_def)
  obtain lost ns where cin: "stream_of (until_error rest) = cp_delivered cin @ lost"
      "cp_total cin = int (length (cp_delivered cin))" "cp_counts cin = ns"
      "sum_list ns = int (length (cp_delivered cin))" "(\<forall>i. w i = None) \<longrightarrow> lost = []"
    using copy_loop_delivers [OF loops(1) [unfolded copyLoop_def]] by auto
  obtain lost' where cout: "stream_of (until_error sreads) = cp_delivered cout @ lost'"
    using copy_loop_delivers [OF loops(2) [unfolded copyLoop_def]] by auto
  have "sum_list (rl_in_counts out) = int (length (rl_to_server out))"
    using cin by (simp add: out)
  then show ?thesis
    using used cin cout res
    by (intro exI [of _ used] exI [of _ rest] exI [of _ lost] exI [of _ lost']) (simp add: out)
qed

theorem RelayWithSNI_transparent_witness:
  "\<exists>out. RelayWithSNI [Read [1, 2] None, Read [3] (Some EOF), Read [] (Some EOF)] None (\<lambda>_. None)
       [Read [9] (Some EOF)] (\<lambda>_. None) True 16384 = Some out \<and>
     rl_to_server out = [1, 2, 3]"
proof -
  obtain out where out: "RelayWithSNI [Read [1, 2] None, Read [3] (Some EOF), Read [] (Some EOF)] None (\<lambda>_. None)
       [Read [9] (Some EOF)] (\<lambda>_. None) True 16384 = Some out"
    by (simp add: RelayWithSNI_def readSNI_def parseSNI_short Relay_def copyLoop_def Let_def)
  from RelayWithSNI_transparent [OF out] obtain used rest where
      "[Read [1, 2] None, Read [3] (Some EOF), Read [] (Some EOF)] = used @ rest"
      "rl_to_server out = stream_of used @ stream_of (until_error rest)" by auto
  then have "rl_to_server out = [1, 2, 3]"
    by (auto simp: Cons_eq_append_conv)
  with out show ?thesis by blast
qed

end
