(* ===== verification/Text.thy ===== *)
theory Text
  imports Prelude
begin

text \<open>
  What the code uses of \<^verbatim>\<open>strings\<close> and of the verbs of \<^verbatim>\<open>fmt\<close>, on ASCII text:
  \<^verbatim>\<open>TrimSpace\<close>, \<^verbatim>\<open>Fields\<close>, \<^verbatim>\<open>Split\<close>, \<^verbatim>\<open>SplitN\<close> at the first colon, \<^verbatim>\<open>%0wX\<close> and
  \<^verbatim>\<open>Sscanf\<close> with \<^verbatim>\<open>%X\<close>, and the padding and decimals of the log lines.
\<close>

section \<open>White space\<close>

definition is_space :: "char \<Rightarrow> bool" where
  "is_space c \<longleftrightarrow> c = CHR '' '' \<or> (9 \<le> (of_char c :: nat) \<and> (of_char c :: nat) \<le> 13)"

definition trim_space :: "string \<Rightarrow> string" where
  "trim_space s = rev (dropWhile is_space (rev (dropWhile is_space s)))"

fun fields_from :: "string \<Rightarrow> string \<Rightarrow> string list" where
  "fields_from cur [] = (if cur = [] then [] else [cur])"
| "fields_from cur (c # cs) =
     (if is_space c then (if cur = [] then fields_from [] cs else cur # fields_from [] cs)
      else fields_from (cur @ [c]) cs)"

definition go_Fields :: "string \<Rightarrow> string list" where "go_Fields s = fields_from [] s"

definition no_space :: "string \<Rightarrow> bool" where "no_space w \<longleftrightarrow> list_all (\<lambda>c. \<not> is_space c) w"

lemma no_space_simps [simp]:
  "no_space []" "no_space (c # cs) \<longleftrightarrow> \<not> is_space c \<and> no_space cs"
  "no_space (v @ w) \<longleftrightarrow> no_space v \<and> no_space w" "no_space (replicate n c) \<longleftrightarrow> n = 0 \<or> \<not> is_space c"
  by (auto simp: no_space_def list_all_iff)

lemma fields_word [simp]: "no_space w \<Longrightarrow> fields_from cur (w @ cs) = fields_from (cur @ w) cs"
  by (induction w arbitrary: cur) auto

lemma fields_blanks [simp]: "fields_from [] (replicate n (CHR '' '') @ cs) = fields_from [] cs"
  by (induction n) (simp_all add: is_space_def)

section \<open>Splitting\<close>

fun go_Split :: "char \<Rightarrow> string \<Rightarrow> string list" where
  "go_Split sep [] = [[]]"
| "go_Split sep (c # cs) =
     (if c = sep then [] # go_Split sep cs
      else case go_Split sep cs of l # ls \<Rightarrow> (c # l) # ls | [] \<Rightarrow> [[c]])"

lemma go_Split_piece [simp]: "sep \<notin> set w \<Longrightarrow> go_Split sep (w @ sep # cs) = w # go_Split sep cs"
  by (induction w) auto

lemma go_Split_not_Nil [simp]: "go_Split sep s \<noteq> []"
  by (induction s) (auto split: list.splits)

text \<open>The two parts of \<^verbatim>\<open>SplitN(s, ":", 2)\<close>, when there are two.\<close>

definition split_first :: "char \<Rightarrow> string \<Rightarrow> (string \<times> string) option" where
  "split_first sep s =
     (case dropWhile (\<lambda>c. c \<noteq> sep) s of [] \<Rightarrow> None | _ # rest \<Rightarrow> Some (takeWhile (\<lambda>c. c \<noteq> sep) s, rest))"

lemma split_first_piece [simp]: "sep \<notin> set w \<Longrightarrow> split_first sep (w @ sep # cs) = Some (w, cs)"
  by (induction w) (auto simp: split_first_def split: list.splits)

section \<open>Digits\<close>

definition is_digit :: "char \<Rightarrow> bool" where
  "is_digit c \<longleftrightarrow> 48 \<le> (of_char c :: nat) \<and> (of_char c :: nat) \<le> 57"

section \<open>Hexadecimal\<close>

definition upper_hex :: "nat \<Rightarrow> char" where
  "upper_hex n = (if n < 10 then char_of (48 + n) else char_of (55 + n))"

fun uhex :: "nat \<Rightarrow> string" where
  "uhex n = (if n < 16 then [upper_hex n] else uhex (n div 16) @ [upper_hex (n mod 16)])"

declare uhex.simps [simp del]

definition hex_pad :: "nat \<Rightarrow> nat \<Rightarrow> string" where
  "hex_pad w n = replicate (w - length (uhex n)) (CHR ''0'') @ uhex n"

definition is_hex :: "char \<Rightarrow> bool" where
  "is_hex c \<longleftrightarrow> (let n = (of_char c :: nat) in 48 \<le> n \<and> n \<le> 57 \<or> 65 \<le> n \<and> n \<le> 70 \<or> 97 \<le> n \<and> n \<le> 102)"

definition hex_value :: "char \<Rightarrow> nat" where
  "hex_value c = (let n = (of_char c :: nat) in if n \<le> 57 then n - 48 else if n \<le> 70 then n - 55 else n - 87)"

definition unhex :: "string \<Rightarrow> nat" where
  "unhex s = foldl (\<lambda>a c. 16 * a + hex_value c) 0 s"

text \<open>\<^verbatim>\<open>Sscanf(s, "%X", &x)\<close> for a 32-bit \<^verbatim>\<open>x\<close>: the digits at the start; \<open>x\<close> keeps its value when
  there is none or when the number does not fit.\<close>

definition Sscanf_X :: "string \<Rightarrow> uint32 \<Rightarrow> uint32" where
  "Sscanf_X s x =
     (let ds = takeWhile is_hex s
      in if ds = [] \<or> unhex ds \<ge> 2 ^ 32 then x else word_of_nat (unhex ds))"

lemma of_char_upper_hex: "n < 16 \<Longrightarrow> of_char (upper_hex n) = (if n < 10 then 48 + n else 55 + n)"
  by (simp add: upper_hex_def)

lemma upper_hex_simps [simp]:
  "n < 16 \<Longrightarrow> is_hex (upper_hex n)" "n < 16 \<Longrightarrow> hex_value (upper_hex n) = n"
  by (auto simp: is_hex_def hex_value_def of_char_upper_hex Let_def)

lemma is_hex_others:
  "is_hex c \<Longrightarrow> \<not> is_space c" "is_hex c \<Longrightarrow> c \<noteq> CHR '':''" "is_hex c \<Longrightarrow> c \<noteq> CHR 0x0A"
  by (auto simp: is_hex_def is_space_def Let_def)

lemma uhex_digits: "list_all is_hex (uhex n)"
proof (induction n rule: uhex.induct)
  case (1 n)
  then show ?case by (subst uhex.simps) (auto simp del: uhex.simps)
qed

lemma unhex_uhex: "unhex (uhex n) = n"
proof (induction n rule: uhex.induct)
  case (1 n)
  then show ?case by (subst uhex.simps) (auto simp: unhex_def)
qed

lemma unhex_zeros: "foldl (\<lambda>a c. 16 * a + hex_value c) 0 (replicate k (CHR ''0'') @ s) = unhex s"
  by (induction k) (simp_all add: unhex_def hex_value_def)

lemma unhex_hex_pad [simp]: "unhex (hex_pad w n) = n"
  unfolding hex_pad_def unhex_def [of "_ @ _"] unhex_zeros unhex_uhex ..

lemma hex_pad_digits: "list_all is_hex (hex_pad w n)"
  using uhex_digits [of n] by (auto simp: hex_pad_def list_all_iff is_hex_def)

lemma hex_pad_no_space [simp]: "no_space (hex_pad w n)"
  using hex_pad_digits [of w n] by (auto simp: no_space_def list_all_iff is_hex_others)

lemma hex_pad_chars [simp]: "CHR '':'' \<notin> set (hex_pad w n)" "CHR 0x0A \<notin> set (hex_pad w n)"
  using hex_pad_digits [of w n] by (auto simp: list_all_iff is_hex_def)

lemma hex_pad_not_Nil [simp]: "hex_pad w n \<noteq> []"
  by (subst hex_pad_def) (simp add: uhex.simps [of n])

lemma hex_pad_inj: "hex_pad w m = hex_pad w n \<longleftrightarrow> m = n"
  by (metis unhex_hex_pad)

lemma unat_lt32: "unat (v :: uint32) < 2 ^ 32"
  using unsigned_less [of v, where ?'a = nat] by simp

lemma Sscanf_X_hex_pad: "Sscanf_X (hex_pad w (unat (v :: uint32))) x = v"
proof -
  have digits: "takeWhile is_hex (hex_pad w (unat v)) = hex_pad w (unat v)"
    using hex_pad_digits by (simp add: list_all_iff takeWhile_eq_all_conv)
  show ?thesis
    unfolding Sscanf_X_def digits Let_def using unat_lt32 [of v] by simp
qed

lemma length_uhex: "length (uhex n) \<le> k \<longleftrightarrow> n < 16 ^ k" if "0 < k"
  using that
proof (induction n arbitrary: k rule: uhex.induct)
  case (1 n)
  show ?case
  proof (cases "n < 16")
    case True
    moreover have "(16::nat) ^ 1 \<le> 16 ^ k" using 1(2) by (intro power_increasing) simp_all
    ultimately show ?thesis using 1(2) by (simp add: uhex.simps [of n])
  next
    case False
    show ?thesis
    proof (cases "k = 1")
      case True
      with False show ?thesis by (simp add: uhex.simps [of n] uhex.simps [of "n div 16"])
    next
      case k: False
      with 1(2) obtain j where j: "k = Suc j" "0 < j" by (cases k) auto
      have "length (uhex n) \<le> k \<longleftrightarrow> length (uhex (n div 16)) \<le> j"
        using False j by (simp add: uhex.simps [of n])
      also have "\<dots> \<longleftrightarrow> n div 16 < 16 ^ j" using "1.IH" [OF False j(2)] j by simp
      also have "\<dots> \<longleftrightarrow> n < 16 ^ k" using j by (simp add: div_less_iff_less_mult mult.commute)
      finally show ?thesis by simp
    qed
  qed
qed

lemma length_hex_pad: "n < 16 ^ w \<Longrightarrow> 0 < w \<Longrightarrow> length (hex_pad w n) = w"
  using length_uhex [of w n] by (simp add: hex_pad_def)

section \<open>Padding and decimals\<close>

text \<open>\<^verbatim>\<open>%-ns\<close>, by bytes.\<close>

definition pad :: "nat \<Rightarrow> string \<Rightarrow> string" where
  "pad n s = s @ replicate (n - length s) (CHR '' '')"

text \<open>\<^verbatim>\<open>%.2f\<close> of \<open>n / d\<close>, where a double holds \<open>n\<close> and the quotient exactly (below \<open>2 ^ 53\<close>): the nearest hundredth, the even
  one of two.\<close>

definition hundredths :: "nat \<Rightarrow> nat \<Rightarrow> nat" where
  "hundredths n d =
     (let q = n * 100 div d; r = n * 100 mod d
      in if 2 * r < d then q else if 2 * r > d then q + 1 else if even q then q else q + 1)"

definition fixed2 :: "nat \<Rightarrow> string" where
  "fixed2 h = dec (h div 100) @ ''.'' @ (if h mod 100 < 10 then CHR ''0'' # dec (h mod 100) else dec (h mod 100))"

text \<open>The symbols are their UTF-8 bytes.\<close>

definition sym :: "nat list \<Rightarrow> string" where "sym bs = map char_of bs"

end
