(* ===== verification/Config.thy ===== *)
theory Config
  imports NetAddr Timing Text
begin

text \<open>
  The configuration, \<^verbatim>\<open>internal/config/config.go\<close>: defaults, environment overrides,
  validation with its repairs, and the derived durations. \<open>parse_ip\<close> is \<^verbatim>\<open>net.ParseIP\<close>
  (\<open>None\<close> is nil) and \<open>lookup\<close> is the resolver behind \<^verbatim>\<open>net.LookupHost\<close> (\<open>None\<close> is an
  error); both are arguments. An error message leaves out the values
  the code quotes in it. The file system and the JSON and YAML decoders of \<^verbatim>\<open>Load\<close> are
  arguments too; a decoder is given the defaults and answers them updated.
\<close>

record config_endpoint =
  ce_IP :: string
  ce_Port :: int
  ce_Weight :: int

record PluginConfig =
  pc_Name :: string
  pc_Path :: string
  pc_Options :: "(string \<times> string) list"

record Config =
  cf_ListenHost :: string
  cf_ListenPort :: int
  cf_ConnectIP :: string
  cf_ConnectPort :: int
  cf_Endpoints :: "config_endpoint list"
  cf_BypassMethod :: string
  cf_FakeSNI :: string
  cf_FakeSNIPool :: "string list"
  cf_BrowserProfile :: string
  cf_TTLSpoof :: bool
  cf_FragmentSize :: int
  cf_FakeDelayMs :: real
  cf_MinDelayMs :: real
  cf_MaxDelayMs :: real
  cf_BypassTimeout :: real
  cf_ConnectTimeout :: real
  cf_ReadTimeout :: real
  cf_WriteTimeout :: real
  cf_JitterMs :: real
  cf_RetryLimit :: int
  cf_RetryBaseMs :: real
  cf_RetryMaxMs :: real
  cf_CircuitBreakerThreshold :: int
  cf_CircuitBreakerCooldownS :: real
  cf_RecvBuffer :: int
  cf_MaxConnections :: int
  cf_IdleTimeout :: int
  cf_RateLimit :: int
  cf_WorkerPoolSize :: int
  cf_LogLevel :: string
  cf_LogClientSNI :: bool
  cf_LogFile :: string
  cf_LogNoColor :: bool
  cf_StatsInterval :: int
  cf_PrometheusEnabled :: bool
  cf_PrometheusAddr :: string
  cf_PprofEnabled :: bool
  cf_PprofAddr :: string
  cf_InterfaceIP :: string
  cf_DomainProbeEnabled :: bool
  cf_DomainProbeInterval :: int
  cf_DomainPool :: "string list"
  cf_Plugins :: "PluginConfig list"

text \<open>The constants of the three string types.\<close>

definition bypass_methods :: "string list" where
  "bypass_methods = [''wrong_seq'', ''fragment'', ''desync'', ''multi_layer'', ''adaptive'']"

definition log_levels :: "string list" where
  "log_levels = [''debug'', ''info'', ''stealth'', ''warn'', ''error'']"

definition browser_profiles :: "string list" where
  "browser_profiles = [''chrome'', ''firefox'', ''safari'', ''edge'', ''random'']"

definition Default :: Config where
  "Default =
     \<lparr>cf_ListenHost = ''0.0.0.0'', cf_ListenPort = 40443, cf_ConnectIP = [], cf_ConnectPort = 443,
      cf_Endpoints = [], cf_BypassMethod = ''adaptive'', cf_FakeSNI = ''hcaptcha.com'',
      cf_FakeSNIPool =
        [''hcaptcha.com'', ''newassets.hcaptcha.com'', ''js.hcaptcha.com'', ''imgs.hcaptcha.com'',
         ''assets.hcaptcha.com'', ''api.hcaptcha.com'', ''analytics.hcaptcha.com'',
         ''loader.hcaptcha.com'', ''challenge-tasks.hcaptcha.com'', ''assets.vercel.com'',
         ''cdn1.vercel.com'', ''data.vercel.com'', ''go.vercel.com''],
      cf_BrowserProfile = ''random'', cf_TTLSpoof = True, cf_FragmentSize = 0,
      cf_FakeDelayMs = 1, cf_MinDelayMs = 1 / 2, cf_MaxDelayMs = 10, cf_BypassTimeout = 2,
      cf_ConnectTimeout = 5, cf_ReadTimeout = 30, cf_WriteTimeout = 30, cf_JitterMs = 3,
      cf_RetryLimit = 3, cf_RetryBaseMs = 100, cf_RetryMaxMs = 5000,
      cf_CircuitBreakerThreshold = 5, cf_CircuitBreakerCooldownS = 30, cf_RecvBuffer = 65536,
      cf_MaxConnections = 0, cf_IdleTimeout = 120, cf_RateLimit = 0, cf_WorkerPoolSize = 0,
      cf_LogLevel = ''info'', cf_LogClientSNI = True, cf_LogFile = [], cf_LogNoColor = False,
      cf_StatsInterval = 60, cf_PrometheusEnabled = False, cf_PrometheusAddr = '':9090'',
      cf_PprofEnabled = False, cf_PprofAddr = '':6060'', cf_InterfaceIP = [],
      cf_DomainProbeEnabled = True, cf_DomainProbeInterval = 300,
      cf_DomainPool =
        [''hcaptcha.com'', ''newassets.hcaptcha.com'', ''js.hcaptcha.com'', ''imgs.hcaptcha.com'',
         ''assets.hcaptcha.com'', ''api.hcaptcha.com'', ''analytics.hcaptcha.com'',
         ''loader.hcaptcha.com'', ''challenge-tasks.hcaptcha.com'', ''assets.vercel.com'',
         ''cdn1.vercel.com'', ''data.vercel.com'', ''go.vercel.com''],
      cf_Plugins = []\<rparr>"

section \<open>Environment overrides\<close>

text \<open>\<^verbatim>\<open>fmt.Sscanf(v, "%d", &x)\<close>: blanks, a sign, digits up to the first other character;
  \<open>None\<close> (and \<^verbatim>\<open>x\<close> untouched) when there is no digit or the number does not fit 64 bits.\<close>

definition digits_value :: "string \<Rightarrow> int" where
  "digits_value ds = int (undec ds)"

definition Sscanf_d :: "string \<Rightarrow> int option" where
  "Sscanf_d v =
     (let s = dropWhile (\<lambda>c. c = CHR '' '' \<or> c = CHR 0x09) v;
          neg = (s \<noteq> [] \<and> hd s = CHR ''-'');
          s = (if s \<noteq> [] \<and> (hd s = CHR ''-'' \<or> hd s = CHR ''+'') then tl s else s);
          ds = takeWhile is_digit s;
          n = (if neg then - digits_value ds else digits_value ds)
      in if ds = [] \<or> n < - (2 ^ 63) \<or> n \<ge> 2 ^ 63 then None else Some n)"

definition scan_into :: "string \<Rightarrow> int \<Rightarrow> int" where
  "scan_into v x = (case Sscanf_d v of None \<Rightarrow> x | Some n \<Rightarrow> n)"

definition applyEnvOverrides :: "(string \<Rightarrow> string) \<Rightarrow> Config \<Rightarrow> Config" where
  "applyEnvOverrides getenv cfg =
     (let v = getenv ''GHOSTNET_CONNECT_IP'';
          cfg = (if v \<noteq> [] then cfg\<lparr>cf_ConnectIP := v\<rparr> else cfg);
          v = getenv ''GHOSTNET_LISTEN_PORT'';
          cfg = (if v \<noteq> [] then cfg\<lparr>cf_ListenPort := scan_into v (cf_ListenPort cfg)\<rparr> else cfg);
          v = getenv ''GHOSTNET_LOG_LEVEL'';
          cfg = (if v \<noteq> [] then cfg\<lparr>cf_LogLevel := v\<rparr> else cfg);
          v = getenv ''GHOSTNET_FAKE_SNI'';
          cfg = (if v \<noteq> [] then cfg\<lparr>cf_FakeSNI := v\<rparr> else cfg);
          v = getenv ''GHOSTNET_MAX_CONNECTIONS'';
          cfg = (if v \<noteq> [] then cfg\<lparr>cf_MaxConnections := scan_into v (cf_MaxConnections cfg)\<rparr> else cfg);
          v = getenv ''GHOSTNET_RATE_LIMIT'';
          cfg = (if v \<noteq> [] then cfg\<lparr>cf_RateLimit := scan_into v (cf_RateLimit cfg)\<rparr> else cfg)
      in cfg)"

section \<open>Validation\<close>

text \<open>A host that is not the text of an address is replaced by its first address.\<close>

definition resolve_host ::
  "(string \<Rightarrow> bytes option) \<Rightarrow> (string \<Rightarrow> string list option) \<Rightarrow> string \<Rightarrow> string option" where
  "resolve_host parse_ip lookup h =
     (if parse_ip h = None
      then (case lookup h of None \<Rightarrow> None | Some addrs \<Rightarrow> if addrs = [] then None else Some (hd addrs))
      else Some h)"

text \<open>The loop over the endpoints, from index \<open>i\<close>. The repairs made before an error stay.\<close>

fun validate_endpoints ::
  "(string \<Rightarrow> bytes option) \<Rightarrow> (string \<Rightarrow> string list option) \<Rightarrow> nat \<Rightarrow> config_endpoint list \<Rightarrow>
   go_error option \<times> config_endpoint list" where
  "validate_endpoints parse_ip lookup i [] = (None, [])"
| "validate_endpoints parse_ip lookup i (ep # eps) =
     (case resolve_host parse_ip lookup (ce_IP ep) of
           None \<Rightarrow> (Some [''config: endpoints['' @ dec i @ ''].ip unresolvable''], ep # eps)
         | Some ip \<Rightarrow>
             (let ep' = ep\<lparr>ce_IP := ip\<rparr>
              in if ce_Port ep < 1 \<or> ce_Port ep > 65535
                 then (Some [''config: endpoints['' @ dec i @ ''].port out of range''], ep' # eps)
                 else let ep' = (if ce_Weight ep' \<le> 0 then ep'\<lparr>ce_Weight := 1\<rparr> else ep')
                      in case validate_endpoints parse_ip lookup (Suc i) eps of
                           (e, eps) \<Rightarrow> (e, ep' # eps)))"

text \<open>The repairs that cannot fail, in the order of the code: each local is the field after its
  assignment.\<close>

definition repair_fields :: "Config \<Rightarrow> Config" where
  "repair_fields c =
     (let connectPort = (if cf_ConnectPort c < 1 \<or> cf_ConnectPort c > 65535 then 443
                         else cf_ConnectPort c);
          recvBuffer = (if cf_RecvBuffer c < 4096 then 65536 else cf_RecvBuffer c);
          bypassMethod = (if cf_BypassMethod c = [] then ''adaptive'' else cf_BypassMethod c);
          fakeSNI = (if cf_FakeSNI c = [] \<and> cf_FakeSNIPool c \<noteq> [] then hd (cf_FakeSNIPool c)
                     else cf_FakeSNI c);
          retryLimit = (if cf_RetryLimit c < 0 then 0 else cf_RetryLimit c);
          threshold = (if cf_CircuitBreakerThreshold c \<le> 0 then 5
                       else cf_CircuitBreakerThreshold c);
          minDelay = (if cf_MinDelayMs c \<le> 0 then 1 / 10 else cf_MinDelayMs c);
          maxDelay = (if cf_MaxDelayMs c \<le> 0 \<or> cf_MaxDelayMs c < minDelay then 50
                      else cf_MaxDelayMs c);
          fakeDelay = (if cf_FakeDelayMs c < minDelay then minDelay else cf_FakeDelayMs c);
          fakeDelay = (if fakeDelay > maxDelay then maxDelay else fakeDelay)
      in c\<lparr>cf_ConnectPort := connectPort, cf_RecvBuffer := recvBuffer,
           cf_BypassMethod := bypassMethod, cf_FakeSNI := fakeSNI, cf_RetryLimit := retryLimit,
           cf_CircuitBreakerThreshold := threshold, cf_MinDelayMs := minDelay,
           cf_MaxDelayMs := maxDelay, cf_FakeDelayMs := fakeDelay\<rparr>)"

definition Validate ::
  "(string \<Rightarrow> bytes option) \<Rightarrow> (string \<Rightarrow> string list option) \<Rightarrow> Config \<Rightarrow> go_error option \<times> Config"
where
  "Validate parse_ip lookup c =
     (if cf_ConnectIP c = [] \<and> cf_Endpoints c = []
      then (Some [''config: connect_ip or endpoints required''], c)
      else
        case (if cf_ConnectIP c = [] then Some [] else resolve_host parse_ip lookup (cf_ConnectIP c)) of
             None \<Rightarrow> (Some [''config: connect_ip unresolvable''], c)
           | Some ip \<Rightarrow>
               (let c = (if cf_ConnectIP c = [] then c else c\<lparr>cf_ConnectIP := ip\<rparr>)
                in case validate_endpoints parse_ip lookup 0 (cf_Endpoints c) of
                     (Some e, eps) \<Rightarrow> (Some e, c\<lparr>cf_Endpoints := eps\<rparr>)
                   | (None, eps) \<Rightarrow>
                       (let c = c\<lparr>cf_Endpoints := eps\<rparr>
                        in if cf_ListenPort c < 1 \<or> cf_ListenPort c > 65535
                           then (Some [''config: listen_port out of range''], c)
                           else let c = repair_fields c;
                                    c = (if cf_Endpoints c = [] \<and> cf_ConnectIP c \<noteq> []
                                         then c\<lparr>cf_Endpoints :=
                                           [\<lparr>ce_IP = cf_ConnectIP c, ce_Port = cf_ConnectPort c,
                                             ce_Weight = 1\<rparr>]\<rparr>
                                         else c)
                                in if cf_Endpoints c = []
                                   then (Some [''config: no valid endpoints after validation''], c)
                                   else (None, c))))"

section \<open>Loading\<close>

text \<open>Line ends: \<^verbatim>\<open>\r\n\<close> and then any other \<^verbatim>\<open>\r\<close> become \<^verbatim>\<open>\n\<close>.\<close>

fun replace_crlf :: "bytes \<Rightarrow> bytes" where
  "replace_crlf (a # b # bs) =
     (if a = 13 \<and> b = 10 then 10 # replace_crlf bs else a # replace_crlf (b # bs))"
| "replace_crlf bs = bs"

definition replace_cr :: "bytes \<Rightarrow> bytes" where
  "replace_cr bs = map (\<lambda>b. if b = 13 then 10 else b) bs"

definition lower_char :: "char \<Rightarrow> char" where
  "lower_char c =
     (if 65 \<le> (of_char c :: nat) \<and> (of_char c :: nat) \<le> 90 then char_of (of_char c + 32 :: nat) else c)"

definition has_suffix :: "string \<Rightarrow> string \<Rightarrow> bool" where
  "has_suffix s suf \<longleftrightarrow> length suf \<le> length s \<and> drop (length s - length suf) s = suf"

definition is_yaml :: "string \<Rightarrow> bool" where
  "is_yaml path \<longleftrightarrow>
     (let lower = map lower_char path in has_suffix lower ''.yaml'' \<or> has_suffix lower ''.yml'')"

record load_env =
  le_read :: "string \<Rightarrow> go_error + bytes"
  le_yaml :: "bytes \<Rightarrow> Config \<Rightarrow> go_error + Config"
  le_json :: "bytes \<Rightarrow> Config \<Rightarrow> go_error + Config"
  le_getenv :: "string \<Rightarrow> string"
  le_parse_ip :: "string \<Rightarrow> bytes option"
  le_lookup :: "string \<Rightarrow> string list option"

text \<open>The two results of \<^verbatim>\<open>Load\<close>; the configuration is \<open>None\<close> for nil.\<close>

definition Load :: "load_env \<Rightarrow> string \<Rightarrow> go_error option \<times> Config option" where
  "Load env path =
     (let cfg = Default
      in case le_read env path of
           Inl e \<Rightarrow> (Some (wrap_error ''config: read'' e), None)
         | Inr raw \<Rightarrow>
             (let data = replace_crlf raw;
                  data = replace_cr data
              in case (if is_yaml path
                       then (case le_yaml env data cfg of
                               Inl e \<Rightarrow> Inl (wrap_error ''config: yaml'' e)
                             | Inr cfg \<Rightarrow> Inr cfg)
                       else (case le_json env data cfg of
                               Inl e \<Rightarrow> Inl (wrap_error ''config: json'' e)
                             | Inr cfg \<Rightarrow> Inr cfg)) of
                   Inl e \<Rightarrow> (Some e, None)
                 | Inr cfg \<Rightarrow>
                     (let cfg = applyEnvOverrides (le_getenv env) cfg
                      in case Validate (le_parse_ip env) (le_lookup env) cfg of
                           (e, cfg) \<Rightarrow> (e, Some cfg))))"

lemma replace_crlf_id [simp]: "13 \<notin> set bs \<Longrightarrow> replace_crlf bs = bs"
  by (induction bs rule: replace_crlf.induct) auto

lemma replace_cr_id [simp]: "13 \<notin> set bs \<Longrightarrow> replace_cr bs = bs"
  unfolding replace_cr_def by (intro map_idI) auto

lemma applyEnvOverrides_none [simp]: "(\<And>v. getenv v = []) \<Longrightarrow> applyEnvOverrides getenv c = c"
  by (simp add: applyEnvOverrides_def Let_def)

section \<open>Durations\<close>

definition BypassTimeoutDuration :: "Config \<Rightarrow> int" where
  "BypassTimeoutDuration c = sec_dur (cf_BypassTimeout c)"

definition ConnectTimeoutDuration :: "Config \<Rightarrow> int" where
  "ConnectTimeoutDuration c = sec_dur (cf_ConnectTimeout c)"

definition ReadTimeoutDuration :: "Config \<Rightarrow> int" where
  "ReadTimeoutDuration c = (if cf_ReadTimeout c \<le> 0 then 0 else sec_dur (cf_ReadTimeout c))"

definition WriteTimeoutDuration :: "Config \<Rightarrow> int" where
  "WriteTimeoutDuration c = (if cf_WriteTimeout c \<le> 0 then 0 else sec_dur (cf_WriteTimeout c))"

definition IdleTimeoutDuration :: "Config \<Rightarrow> int" where
  "IdleTimeoutDuration c = (if cf_IdleTimeout c \<le> 0 then 0 else cf_IdleTimeout c * Second)"

definition CircuitBreakerCooldown :: "Config \<Rightarrow> int" where
  "CircuitBreakerCooldown c = sec_dur (cf_CircuitBreakerCooldownS c)"

definition SafeCopy :: "Config \<Rightarrow> Config" where "SafeCopy c = c"

section \<open>What the repairs establish\<close>

lemma repair_fields_frame [simp]:
  "cf_ListenPort (repair_fields c) = cf_ListenPort c"
  "cf_ConnectIP (repair_fields c) = cf_ConnectIP c"
  "cf_Endpoints (repair_fields c) = cf_Endpoints c"
  by (simp_all add: repair_fields_def Let_def)

text \<open>The ranges of a repaired configuration.\<close>

definition fields_ok :: "Config \<Rightarrow> bool" where
  "fields_ok c \<longleftrightarrow>
     1 \<le> cf_ConnectPort c \<and> cf_ConnectPort c \<le> 65535 \<and> 4096 \<le> cf_RecvBuffer c \<and>
     cf_BypassMethod c \<noteq> [] \<and> (cf_FakeSNI c = [] \<longrightarrow> cf_FakeSNIPool c = [] \<or> hd (cf_FakeSNIPool c) = []) \<and>
     0 \<le> cf_RetryLimit c \<and> 0 < cf_CircuitBreakerThreshold c \<and> 0 < cf_MinDelayMs c \<and>
     0 < cf_MaxDelayMs c \<and> (cf_MaxDelayMs c < cf_MinDelayMs c \<longrightarrow> cf_MaxDelayMs c = 50) \<and>
     cf_FakeDelayMs c \<le> cf_MaxDelayMs c \<and>
     (cf_MinDelayMs c \<le> cf_MaxDelayMs c \<longrightarrow> cf_MinDelayMs c \<le> cf_FakeDelayMs c) \<and>
     (cf_MaxDelayMs c < cf_MinDelayMs c \<longrightarrow> cf_FakeDelayMs c = 50)"

lemma repair_fields_ok: "fields_ok (repair_fields c)"
  unfolding fields_ok_def by (simp add: repair_fields_def Let_def)

lemma fields_ok_endpoints [simp]: "fields_ok (c\<lparr>cf_Endpoints := eps\<rparr>) = fields_ok c"
  by (simp add: fields_ok_def)

lemma repair_fields_id:
  assumes "fields_ok c"
  shows "repair_fields c = c"
proof -
  note ok = assms [unfolded fields_ok_def]
  have e1: "(if cf_ConnectPort c < 1 \<or> cf_ConnectPort c > 65535 then 443 else cf_ConnectPort c) =
      cf_ConnectPort c" using ok by simp
  have e2: "(if cf_RecvBuffer c < 4096 then 65536 else cf_RecvBuffer c) = cf_RecvBuffer c"
    using ok by simp
  have e3: "(if cf_BypassMethod c = [] then ''adaptive'' else cf_BypassMethod c) = cf_BypassMethod c"
    using ok by simp
  have e4: "(if cf_FakeSNI c = [] \<and> cf_FakeSNIPool c \<noteq> [] then hd (cf_FakeSNIPool c)
      else cf_FakeSNI c) = cf_FakeSNI c" using ok by auto
  have e5: "(if cf_RetryLimit c < 0 then 0 else cf_RetryLimit c) = cf_RetryLimit c" using ok by simp
  have e6: "(if cf_CircuitBreakerThreshold c \<le> 0 then 5 else cf_CircuitBreakerThreshold c) =
      cf_CircuitBreakerThreshold c" using ok by simp
  have e7: "(if cf_MinDelayMs c \<le> 0 then 1 / 10 else cf_MinDelayMs c) = cf_MinDelayMs c"
    using ok by simp
  have e8: "(if cf_MaxDelayMs c \<le> 0 \<or> cf_MaxDelayMs c < cf_MinDelayMs c then 50
      else cf_MaxDelayMs c) = cf_MaxDelayMs c" using ok by auto
  have e9: "(if (if cf_FakeDelayMs c < cf_MinDelayMs c then cf_MinDelayMs c else cf_FakeDelayMs c) >
        cf_MaxDelayMs c then cf_MaxDelayMs c
      else if cf_FakeDelayMs c < cf_MinDelayMs c then cf_MinDelayMs c else cf_FakeDelayMs c) =
      cf_FakeDelayMs c" using ok by auto
  show ?thesis
    unfolding repair_fields_def Let_def e1 e2 e3 e4 e5 e6 e7 e8 e9 by simp
qed

definition endpoint_ok :: "(string \<Rightarrow> bytes option) \<Rightarrow> config_endpoint \<Rightarrow> bool" where
  "endpoint_ok parse_ip ep \<longleftrightarrow>
     parse_ip (ce_IP ep) \<noteq> None \<and> 1 \<le> ce_Port ep \<and> ce_Port ep \<le> 65535 \<and> 0 < ce_Weight ep"

text \<open>What is assumed of the resolver: the addresses it gives are texts of addresses.\<close>

definition resolver_ok :: "(string \<Rightarrow> bytes option) \<Rightarrow> (string \<Rightarrow> string list option) \<Rightarrow> bool" where
  "resolver_ok parse_ip lookup \<longleftrightarrow>
     (\<forall>h addrs. lookup h = Some addrs \<longrightarrow> (\<forall>a \<in> set addrs. parse_ip a \<noteq> None))"

lemma resolve_host_ok:
  "resolver_ok parse_ip lookup \<Longrightarrow> resolve_host parse_ip lookup h = Some ip \<Longrightarrow> parse_ip ip \<noteq> None"
  by (auto simp: resolver_ok_def resolve_host_def split: if_splits option.splits)

lemma validate_endpoints_ok:
  assumes "resolver_ok parse_ip lookup"
  shows "validate_endpoints parse_ip lookup i eps = (None, eps') \<Longrightarrow>
     length eps' = length eps \<and> (\<forall>ep \<in> set eps'. endpoint_ok parse_ip ep)"
proof (induction eps arbitrary: i eps')
  case Nil
  then show ?case by simp
next
  case (Cons ep eps)
  from Cons.prems obtain ip where ip: "resolve_host parse_ip lookup (ce_IP ep) = Some ip"
    by (cases "resolve_host parse_ip lookup (ce_IP ep)") auto
  with Cons.prems have port: "1 \<le> ce_Port ep" "ce_Port ep \<le> 65535"
    by (auto simp: Let_def split: if_splits)
  with Cons.prems ip obtain eps1 where
      rest: "validate_endpoints parse_ip lookup (Suc i) eps = (None, eps1)"
      and eps': "eps' = (let ep' = ep\<lparr>ce_IP := ip\<rparr>
         in if ce_Weight ep' \<le> 0 then ep'\<lparr>ce_Weight := 1\<rparr> else ep') # eps1"
    by (auto simp: Let_def split: prod.splits)
  from Cons.IH [OF rest] resolve_host_ok [OF assms ip] port eps' show ?case
    by (simp add: endpoint_ok_def Let_def)
qed

lemma validate_endpoints_id:
  "\<forall>ep \<in> set eps. endpoint_ok parse_ip ep \<Longrightarrow> validate_endpoints parse_ip lookup i eps = (None, eps)"
  by (induction eps arbitrary: i) (auto simp: endpoint_ok_def resolve_host_def Let_def)

section \<open>Validation\<close>

text \<open>What a validated configuration satisfies.\<close>

definition config_ok :: "(string \<Rightarrow> bytes option) \<Rightarrow> Config \<Rightarrow> bool" where
  "config_ok parse_ip c \<longleftrightarrow>
     cf_Endpoints c \<noteq> [] \<and> (\<forall>ep \<in> set (cf_Endpoints c). endpoint_ok parse_ip ep) \<and>
     (cf_ConnectIP c \<noteq> [] \<longrightarrow> parse_ip (cf_ConnectIP c) \<noteq> None) \<and>
     1 \<le> cf_ListenPort c \<and> cf_ListenPort c \<le> 65535 \<and> fields_ok c"

lemma Validate_ok:
  assumes res: "resolver_ok parse_ip lookup" and ok: "Validate parse_ip lookup c = (None, c')"
  shows "config_ok parse_ip c'"
proof -
  obtain ip where ip: "(if cf_ConnectIP c = [] then Some []
      else resolve_host parse_ip lookup (cf_ConnectIP c)) = Some ip"
    using ok by (auto simp: Validate_def split: if_splits option.splits)
  obtain eps where eps: "validate_endpoints parse_ip lookup 0 (cf_Endpoints c) = (None, eps)"
    using ok ip by (auto simp: Validate_def Let_def split: if_splits prod.splits option.splits)
  have port: "1 \<le> cf_ListenPort c" "cf_ListenPort c \<le> 65535"
    using ok ip eps by (auto simp: Validate_def Let_def split: if_splits)
  define c0 where "c0 = (if cf_ConnectIP c = [] then c else c\<lparr>cf_ConnectIP := ip\<rparr>)"
  have c0: "cf_ConnectIP c0 = ip" "cf_Endpoints c0 = cf_Endpoints c" "cf_ListenPort c0 = cf_ListenPort c"
    using ip by (auto simp: c0_def)
  let ?c = "repair_fields (c0\<lparr>cf_Endpoints := eps\<rparr>)"
  let ?single = "[\<lparr>ce_IP = ip, ce_Port = cf_ConnectPort ?c, ce_Weight = 1\<rparr>]"
  have c': "c' = (if eps = [] \<and> ip \<noteq> [] then ?c\<lparr>cf_Endpoints := ?single\<rparr> else ?c)"
    and ne: "eps = [] \<longrightarrow> ip \<noteq> []"
    using ok ip eps port c0
    by (auto simp: Validate_def Let_def c0_def [symmetric] split: if_splits)
  have fields: "fields_ok ?c" by (rule repair_fields_ok)
  have fields': "fields_ok c'" unfolding c' by (simp add: repair_fields_ok)
  have parsed: "ip \<noteq> [] \<longrightarrow> parse_ip ip \<noteq> None"
    using ip resolve_host_ok [OF res] by (auto split: if_splits)
  have "\<forall>ep \<in> set eps. endpoint_ok parse_ip ep"
    using validate_endpoints_ok [OF res eps] by blast
  moreover have "endpoint_ok parse_ip \<lparr>ce_IP = ip, ce_Port = cf_ConnectPort ?c, ce_Weight = 1\<rparr>"
    if "ip \<noteq> []" using that parsed fields by (simp add: endpoint_ok_def fields_ok_def)
  ultimately show ?thesis
    using ne parsed port fields' c0 unfolding config_ok_def c' by auto
qed

lemma Validate_id:
  assumes "config_ok parse_ip c"
  shows "Validate parse_ip lookup c = (None, c)"
proof -
  have "cf_ConnectIP c \<noteq> [] \<Longrightarrow> resolve_host parse_ip lookup (cf_ConnectIP c) = Some (cf_ConnectIP c)"
    using assms by (auto simp: config_ok_def resolve_host_def)
  moreover have "validate_endpoints parse_ip lookup 0 (cf_Endpoints c) = (None, cf_Endpoints c)"
    using assms by (intro validate_endpoints_id) (simp add: config_ok_def)
  moreover have "repair_fields c = c"
    using assms by (intro repair_fields_id) (simp add: config_ok_def)
  ultimately show ?thesis
    using assms unfolding config_ok_def
    by (cases "cf_ConnectIP c = []") (simp_all add: Validate_def Let_def)
qed

text \<open>C34. Validation establishes what the rest of the program relies on, and is idempotent. With a
  resolver that gives addresses, a configuration that \<^verbatim>\<open>Validate\<close> accepts has at least one
  endpoint, every endpoint with an address, a port in 1..65535 and a positive weight, a listening
  port in range, and repaired limits; validating it again accepts it and changes nothing.\<close>

theorem Validate_establishes:
  assumes "resolver_ok parse_ip lookup" and "Validate parse_ip lookup c = (None, c')"
  shows "cf_Endpoints c' \<noteq> [] \<and>
    (\<forall>ep \<in> set (cf_Endpoints c'). parse_ip (ce_IP ep) \<noteq> None \<and> 1 \<le> ce_Port ep \<and>
       ce_Port ep \<le> 65535 \<and> 0 < ce_Weight ep) \<and>
    1 \<le> cf_ListenPort c' \<and> cf_ListenPort c' \<le> 65535 \<and>
    1 \<le> cf_ConnectPort c' \<and> cf_ConnectPort c' \<le> 65535 \<and> 4096 \<le> cf_RecvBuffer c' \<and>
    0 \<le> cf_RetryLimit c' \<and> 0 < cf_CircuitBreakerThreshold c' \<and>
    0 < cf_MinDelayMs c' \<and> cf_FakeDelayMs c' \<le> cf_MaxDelayMs c' \<and>
    Validate parse_ip lookup c' = (None, c')"
  using Validate_ok [OF assms] Validate_id [of parse_ip c' lookup]
  unfolding config_ok_def fields_ok_def endpoint_ok_def by blast

definition sample_config :: Config where
  "sample_config = Default\<lparr>cf_ConnectIP := ''h'', cf_MinDelayMs := 80\<rparr>"

definition sample_parse_ip :: "string \<Rightarrow> bytes option" where
  "sample_parse_ip h = (if h = ''1.2.3.4'' then Some [1, 2, 3, 4] else None)"

definition sample_lookup :: "string \<Rightarrow> string list option" where
  "sample_lookup h = (if h = ''h'' then Some [''1.2.3.4''] else None)"

lemma sample_resolver_ok: "resolver_ok sample_parse_ip sample_lookup"
  by (simp add: resolver_ok_def sample_lookup_def sample_parse_ip_def)

lemma sample_Validate:
  "Validate sample_parse_ip sample_lookup sample_config =
     (None, sample_config\<lparr>cf_ConnectIP := ''1.2.3.4'', cf_MaxDelayMs := 50, cf_FakeDelayMs := 50,
        cf_Endpoints := [\<lparr>ce_IP = ''1.2.3.4'', ce_Port = 443, ce_Weight = 1\<rparr>]\<rparr>)"
  by (simp add: Validate_def resolve_host_def sample_config_def sample_parse_ip_def
      sample_lookup_def Default_def repair_fields_def Let_def)

theorem Validate_establishes_witness:
  "\<exists>c'. Validate sample_parse_ip sample_lookup sample_config = (None, c') \<and>
     cf_Endpoints c' \<noteq> [] \<and> Validate sample_parse_ip sample_lookup c' = (None, c')"
  using Validate_establishes [OF sample_resolver_ok sample_Validate] sample_Validate by blast

text \<open>The delay window of a validated configuration can be empty. \<^verbatim>\<open>Validate\<close> replaces a
  maximum below the minimum by 50 ms without looking at the minimum again: the accepted configuration has
  \<open>MinDelayMs \<le> FakeDelayMs \<le> MaxDelayMs\<close> exactly when its minimum is at most its maximum, and
  otherwise the minimum is above 50 and both other delays are 50.\<close>

theorem Validate_delay_window:
  assumes "resolver_ok parse_ip lookup" and "Validate parse_ip lookup c = (None, c')"
  shows "if cf_MinDelayMs c' \<le> cf_MaxDelayMs c'
    then cf_MinDelayMs c' \<le> cf_FakeDelayMs c' \<and> cf_FakeDelayMs c' \<le> cf_MaxDelayMs c'
    else 50 < cf_MinDelayMs c' \<and> cf_MaxDelayMs c' = 50 \<and> cf_FakeDelayMs c' = 50"
  using Validate_ok [OF assms] unfolding config_ok_def fields_ok_def by auto

theorem Validate_delay_window_witness:
  "\<exists>c'. Validate sample_parse_ip sample_lookup sample_config = (None, c') \<and>
     cf_MinDelayMs c' = 80 \<and> cf_MaxDelayMs c' = 50"
  using Validate_delay_window [OF sample_resolver_ok sample_Validate] sample_Validate
  by (auto simp: sample_config_def)

end
