(* ===== verification/Metrics.thy ===== *)
theory Metrics
  imports Timing Text "HOL-Library.Char_ord" "HOL-Library.List_Lexorder"
begin

text \<open>
  The metrics collector, \<^verbatim>\<open>internal/metrics/collector.go\<close>: the ring of recent latencies and
  its percentiles, the counters, the per-strategy and per-SNI counts. Counters are \<open>int\<close> (the
  \<^verbatim>\<open>int64\<close> wrap is not modelled). The index \<^verbatim>\<open>int(float64(n)*0.95)\<close> is \<open>n * 95 div 100\<close>
  and likewise for 0.50 and 0.99: for every \<open>n\<close> up to the window size the double product rounds to
  a value with that integer part. A Go map is a partial function, and the order in which
  \<^verbatim>\<open>range\<close> visits it is an argument, a list of its keys. \<open>Prometheus\<close> holds the handler of
  the metrics page.
\<close>

section \<open>The latency window\<close>

definition latencyWindowSize :: nat where "latencyWindowSize = 1024"

record latencyWindow =
  lw_samples :: "int list"
  lw_pos :: nat
  lw_full :: bool

definition newLatencyWindow :: latencyWindow where
  "newLatencyWindow =
     \<lparr>lw_samples = replicate latencyWindowSize 0, lw_pos = 0, lw_full = False\<rparr>"

definition lw_record :: "int \<Rightarrow> latencyWindow \<Rightarrow> latencyWindow" where
  "lw_record ms w =
     (let w = w\<lparr>lw_samples := (lw_samples w)[lw_pos w := ms]\<rparr>;
          w = w\<lparr>lw_pos := (lw_pos w + 1) mod latencyWindowSize\<rparr>
      in if lw_pos w = 0 then w\<lparr>lw_full := True\<rparr> else w)"

definition percentiles :: "int slice_sort \<Rightarrow> latencyWindow \<Rightarrow> (int \<times> int \<times> int) option" where
  "percentiles srt w =
     (let n = (if \<not> lw_full w then lw_pos w else latencyWindowSize)
      in if n = 0 then Some (0, 0, 0)
         else do {
           tmp \<leftarrow> go_slice (lw_samples w) 0 n;
           let tmp = srt (<) tmp;
           p50 \<leftarrow> go_at tmp (n * 50 div 100);
           p95 \<leftarrow> go_at tmp (n * 95 div 100);
           p99 \<leftarrow> go_at tmp (min (n * 99 div 100) (n - 1));
           Some (p50, p95, p99)
         })"

section \<open>The collector\<close>

record strategyCounters =
  sc_ok :: int
  sc_fail :: int

record Collector =
  mc_activeConns :: int
  mc_totalConns :: int
  mc_failedConns :: int
  mc_bypassOK :: int
  mc_bypassFail :: int
  mc_relayActive :: int
  mc_bytesIn :: int
  mc_bytesOut :: int
  mc_latency :: latencyWindow
  mc_strategies :: "string \<rightharpoonup> strategyCounters"
  mc_sniMap :: "string \<rightharpoonup> int"
  mc_startTime :: int
  mc_promEnabled :: bool
  mc_promAddr :: string

definition Metrics_New :: "bool \<Rightarrow> string \<Rightarrow> int \<Rightarrow> Collector" where
  "Metrics_New promEnabled promAddr now =
     \<lparr>mc_activeConns = 0, mc_totalConns = 0, mc_failedConns = 0, mc_bypassOK = 0,
      mc_bypassFail = 0, mc_relayActive = 0, mc_bytesIn = 0, mc_bytesOut = 0,
      mc_latency = newLatencyWindow, mc_strategies = Map.empty, mc_sniMap = Map.empty,
      mc_startTime = now, mc_promEnabled = promEnabled, mc_promAddr = promAddr\<rparr>"

definition ConnOpened :: "Collector \<Rightarrow> Collector" where
  "ConnOpened c = c\<lparr>mc_activeConns := mc_activeConns c + 1, mc_totalConns := mc_totalConns c + 1\<rparr>"

definition ConnClosed :: "Collector \<Rightarrow> Collector" where
  "ConnClosed c = c\<lparr>mc_activeConns := mc_activeConns c + -1\<rparr>"

definition ConnFailed :: "Collector \<Rightarrow> Collector" where
  "ConnFailed c = c\<lparr>mc_failedConns := mc_failedConns c + 1, mc_activeConns := mc_activeConns c + -1\<rparr>"

definition RelayStarted :: "Collector \<Rightarrow> Collector" where
  "RelayStarted c = c\<lparr>mc_relayActive := mc_relayActive c + 1\<rparr>"

definition RelayDone :: "Collector \<Rightarrow> Collector" where
  "RelayDone c = c\<lparr>mc_relayActive := mc_relayActive c + -1\<rparr>"

definition BypassOK :: "Collector \<Rightarrow> Collector" where
  "BypassOK c = c\<lparr>mc_bypassOK := mc_bypassOK c + 1\<rparr>"

definition BypassFailed :: "Collector \<Rightarrow> Collector" where
  "BypassFailed c = c\<lparr>mc_bypassFail := mc_bypassFail c + 1\<rparr>"

definition AddBytesIn :: "int \<Rightarrow> Collector \<Rightarrow> Collector" where
  "AddBytesIn n c = c\<lparr>mc_bytesIn := mc_bytesIn c + n\<rparr>"

definition AddBytesOut :: "int \<Rightarrow> Collector \<Rightarrow> Collector" where
  "AddBytesOut n c = c\<lparr>mc_bytesOut := mc_bytesOut c + n\<rparr>"

text \<open>\<^verbatim>\<open>d.Milliseconds()\<close> of a duration that is not negative.\<close>

definition RecordLatency :: "int \<Rightarrow> Collector \<Rightarrow> Collector" where
  "RecordLatency d c = c\<lparr>mc_latency := lw_record (d div Millisecond) (mc_latency c)\<rparr>"

definition RecordBypassStrategy :: "string \<Rightarrow> bool \<Rightarrow> Collector \<Rightarrow> Collector" where
  "RecordBypassStrategy strategy ok c =
     (let sc = (case mc_strategies c strategy of Some sc \<Rightarrow> sc
                | None \<Rightarrow> \<lparr>sc_ok = 0, sc_fail = 0\<rparr>);
          sc = (if ok then sc\<lparr>sc_ok := sc_ok sc + 1\<rparr> else sc\<lparr>sc_fail := sc_fail sc + 1\<rparr>)
      in c\<lparr>mc_strategies := (mc_strategies c)(strategy \<mapsto> sc)\<rparr>)"

definition RecordSNI :: "string \<Rightarrow> Collector \<Rightarrow> Collector" where
  "RecordSNI sni c =
     (let n = (case mc_sniMap c sni of Some n \<Rightarrow> n | None \<Rightarrow> 0)
      in c\<lparr>mc_sniMap := (mc_sniMap c)(sni \<mapsto> n + 1)\<rparr>)"

definition TopSNIs :: "(string \<times> int) slice_sort \<Rightarrow> string list \<Rightarrow> int \<Rightarrow> Collector \<Rightarrow> (string \<times> int) list"
where
  "TopSNIs srt order n c =
     (let counts = map (\<lambda>sni. (sni, the (mc_sniMap c sni))) order;
          counts = srt (\<lambda>x y. snd x > snd y) counts
      in if n > 0 \<and> int (length counts) > n then take (nat n) counts else counts)"

record StrategyStats =
  st_Name :: string
  st_OK :: int
  st_Fail :: int

definition strategyStats :: "StrategyStats slice_sort \<Rightarrow> string list \<Rightarrow> Collector \<Rightarrow> StrategyStats list" where
  "strategyStats srt order c =
     srt (\<lambda>x y. st_Name x < st_Name y)
       (map (\<lambda>name. let sc = the (mc_strategies c name)
                    in \<lparr>st_Name = name, st_OK = sc_ok sc, st_Fail = sc_fail sc\<rparr>) order)"

text \<open>\<^verbatim>\<open>fmtDur\<close> of a duration that is not negative, on whole seconds.\<close>

definition dec2 :: "nat \<Rightarrow> string" where
  "dec2 n = (if n < 10 then CHR ''0'' # dec n else dec n)"

definition fmtDur :: "nat \<Rightarrow> string" where
  "fmtDur d =
     (let h = d div (3600 * nat Second); m = (d div (60 * nat Second)) mod 60;
          s = (d div nat Second) mod 60
      in if h > 0 then dec h @ ''h'' @ dec2 m @ ''m'' @ dec2 s @ ''s''
         else if m > 0 then dec m @ ''m'' @ dec2 s @ ''s''
         else dec s @ ''s'')"

section \<open>Snapshots\<close>

definition fmtBytes :: "int \<Rightarrow> string" where
  "fmtBytes n =
     (if n \<ge> 2 ^ 30 then fixed2 (hundredths (nat n) (2 ^ 30)) @ ''GB''
      else if n \<ge> 2 ^ 20 then fixed2 (hundredths (nat n) (2 ^ 20)) @ ''MB''
      else if n \<ge> 2 ^ 10 then fixed2 (hundredths (nat n) (2 ^ 10)) @ ''KB''
      else dec_int n @ ''B'')"

record Snapshot =
  sn_ActiveConns :: int
  sn_TotalConns :: int
  sn_FailedConns :: int
  sn_BypassOK :: int
  sn_BypassFail :: int
  sn_RelayActive :: int
  sn_BytesIn :: int
  sn_BytesOut :: int
  sn_LatP50Ms :: int
  sn_LatP95Ms :: int
  sn_LatP99Ms :: int
  sn_Uptime :: int
  sn_TopSNIs :: "(string \<times> int) list"
  sn_Strategies :: "StrategyStats list"

text \<open>The sorts of the three slices, and the orders in which the two maps are visited, are
  arguments. Nothing else happens between the reads.\<close>

definition Metrics_Snapshot ::
  "int slice_sort \<Rightarrow> (string \<times> int) slice_sort \<Rightarrow> StrategyStats slice_sort \<Rightarrow> string list \<Rightarrow>
   string list \<Rightarrow> int \<Rightarrow> Collector \<Rightarrow> Snapshot option" where
  "Metrics_Snapshot srt srt_sni srt_st snis names now c =
     do {
       (p50, p95, p99) \<leftarrow> percentiles srt (mc_latency c);
       Some
         \<lparr>sn_ActiveConns = mc_activeConns c, sn_TotalConns = mc_totalConns c,
          sn_FailedConns = mc_failedConns c, sn_BypassOK = mc_bypassOK c,
          sn_BypassFail = mc_bypassFail c, sn_RelayActive = mc_relayActive c,
          sn_BytesIn = mc_bytesIn c, sn_BytesOut = mc_bytesOut c,
          sn_LatP50Ms = p50, sn_LatP95Ms = p95, sn_LatP99Ms = p99,
          sn_Uptime = now - mc_startTime c, sn_TopSNIs = TopSNIs srt_sni snis 10 c,
          sn_Strategies = strategyStats srt_st names c\<rparr>
     }"

text \<open>\<^verbatim>\<open>%.0f\<close> of a whole number of milliseconds is its decimal text.\<close>

definition Snapshot_String :: "Snapshot \<Rightarrow> string" where
  "Snapshot_String s =
     ''uptime='' @ pad 10 (fmtDur (nat (sn_Uptime s))) @ ''  total='' @ pad 6 (dec_int (sn_TotalConns s)) @
     ''  active='' @ pad 4 (dec_int (sn_ActiveConns s)) @ ''  failed='' @ pad 4 (dec_int (sn_FailedConns s)) @
     ''  bypass_ok='' @ pad 6 (dec_int (sn_BypassOK s)) @ ''  bypass_fail='' @
     pad 4 (dec_int (sn_BypassFail s)) @ ''  p50='' @ dec_int (sn_LatP50Ms s) @ ''ms  p95='' @
     dec_int (sn_LatP95Ms s) @ ''ms  p99='' @ dec_int (sn_LatP99Ms s) @ ''ms  in='' @
     fmtBytes (sn_BytesIn s) @ ''  out='' @ fmtBytes (sn_BytesOut s)"

definition ActiveConns :: "Collector \<Rightarrow> int" where "ActiveConns c = mc_activeConns c"

definition TotalConns :: "Collector \<Rightarrow> int" where "TotalConns c = mc_totalConns c"

section \<open>The ring holds the latest samples\<close>

text \<open>The ring read from its oldest slot.\<close>

definition ring :: "latencyWindow \<Rightarrow> int list" where
  "ring w = drop (lw_pos w) (lw_samples w) @ take (lw_pos w) (lw_samples w)"

definition lw_ok :: "latencyWindow \<Rightarrow> bool" where
  "lw_ok w \<longleftrightarrow> length (lw_samples w) = latencyWindowSize \<and> lw_pos w < latencyWindowSize"

lemma lw_ok_new [simp]: "lw_ok newLatencyWindow"
  by (simp add: lw_ok_def newLatencyWindow_def latencyWindowSize_def)

lemma lw_record_ring:
  assumes "lw_ok w"
  shows "lw_ok (lw_record ms w) \<and> ring (lw_record ms w) = tl (ring w) @ [ms]"
proof -
  let ?s = "lw_samples w" and ?p = "lw_pos w"
  have len: "length ?s = latencyWindowSize" and p: "?p < latencyWindowSize"
    using assms by (simp_all add: lw_ok_def)
  let ?s' = "?s[?p := ms]"
  have upd: "lw_samples (lw_record ms w) = ?s'"
    "lw_pos (lw_record ms w) = (?p + 1) mod latencyWindowSize"
    by (simp_all add: lw_record_def Let_def)
  have dr: "drop ?p ?s = ?s ! ?p # drop (Suc ?p) ?s"
    using len p by (simp add: Cons_nth_drop_Suc)
  have "drop (Suc ?p) ?s' @ take (Suc ?p) ?s' = tl (ring w) @ [ms]"
    using len p by (simp add: ring_def dr take_Suc_conv_app_nth)
  moreover have "ring (lw_record ms w) = drop (Suc ?p) ?s' @ take (Suc ?p) ?s'"
  proof (cases "Suc ?p = latencyWindowSize")
    case True
    then show ?thesis using len by (simp add: ring_def upd)
  next
    case False
    then have "(?p + 1) mod latencyWindowSize = Suc ?p" using p by simp
    then show ?thesis by (simp add: ring_def upd)
  qed
  moreover have "lw_ok (lw_record ms w)"
    using len by (simp add: lw_ok_def upd latencyWindowSize_def)
  ultimately show ?thesis by simp
qed

lemma lw_record_count:
  "lw_pos w = k mod latencyWindowSize \<Longrightarrow> lw_full w = (k \<ge> latencyWindowSize) \<Longrightarrow>
     lw_pos (lw_record ms w) = Suc k mod latencyWindowSize \<and>
     lw_full (lw_record ms w) = (Suc k \<ge> latencyWindowSize)"
  by (auto simp: lw_record_def Let_def latencyWindowSize_def mod_Suc)

text \<open>The latest samples of a history.\<close>

definition latest :: "int list \<Rightarrow> int list" where
  "latest hs = drop (length hs - latencyWindowSize) hs"

lemma tl_drop_snoc: "n < length xs \<Longrightarrow> tl (drop n xs) @ [h] = drop (Suc n) (xs @ [h])"
  by (simp add: tl_drop drop_Suc [symmetric])

lemma lw_history:
  "let w = fold lw_record hs newLatencyWindow in
     lw_ok w \<and> ring w = drop (length hs) (replicate latencyWindowSize 0 @ hs) \<and>
     lw_pos w = length hs mod latencyWindowSize \<and> lw_full w = (length hs \<ge> latencyWindowSize)"
proof (induction hs rule: rev_induct)
  case Nil
  then show ?case
    by (simp add: ring_def newLatencyWindow_def lw_ok_def latencyWindowSize_def)
next
  case (snoc h hs)
  define w where "w = fold lw_record hs newLatencyWindow"
  have w: "lw_ok w" "ring w = drop (length hs) (replicate latencyWindowSize 0 @ hs)"
    "lw_pos w = length hs mod latencyWindowSize" "lw_full w = (length hs \<ge> latencyWindowSize)"
    using snoc by (simp_all add: w_def Let_def)
  have "tl (ring w) @ [h] = drop (length (hs @ [h])) (replicate latencyWindowSize 0 @ hs @ [h])"
    unfolding w(2)
    using tl_drop_snoc [of "length hs" "replicate latencyWindowSize 0 @ hs" h]
    by (simp del: drop_append add: latencyWindowSize_def)
  with lw_record_ring [OF w(1), of h] lw_record_count [OF w(3,4), of h] show ?case
    by (simp add: w_def Let_def)
qed

text \<open>The samples the percentiles are taken from are the latest ones, as a multiset.\<close>

lemma window_contents:
  assumes "w = fold lw_record hs newLatencyWindow"
  defines "n \<equiv> (if \<not> lw_full w then lw_pos w else latencyWindowSize)"
  shows "n = min (length hs) latencyWindowSize \<and> n \<le> length (lw_samples w) \<and>
    mset (take n (lw_samples w)) = mset (latest hs)"
proof -
  have w: "lw_ok w" "ring w = drop (length hs) (replicate latencyWindowSize 0 @ hs)"
    "lw_pos w = length hs mod latencyWindowSize" "lw_full w = (length hs \<ge> latencyWindowSize)"
    using lw_history [of hs] assms(1) by (simp_all add: Let_def)
  have len: "length (lw_samples w) = latencyWindowSize" using w(1) by (simp add: lw_ok_def)
  show ?thesis
  proof (cases "length hs \<ge> latencyWindowSize")
    case True
    then have n: "n = latencyWindowSize" using w(4) by (simp add: n_def)
    have "mset (lw_samples w) = mset (ring w)"
      by (metis append_take_drop_id mset_append ring_def union_commute)
    also have "ring w = latest hs" using True by (simp add: w(2) latest_def)
    finally show ?thesis using True n len by simp
  next
    case False
    then have pos: "lw_pos w = length hs" using w(3) by simp
    then have n: "n = length hs" using False w(4) by (simp add: n_def)
    have ring: "ring w = drop (length hs) (replicate latencyWindowSize 0) @ hs"
      using False by (simp add: w(2))
    have "take (length hs) (lw_samples w) = drop (latencyWindowSize - length hs) (ring w)"
      using False len by (simp add: ring_def pos)
    also have "\<dots> = hs" using False by (simp add: ring)
    finally show ?thesis using False n len by (simp add: latest_def)
  qed
qed

lemma sorted_strict_int: "strict_weak ((<) :: int \<Rightarrow> int \<Rightarrow> bool)"
  by (rule strict_weakI) auto

context slice_sorter
begin

text \<open>On a linear order there is only one sorted list, so instability does not show.\<close>

lemma srt_eq_sort:
  fixes f :: "'a \<Rightarrow> int"
  assumes "\<And>x y. lt x y \<longleftrightarrow> f x < f y"
  shows "map f (srt lt xs) = sort (map f xs)"
proof (rule sym, rule properties_for_sort)
  show "mset (map f (srt lt xs)) = mset (map f xs)" by (simp add: mset_srt)
  have "strict_weak lt" using assms by (intro strict_weakI) auto
  from ordered_srt [OF this, of xs] show "sorted (map f (srt lt xs))"
    by (simp add: sorted_map assms not_less)
qed

end

text \<open>C38. The percentiles are those of the latest samples. For every sort that meets the contract of
  \<^verbatim>\<open>sort.Slice\<close> and every history of recorded latencies: with \<open>s\<close> the sorted list of the last
  1024 samples (all of them while there are fewer) and \<open>n\<close> its length, the ring never panics and
  reports elements \<open>n * 50 div 100\<close>, \<open>n * 95 div 100\<close> and \<open>n * 99 div 100\<close> of
  \<open>s\<close> (three zeros when nothing was recorded), in ascending order.\<close>

theorem percentiles_latest:
  assumes "slice_sorter srt"
  shows "percentiles srt (fold lw_record hs newLatencyWindow) =
      (let s = sort (latest hs); n = length s
       in if n = 0 then Some (0, 0, 0)
          else Some (s ! (n * 50 div 100), s ! (n * 95 div 100), s ! (n * 99 div 100))) \<and>
    (\<forall>p50 p95 p99. percentiles srt (fold lw_record hs newLatencyWindow) = Some (p50, p95, p99) \<longrightarrow>
       p50 \<le> p95 \<and> p95 \<le> p99)"
proof -
  define w where "w = fold lw_record hs newLatencyWindow"
  define n where "n = (if \<not> lw_full w then lw_pos w else latencyWindowSize)"
  note win = window_contents [OF w_def, folded n_def]
  define s where "s = sort (latest hs)"
  have len: "length s = n" using win by (auto simp: s_def latest_def)
  have "srt (<) (take n (lw_samples w)) = sort (take n (lw_samples w))"
    using slice_sorter.srt_eq_sort [OF assms, of "(<)" id] by simp
  also have "\<dots> = s"
    unfolding s_def
  proof (rule properties_for_sort)
    show "mset (sort (latest hs)) = mset (take n (lw_samples w))"
      using win by (metis mset_sort)
  qed simp
  finally have sorted_tmp: "srt (<) (take n (lw_samples w)) = s" .
  have eval: "percentiles srt w = (if n = 0 then Some (0, 0, 0)
      else Some (s ! (n * 50 div 100), s ! (n * 95 div 100), s ! (n * 99 div 100)))"
  proof (cases "n = 0")
    case False
    then have "n * 50 div 100 < n" "n * 95 div 100 < n" "min (n * 99 div 100) (n - 1) = n * 99 div 100"
      by linarith+
    moreover have "go_slice (lw_samples w) 0 n = Some (take n (lw_samples w))"
      using win by (simp add: go_slice_def)
    ultimately show ?thesis
      using False len by (simp add: percentiles_def n_def [symmetric] Let_def sorted_tmp)
  qed (simp add: percentiles_def n_def [symmetric])
  have "s ! (n * 50 div 100) \<le> s ! (n * 95 div 100) \<and> s ! (n * 95 div 100) \<le> s ! (n * 99 div 100)"
    if "n \<noteq> 0"
  proof -
    have "sorted s" by (simp add: s_def)
    moreover have "n * 50 div 100 \<le> n * 95 div 100" "n * 95 div 100 \<le> n * 99 div 100"
      by (intro div_le_mono, simp)+
    moreover have "n * 99 div 100 < length s" using that unfolding len by linarith
    ultimately show ?thesis by (meson le_less_trans sorted_nth_mono)
  qed
  then show ?thesis
    unfolding w_def [symmetric] s_def [symmetric] Let_def len eval by simp
qed

theorem percentiles_latest_witness:
  "percentiles insertion_sort (fold lw_record [30, 10, 20] newLatencyWindow) = Some (20, 30, 30)"
  using conjunct1 [OF percentiles_latest [OF small_sort.slice_sorter_axioms, of "[30, 10, 20]"]]
  by (simp add: latest_def latencyWindowSize_def Let_def)

section \<open>Strategies and server names\<close>

lemma RecordBypassStrategy_history:
  "mc_strategies (fold (\<lambda>(s, ok). RecordBypassStrategy s ok) calls (Metrics_New prom addr now)) name =
     (if name \<in> fst ` set calls
      then Some \<lparr>sc_ok = int (count_list calls (name, True)),
                 sc_fail = int (count_list calls (name, False))\<rparr>
      else None)"
proof (induction calls arbitrary: name rule: rev_induct)
  case Nil
  then show ?case by (simp add: Metrics_New_def)
next
  case (snoc call calls)
  obtain s ok where call: "call = (s, ok)" by (cases call)
  have "count_list calls (s, b) = 0" if "s \<notin> fst ` set calls" for b
    using that by (force simp: count_list_0_iff)
  with snoc.IH [of s] snoc.IH [of name] show ?case
    by (auto simp: call RecordBypassStrategy_def Let_def)
qed

text \<open>The per-strategy counts are exact. After any history of calls to the recorder, whatever
  the order in which the map is visited and for every sort that meets the contract of
  \<^verbatim>\<open>sort.Slice\<close>, the statistics list each recorded strategy once, in the order of the names, with exactly
  the number of its successes and of its failures.\<close>

theorem strategyStats_exact:
  assumes "slice_sorter srt"
    and "c = fold (\<lambda>(s, ok). RecordBypassStrategy s ok) calls (Metrics_New prom addr now)"
    and "distinct order" and "set order = dom (mc_strategies c)"
  shows "strategyStats srt order c =
    map (\<lambda>name. \<lparr>st_Name = name, st_OK = int (count_list calls (name, True)),
            st_Fail = int (count_list calls (name, False))\<rparr>)
      (sorted_list_of_set (fst ` set calls))"
proof -
  let ?mk = "\<lambda>name. \<lparr>st_Name = name, st_OK = int (count_list calls (name, True)),
            st_Fail = int (count_list calls (name, False))\<rparr>"
  let ?lt = "\<lambda>x y. st_Name x < st_Name y"
  note hist = RecordBypassStrategy_history [of calls prom addr now, folded assms(2)]
  have order: "set order = fst ` set calls"
    unfolding assms(4) by (auto simp: dom_def hist)
  then have stats: "strategyStats srt order c = srt ?lt (map ?mk order)"
    by (auto simp: strategyStats_def Let_def hist intro!: arg_cong [of _ _ "srt ?lt"])
  define out where "out = srt ?lt (map ?mk order)"
  have "mset out = mset (map ?mk order)"
    unfolding out_def by (rule slice_sorter.mset_srt [OF assms(1)])
  then have elems: "set out = set (map ?mk order)" by (rule mset_eq_setD)
  have "mset (map st_Name out) = image_mset st_Name (mset (map ?mk order))"
    by (simp only: mset_map \<open>mset out = mset (map ?mk order)\<close>)
  then have perm: "mset (map st_Name out) = mset order" by (simp add: multiset.map_comp o_def)
  have names: "distinct (map st_Name out)" "set (map st_Name out) = fst ` set calls"
    using mset_eq_imp_distinct_iff [OF perm] mset_eq_setD [OF perm] assms(3) order by simp_all
  have weak: "strict_weak ?lt" by (rule strict_weakI) auto
  have "sorted (map st_Name out)"
    using slice_sorter.ordered_srt [OF assms(1) weak, of "map ?mk order"]
    by (simp add: out_def sorted_map not_less)
  with names have sorted_names: "map st_Name out = sorted_list_of_set (fst ` set calls)"
    by (intro sorted_distinct_set_unique) simp_all
  have "map (?mk \<circ> st_Name) out = out"
    by (rule map_idI) (auto simp: elems)
  then have "map ?mk (map st_Name out) = out" by simp
  then show ?thesis unfolding stats out_def [symmetric] sorted_names by (rule sym)
qed

theorem strategyStats_exact_witness:
  "strategyStats insertion_sort [''wrong_seq'', ''fragment'']
     (fold (\<lambda>(s, ok). RecordBypassStrategy s ok)
        [(''wrong_seq'', False), (''fragment'', True), (''wrong_seq'', True)] (Metrics_New False [] 0)) =
   [\<lparr>st_Name = ''fragment'', st_OK = 1, st_Fail = 0\<rparr>,
    \<lparr>st_Name = ''wrong_seq'', st_OK = 1, st_Fail = 1\<rparr>]"
proof -
  let ?calls = "[(''wrong_seq'', False), (''fragment'', True), (''wrong_seq'', True)]"
  let ?c = "fold (\<lambda>(s, ok). RecordBypassStrategy s ok) ?calls (Metrics_New False [] 0)"
  have "set [''wrong_seq'', ''fragment''] = dom (mc_strategies ?c)"
    unfolding dom_def RecordBypassStrategy_history by auto
  from strategyStats_exact [OF small_sort.slice_sorter_axioms refl _ this]
  have "strategyStats insertion_sort [''wrong_seq'', ''fragment''] ?c =
    map (\<lambda>name. \<lparr>st_Name = name, st_OK = int (count_list ?calls (name, True)),
            st_Fail = int (count_list ?calls (name, False))\<rparr>)
      (sorted_list_of_set {''wrong_seq'', ''fragment''})" by (simp add: insert_commute)
  moreover have "sorted_list_of_set {''wrong_seq'', ''fragment''} = [''fragment'', ''wrong_seq'']"
    by (simp add: insort_key_def)
  ultimately show ?thesis by simp
qed

lemma RecordSNI_history:
  "mc_sniMap (fold RecordSNI hs (Metrics_New prom addr now)) sni =
     (if sni \<in> set hs then Some (int (count_list hs sni)) else None)"
proof (induction hs arbitrary: sni rule: rev_induct)
  case Nil
  then show ?case by (simp add: Metrics_New_def)
next
  case (snoc h hs)
  have "count_list hs h = 0" if "h \<notin> set hs" using that by (simp add: count_list_0_iff)
  with snoc.IH [of h] snoc.IH [of sni] show ?case by (auto simp: RecordSNI_def Let_def)
qed

text \<open>C22. The list of names is a ranking. After any history of recorded names, whatever the order in
  which the map is visited and for every sort that meets the contract of \<^verbatim>\<open>sort.Slice\<close>: the
  first \<open>n\<close> names are listed once each, with the exact number of times each was recorded, most
  often first; there are \<open>n\<close> of them, or all when fewer were recorded; and no name left out was
  recorded more often than one listed.\<close>

theorem TopSNIs_ranking:
  assumes "slice_sorter srt" and "c = fold RecordSNI hs (Metrics_New prom addr now)"
    and "distinct order" and "set order = dom (mc_sniMap c)" and "0 < n"
    and "ranked = TopSNIs srt order n c"
  shows "length ranked = min (nat n) (card (set hs)) \<and> distinct (map fst ranked) \<and>
    (\<forall>(sni, k) \<in> set ranked. k = int (count_list hs sni)) \<and>
    sorted (rev (map snd ranked)) \<and>
    (\<forall>sni. sni \<notin> fst ` set ranked \<longrightarrow> (\<forall>(s, k) \<in> set ranked. int (count_list hs sni) \<le> k))"
proof -
  let ?mk = "\<lambda>sni. (sni, int (count_list hs sni))" and ?lt = "\<lambda>x y :: string \<times> int. snd x > snd y"
  note hist = RecordSNI_history [of hs prom addr now, folded assms(2)]
  have order: "set order = set hs" unfolding assms(4) by (auto simp: dom_def hist split: if_splits)
  define counts where "counts = srt ?lt (map ?mk order)"
  have mk: "map (\<lambda>sni. (sni, the (mc_sniMap c sni))) order = map ?mk order"
    by (rule map_cong) (simp_all add: hist order)
  have ranked: "ranked = (if int (length counts) > n then take (nat n) counts else counts)"
    unfolding assms(6) TopSNIs_def mk counts_def [symmetric] Let_def using assms(5) by simp
  have perm: "mset counts = mset (map ?mk order)"
    unfolding counts_def by (rule slice_sorter.mset_srt [OF assms(1)])
  have elems: "set counts = ?mk ` set hs" using mset_eq_setD [OF perm] order by simp
  have "mset (map fst counts) = mset order"
    unfolding mset_map perm by (simp add: multiset.map_comp o_def flip: mset_map)
  then have dist: "distinct (map fst counts)" and len: "length counts = card (set hs)"
    using mset_eq_imp_distinct_iff assms(3) mset_eq_length [OF perm] distinct_card [OF assms(3)] order
    by (metis, simp)
  have weak: "strict_weak ?lt" by (rule strict_weakI) auto
  have "sorted_wrt (\<lambda>x y. \<not> ?lt y x) counts"
    unfolding counts_def by (rule slice_sorter.ordered_srt [OF assms(1) weak])
  then have desc: "sorted_wrt (\<lambda>x y. snd y \<le> snd x) counts" by (simp add: not_less)
  have take: "ranked = take (nat n) counts" using assms(5) by (auto simp: ranked)
  have sorted_top: "sorted (rev (map snd ranked))"
    using sorted_wrt_take [OF desc] unfolding take
    by (simp add: sorted_wrt_rev sorted_wrt_map)
  have out: "int (count_list hs sni) \<le> k" if "sni \<notin> fst ` set ranked" "(s, k) \<in> set ranked" for sni s k
  proof (cases "sni \<in> set hs")
    case True
    then have "?mk sni \<in> set counts" using elems by simp
    moreover have "?mk sni \<notin> set ranked" using that(1) by force
    ultimately have "?mk sni \<in> set (drop (nat n) counts)"
      unfolding take by (metis Un_iff append_take_drop_id set_append)
    moreover have "sorted_wrt (\<lambda>x y. snd y \<le> snd x) (take (nat n) counts @ drop (nat n) counts)"
      using desc by simp
    ultimately show ?thesis using that(2) unfolding take sorted_wrt_append by fastforce
  next
    case False
    have "(s, k) \<in> set counts" using that(2) unfolding take by (rule in_set_takeD)
    then have "0 \<le> k" using elems by auto
    with False show ?thesis by (simp add: count_list_0_iff)
  qed
  have "(\<forall>(sni, k) \<in> set ranked. k = int (count_list hs sni))"
    using elems unfolding take by (auto dest: in_set_takeD)
  moreover have "distinct (map fst ranked)" unfolding take take_map [symmetric] using dist by simp
  moreover have "length ranked = min (nat n) (card (set hs))" using len by (simp add: take min.commute)
  ultimately show ?thesis using sorted_top out by blast
qed

theorem TopSNIs_ranking_witness:
  "TopSNIs insertion_sort [''b'', ''a''] 1
     (fold RecordSNI [''a'', ''b'', ''a''] (Metrics_New False [] 0)) = [(''a'', 2)]"
proof -
  define hs where "hs = [''a'', ''b'', ''a'']"
  define c where "c = fold RecordSNI hs (Metrics_New False [] 0)"
  define ranked where "ranked = TopSNIs insertion_sort [''b'', ''a''] 1 c"
  have "set [''b'', ''a''] = dom (mc_sniMap c)"
    unfolding dom_def c_def RecordSNI_history by (auto simp: hs_def)
  note t = TopSNIs_ranking [OF small_sort.slice_sorter_axioms c_def _ this _ ranked_def]
  have "card (set hs) = 2" by (simp add: hs_def card_insert_if)
  then have "length ranked = 1" using t by simp
  then obtain s k where r: "ranked = [(s, k)]" by (cases ranked) auto
  have k: "k = int (count_list hs s)" using t by (simp add: r)
  have "s = ''a'' \<or> int (count_list hs ''a'') \<le> k" using t by (auto simp: r)
  then have "s = ''a''" using k by (cases "s = ''b''") (auto simp: hs_def split: if_splits)
  then have "ranked = [(''a'', 2)]" using k r by (simp add: hs_def)
  then show ?thesis unfolding ranked_def c_def hs_def .
qed

end
