(* ===== verification/Handler.thy ===== *)
theory Handler
  imports Router Adaptive DomainPool Relay Config Metrics
begin

text \<open>
  A connection's life, \<^verbatim>\<open>internal/proxy/handler.go\<close>: dial an endpoint with retries, inject the
  decoy, relay, and keep the books of the collector and of the endpoint. The shared objects (the
  router, the collector, the adaptive bypass, the domain pool) are the fields of one state. What the
  world decides is in the environment records: outcomes of dials, clocks, draws, the scripts of the
  two connections, and what other connections do to the router meanwhile (a function on it). The
  recorder of the adaptive bypass is the collector, as \<^verbatim>\<open>main.go\<close> sets it up. Log calls and the
  TCP options of \<^verbatim>\<open>applyTCPOpts\<close> change no modelled state and are left out.
\<close>

section \<open>Dialling\<close>

record server_conn =
  sv_local_ip :: bytes
  sv_local_port :: uint16
  sv_remote_ip :: bytes
  sv_remote_port :: uint16

text \<open>One attempt: whether the context ends during the wait (with its error), the wait's draw, the
  clock and draw of \<open>Pick\<close>, the dial's answer for an address, the clock at \<open>RecordFailure\<close>; and what
  others do to the router before the attempt and during the dial.\<close>

record attempt_env =
  at_cancelled :: "go_error option"
  at_wait_draw :: real
  at_before :: "router \<Rightarrow> router"
  at_now_pick :: int
  at_pick_draw :: nat
  at_during :: "router \<Rightarrow> router"
  at_dial :: "string \<Rightarrow> go_error + server_conn"
  at_now_fail :: int

text \<open>The waits and the failed dials of a call, in order. A failed dial is given by its endpoint and
  by whether it tripped the breaker.\<close>

datatype dial_event = Waited int | DialFailed nat bool

definition with_endpoint :: "nat \<Rightarrow> Endpoint \<Rightarrow> router \<Rightarrow> router" where
  "with_endpoint i e r = r\<lparr>rt_endpoints := (rt_endpoints r)[i := e]\<rparr>"

fun dial_loop ::
  "Config \<Rightarrow> (nat \<times> Endpoint) slice_sort \<Rightarrow> (nat \<Rightarrow> attempt_env) \<Rightarrow> nat \<Rightarrow> nat \<Rightarrow> go_error option \<Rightarrow>
   router \<Rightarrow> dial_event list \<Rightarrow> (go_error + server_conn \<times> nat) \<times> router \<times> dial_event list"
where
  "dial_loop cfg srt env 0 attempt lastErr r evs =
     (Inl (case lastErr of
             None \<Rightarrow> [''all '' @ dec attempt @ '' dial attempts exhausted'']
           | Some e \<Rightarrow> e), r, evs)"
| "dial_loop cfg srt env (Suc n) attempt lastErr r evs =
     (let a = env attempt;
          delay = ExponentialBackoff (at_wait_draw a) (attempt - 1) (cf_RetryBaseMs cfg) (cf_RetryMaxMs cfg);
          evs = (if attempt > 0 then evs @ [Waited delay] else evs)
      in if attempt > 0 \<and> at_cancelled a \<noteq> None
         then (Inl (the (at_cancelled a)), r, evs)
         else case Pick srt (at_now_pick a) (at_pick_draw a) (at_before a r) of
             (Inl err, r) \<Rightarrow> dial_loop cfg srt env n (attempt + 1) (Some err) r evs
           | (Inr i, r) \<Rightarrow>
               (let r = at_during a r; ep = rt_endpoints r ! i
                in case at_dial a (ep_Addr ep) of
                     Inl err \<Rightarrow>
                       (case RecordFailure (cf_CircuitBreakerThreshold cfg)
                               (CircuitBreakerCooldown cfg) (at_now_fail a) ep of
                          (tripped, ep) \<Rightarrow>
                            dial_loop cfg srt env n (attempt + 1)
                              (Some (wrap_error (''dial '' @ ep_Addr ep) err))
                              (with_endpoint i ep r) (evs @ [DialFailed i tripped]))
                   | Inr conn \<Rightarrow> (Inr (conn, i), r, evs)))"

definition max_attempts :: "Config \<Rightarrow> nat" where
  "max_attempts cfg =
     (let maxAttempts = cf_RetryLimit cfg + 1 in nat (if maxAttempts < 1 then 1 else maxAttempts))"

definition dialWithRetry ::
  "Config \<Rightarrow> (nat \<times> Endpoint) slice_sort \<Rightarrow> (nat \<Rightarrow> attempt_env) \<Rightarrow> router \<Rightarrow>
   (go_error + server_conn \<times> nat) \<times> router \<times> dial_event list" where
  "dialWithRetry cfg srt env r = dial_loop cfg srt env (max_attempts cfg) 0 None r []"

section \<open>One connection\<close>

record proxy_state =
  px_metrics :: Collector
  px_router :: router
  px_adaptive :: "lruCache adaptive option"
  px_domains :: Pool

record handle_env =
  he_start :: int
  he_dial :: "nat \<Rightarrow> attempt_env"
  he_seq :: "uint32 \<times> uint32 \<times> int"
  he_inject :: adaptive_env
  he_client_reads :: "read list"
  he_first_write :: "(nat \<times> go_error) option"
  he_to_server :: writer
  he_server_reads :: "read list"
  he_to_client :: writer
  he_in_first :: bool
  he_end :: int
  he_others :: "router \<Rightarrow> router"

definition go_To4 :: "bytes \<Rightarrow> bytes" where
  "go_To4 ip = (case To4 ip of None \<Rightarrow> [] | Some ip4 \<Rightarrow> ip4)"

definition handle_params :: "Config \<Rightarrow> server_conn \<Rightarrow> uint32 \<times> uint32 \<times> int \<Rightarrow> string \<Rightarrow> AdaptiveParams" where
  "handle_params cfg conn sq fakeSNI =
     (case sq of (synSeq, synAckSeq, synTime) \<Rightarrow>
        \<lparr>ap_SrcIP = go_To4 (sv_local_ip conn), ap_DstIP = go_To4 (sv_remote_ip conn),
         ap_SrcPort = sv_local_port conn, ap_DstPort = sv_remote_port conn, ap_SynSeq = synSeq,
         ap_SynAckSeq = synAckSeq, ap_SynTime = synTime, ap_FakeSNI = fakeSNI,
         ap_Profile = cf_BrowserProfile cfg, ap_TTLSpoof = cf_TTLSpoof cfg,
         ap_DelayMs = cf_FakeDelayMs cfg, ap_MinDelayMs = cf_MinDelayMs cfg,
         ap_MaxDelayMs = cf_MaxDelayMs cfg, ap_JitterMs = cf_JitterMs cfg,
         ap_FragSize = cf_FragmentSize cfg\<rparr>)"

text \<open>The injection and its counters: the recorder's calls reach the collector first, then the
  outcome. \<open>None\<close> is a panic.\<close>

definition handle_inject ::
  "adaptive_env \<Rightarrow> AdaptiveParams \<Rightarrow> proxy_state \<Rightarrow> proxy_state option" where
  "handle_inject env p st =
     (case px_adaptive st of
        None \<Rightarrow> Some st
      | Some a \<Rightarrow> do {
          ((strategy, injectErr), a') \<leftarrow> Adaptive_Inject env p (a\<lparr>ad_recorder := Some []\<rparr>);
          let m = fold (\<lambda>(s, ok). RecordBypassStrategy s ok) (the (ad_recorder a')) (px_metrics st);
          let m = (if injectErr \<noteq> None then BypassFailed m else BypassOK m);
          Some (st\<lparr>px_metrics := m, px_adaptive := Some (a'\<lparr>ad_recorder := Some []\<rparr>)\<rparr>)
        })"

text \<open>The relay and its counters; \<open>None\<close> when it has not returned.\<close>

definition handle_relay :: "Config \<Rightarrow> handle_env \<Rightarrow> Collector \<Rightarrow> Collector option" where
  "handle_relay cfg env m =
     (if cf_LogClientSNI cfg
      then do {
        out \<leftarrow> RelayWithSNI (he_client_reads env) (he_first_write env) (he_to_server env)
                 (he_server_reads env) (he_to_client env) (he_in_first env) 16384;
        let m = fold AddBytesOut (rl_out_counts out) (fold AddBytesIn (rl_in_counts out) m);
        Some (if rl_sni out \<noteq> [] then RecordSNI (rl_sni out) m else m)
      }
      else do {
        (_, cin, cout) \<leftarrow> Relay (he_client_reads env) (he_to_server env) (he_server_reads env)
                            (he_to_client env) (he_in_first env);
        Some (fold AddBytesOut (cp_counts cout) (fold AddBytesIn (cp_counts cin) m))
      })"

definition fake_sni :: "Config \<Rightarrow> Pool \<Rightarrow> string" where
  "fake_sni cfg pool = (let s = Best pool in if s = [] then cf_FakeSNI cfg else s)"

definition Handle ::
  "Config \<Rightarrow> (nat \<times> Endpoint) slice_sort \<Rightarrow> handle_env \<Rightarrow> proxy_state \<Rightarrow>
   (go_error option \<times> proxy_state) option" where
  "Handle cfg srt env st =
     (let st = st\<lparr>px_metrics := ConnOpened (px_metrics st)\<rparr>
      in case dialWithRetry cfg srt (he_dial env) (px_router st) of
           (Inl err, r, _) \<Rightarrow>
             (let st = st\<lparr>px_router := r, px_metrics := ConnFailed (px_metrics st)\<rparr>
              in Some (Some err, st\<lparr>px_metrics := ConnClosed (px_metrics st)\<rparr>))
         | (Inr (conn, i), r, _) \<Rightarrow> do {
             let st = st\<lparr>px_router := r\<rparr>;
             let fakeSNI = fake_sni cfg (px_domains st);
             st \<leftarrow> handle_inject (he_inject env) (handle_params cfg conn (he_seq env) fakeSNI) st;
             let st = st\<lparr>px_metrics := RelayStarted (px_metrics st)\<rparr>;
             m \<leftarrow> handle_relay cfg env (px_metrics st);
             let dur = he_end env - he_start env;
             let m = RecordLatency dur m;
             let r = he_others env (px_router st);
             let r = with_endpoint i (RecordSuccess dur (rt_endpoints r ! i)) r;
             Some (None, st\<lparr>px_router := r, px_metrics := ConnClosed (RelayDone m)\<rparr>)
           })"

text \<open>The connections of a server one after the other.\<close>

fun handle_all ::
  "Config \<Rightarrow> (nat \<times> Endpoint) slice_sort \<Rightarrow> handle_env list \<Rightarrow> proxy_state \<Rightarrow>
   (go_error option list \<times> proxy_state) option" where
  "handle_all cfg srt [] st = Some ([], st)"
| "handle_all cfg srt (env # envs) st = do {
     (e, st) \<leftarrow> Handle cfg srt env st;
     (es, st) \<leftarrow> handle_all cfg srt envs st;
     Some (e # es, st)
   }"

section \<open>The retry loop\<close>

fun is_wait :: "dial_event \<Rightarrow> bool" where
  "is_wait (Waited _) = True"
| "is_wait (DialFailed _ _) = False"

fun failed_on :: "nat \<Rightarrow> dial_event \<Rightarrow> bool" where
  "failed_on j (DialFailed i _) = (i = j)"
| "failed_on j (Waited _) = False"

definition addresses :: "router \<Rightarrow> string list" where
  "addresses r = map ep_Addr (rt_endpoints r)"

lemma length_addresses: "length (rt_endpoints r) = length (addresses r)"
  by (simp add: addresses_def)

lemma nth_addresses: "i < length (addresses r) \<Longrightarrow> ep_Addr (rt_endpoints r ! i) = addresses r ! i"
  by (simp add: addresses_def)

lemma Pick_addresses: "Pick srt now draw r = (res, r') \<Longrightarrow> addresses r' = addresses r"
  by (simp add: addresses_def Pick_endpoints o_def)

lemma with_endpoint_addresses [simp]:
  "ep_Addr e = ep_Addr (rt_endpoints r ! i) \<Longrightarrow> addresses (with_endpoint i e r) = addresses r"
  by (simp add: addresses_def with_endpoint_def map_update)
    (metis length_map list_update_beyond list_update_id not_less nth_map)

text \<open>What the others may do: change the endpoints' states, never the list of addresses.\<close>

definition others_ok :: "attempt_env \<Rightarrow> bool" where
  "others_ok a \<longleftrightarrow>
     (\<forall>r. addresses (at_before a r) = addresses r \<and> addresses (at_during a r) = addresses r)"

text \<open>What a loop of \<open>n\<close> attempts from attempt \<open>k\<close> on may answer.\<close>

definition dial_answer ::
  "Config \<Rightarrow> (nat \<Rightarrow> attempt_env) \<Rightarrow> string list \<Rightarrow> nat \<Rightarrow> nat \<Rightarrow> dial_event list \<Rightarrow>
   go_error + server_conn \<times> nat \<Rightarrow> bool" where
  "dial_answer cfg env addrs n k new res \<longleftrightarrow>
     length (filter (\<lambda>ev. \<not> is_wait ev) new) \<le> n \<and>
     length (filter is_wait new) \<le> (if k = 0 then n - 1 else n) \<and>
     (\<forall>d. Waited d \<in> set new \<longrightarrow> 0 \<le> d \<and> d \<le> ms_dur (eff_cap (cf_RetryMaxMs cfg))) \<and>
     (case res of
        Inl e \<Rightarrow> (\<exists>j. j < k + n \<and> at_cancelled (env j) = Some e) \<or>
          length (filter is_wait new) = (if k = 0 then n - 1 else n)
      | Inr (conn, i) \<Rightarrow> i < length addrs \<and> (\<exists>j. j < k + n \<and> at_dial (env j) (addrs ! i) = Inr conn) \<and>
          length (filter (\<lambda>ev. \<not> is_wait ev) new) < n)"

lemma dial_answer_step:
  assumes "dial_answer cfg env addrs n (Suc k) new res"
    and "\<forall>ev \<in> set pre. \<not> is_wait ev" and "length pre \<le> 1" and "0 \<le> d"
    and "d \<le> ms_dur (eff_cap (cf_RetryMaxMs cfg))"
  shows "dial_answer cfg env addrs (Suc n) k ((if k > 0 then [Waited d] else []) @ pre @ new) res"
proof -
  have pre: "filter is_wait pre = []" "filter (\<lambda>ev. \<not> is_wait ev) pre = pre" "\<And>x. Waited x \<notin> set pre"
    using assms(2) by (auto simp: filter_empty_conv filter_id_conv)
  show ?thesis
    using assms pre by (auto simp: dial_answer_def split: sum.splits)
qed

text \<open>The ways one attempt goes: the context ends the wait, no endpoint is available, the dial
  succeeds, the dial fails and the loop goes on.\<close>

definition waited :: "Config \<Rightarrow> (nat \<Rightarrow> attempt_env) \<Rightarrow> nat \<Rightarrow> dial_event list" where
  "waited cfg env k =
     (if k > 0
      then [Waited (ExponentialBackoff (at_wait_draw (env k)) (k - 1) (cf_RetryBaseMs cfg) (cf_RetryMaxMs cfg))]
      else [])"

lemma dial_loop_cases:
  assumes "dial_loop cfg srt env (Suc n) k lastErr r evs = (res, r', evs')"
  obtains
    (cancelled) e where "at_cancelled (env k) = Some e" "res = Inl e" "r' = r" "evs' = evs @ waited cfg env k" "k > 0"
  | (none) err r1 where
      "Pick srt (at_now_pick (env k)) (at_pick_draw (env k)) (at_before (env k) r) = (Inl err, r1)"
      "dial_loop cfg srt env n (Suc k) (Some err) r1 (evs @ waited cfg env k) = (res, r', evs')"
  | (dialled) i r1 conn where
      "Pick srt (at_now_pick (env k)) (at_pick_draw (env k)) (at_before (env k) r) = (Inr i, r1)"
      "at_dial (env k) (ep_Addr (rt_endpoints (at_during (env k) r1) ! i)) = Inr conn"
      "res = Inr (conn, i)" "r' = at_during (env k) r1" "evs' = evs @ waited cfg env k"
  | (refused) i r1 err tripped e where
      "Pick srt (at_now_pick (env k)) (at_pick_draw (env k)) (at_before (env k) r) = (Inr i, r1)"
      "at_dial (env k) (ep_Addr (rt_endpoints (at_during (env k) r1) ! i)) = Inl err"
      "RecordFailure (cf_CircuitBreakerThreshold cfg) (CircuitBreakerCooldown cfg) (at_now_fail (env k))
         (rt_endpoints (at_during (env k) r1) ! i) = (tripped, e)"
      "dial_loop cfg srt env n (Suc k) (Some (wrap_error (''dial '' @ ep_Addr e) err))
         (with_endpoint i e (at_during (env k) r1)) (evs @ waited cfg env k @ [DialFailed i tripped]) =
       (res, r', evs')"
proof -
  obtain p r1 where p: "Pick srt (at_now_pick (env k)) (at_pick_draw (env k)) (at_before (env k) r) = (p, r1)"
    by fastforce
  have waits: "(if k > 0 then evs @ [Waited (ExponentialBackoff (at_wait_draw (env k)) (k - 1)
      (cf_RetryBaseMs cfg) (cf_RetryMaxMs cfg))] else evs) = evs @ waited cfg env k"
    by (simp add: waited_def)
  note run = assms [unfolded dial_loop.simps(2) Let_def p prod.case waits Suc_eq_plus1 [symmetric] append_assoc]
  show thesis
  proof (cases "k > 0 \<and> at_cancelled (env k) \<noteq> None")
    case True
    with run show thesis by (auto intro: cancelled)
  next
    case False
    note run = run [unfolded if_not_P [OF False]]
    show thesis
    proof (cases p)
      case (Inl err)
      show thesis by (rule none [OF p [unfolded Inl] run [unfolded Inl sum.case]])
    next
      case (Inr i)
      note run = run [unfolded Inr sum.case]
      show thesis
      proof (cases "at_dial (env k) (ep_Addr (rt_endpoints (at_during (env k) r1) ! i))")
        case (Inl err)
        obtain tripped e where rf: "RecordFailure (cf_CircuitBreakerThreshold cfg) (CircuitBreakerCooldown cfg)
            (at_now_fail (env k)) (rt_endpoints (at_during (env k) r1) ! i) = (tripped, e)" by fastforce
        show thesis
          by (rule refused [OF p [unfolded Inr] Inl rf run [unfolded Inl sum.case rf prod.case]])
      next
        case conn: (Inr conn)
        show thesis
          using dialled [OF p [unfolded Inr] conn] run [unfolded conn sum.case] by blast
      qed
    qed
  qed
qed

lemma waited_events [simp]:
  "filter is_wait (waited cfg env k) = waited cfg env k" "filter (failed_on j) (waited cfg env k) = []"
  by (simp_all add: waited_def)

lemma waited_bound:
  assumes "\<forall>k. 0 \<le> at_wait_draw (env k)"
  obtains d where "waited cfg env k = (if k > 0 then [Waited d] else [])"
    and "0 \<le> d" "d \<le> ms_dur (eff_cap (cf_RetryMaxMs cfg))"
proof (rule that)
  let ?d = "ExponentialBackoff (at_wait_draw (env k)) (k - 1) (cf_RetryBaseMs cfg) (cf_RetryMaxMs cfg)"
  show "waited cfg env k = (if k > 0 then [Waited ?d] else [])" by (simp add: waited_def)
  show "0 \<le> ?d" "?d \<le> ms_dur (eff_cap (cf_RetryMaxMs cfg))"
    using ExponentialBackoff_capped assms by blast+
qed

lemma dial_loop_answer:
  assumes "slice_sorter srt" and "\<forall>k. others_ok (env k)" and "\<forall>k. 0 \<le> at_wait_draw (env k)"
  shows "dial_loop cfg srt env n k lastErr r evs = (res, r', evs') \<Longrightarrow>
    \<exists>new. evs' = evs @ new \<and> addresses r' = addresses r \<and>
      dial_answer cfg env (addresses r) n k new res"
proof (induction n arbitrary: k lastErr r evs)
  case 0
  then show ?case by (auto simp: dial_answer_def)
next
  case (Suc n)
  obtain d where w: "waited cfg env k = (if k > 0 then [Waited d] else [])" (is "_ = ?w")
    and d: "0 \<le> d" "d \<le> ms_dur (eff_cap (cf_RetryMaxMs cfg))" by (rule waited_bound [OF assms(3)])
  have oth: "addresses (at_before (env k) q) = addresses q" "addresses (at_during (env k) q) = addresses q" for q
    using assms(2) by (simp_all add: others_ok_def)
  from Suc.prems show ?case
  proof (cases rule: dial_loop_cases)
    case (cancelled e)
    then have "dial_answer cfg env (addresses r) (Suc n) k ?w res"
      using d by (auto simp: dial_answer_def intro: exI [of _ k])
    with cancelled w show ?thesis by auto
  next
    case (none err r1)
    have r1: "addresses r1 = addresses r" using Pick_addresses [OF none(1)] oth by simp
    from Suc.IH [OF none(2)] obtain new where new: "evs' = (evs @ ?w) @ new" "addresses r' = addresses r"
        "dial_answer cfg env (addresses r) n (Suc k) new res" unfolding w r1 by blast
    have "dial_answer cfg env (addresses r) (Suc n) k (?w @ [] @ new) res"
      using new(3) d by (intro dial_answer_step) simp_all
    with new show ?thesis by (intro exI [of _ "?w @ new"]) simp
  next
    case (dialled i r1 conn)
    have "i < length (addresses r)" "addresses (at_during (env k) r1) = addresses r"
      using Pick_index [OF assms(1) dialled(1)] Pick_addresses [OF dialled(1)]
      by (simp_all add: length_addresses oth)
    moreover from this have "at_dial (env k) (addresses r ! i) = Inr conn"
      using dialled(2) nth_addresses [of i "at_during (env k) r1"] by simp
    ultimately show ?thesis
      using dialled(3,4,5) d unfolding w
      by (intro exI [of _ ?w]) (auto simp: dial_answer_def intro: exI [of _ k])
  next
    case (refused i r1 err tripped e)
    have "ep_Addr e = ep_Addr (rt_endpoints (at_during (env k) r1) ! i)"
      using RecordFailure_keeps(1) refused(3) by (metis snd_conv)
    then have addr: "addresses (with_endpoint i e (at_during (env k) r1)) = addresses r"
      using Pick_addresses [OF refused(1)] oth by simp
    from Suc.IH [OF refused(4)] obtain new where new: "evs' = (evs @ ?w @ [DialFailed i tripped]) @ new"
        "addresses r' = addresses r" "dial_answer cfg env (addresses r) n (Suc k) new res"
      unfolding w addr by blast
    have "dial_answer cfg env (addresses r) (Suc n) k (?w @ [DialFailed i tripped] @ new) res"
      using new(3) d by (intro dial_answer_step) simp_all
    with new(1,2) show ?thesis by (intro exI [of _ "?w @ [DialFailed i tripped] @ new"]) simp
  qed
qed

text \<open>The endpoints' failure counters when nobody else uses the router.\<close>

definition alone :: "attempt_env \<Rightarrow> bool" where
  "alone a \<longleftrightarrow> (\<forall>r. at_before a r = r \<and> at_during a r = r)"

definition failures :: "router \<Rightarrow> int list" where
  "failures r = map ep_failed (rt_endpoints r)"

lemma Pick_failures: "Pick srt now draw r = (res, r') \<Longrightarrow> failures r' = failures r"
  by (simp add: failures_def Pick_endpoints o_def)

lemma failures_with_endpoint: "failures (with_endpoint i e r) = (failures r)[i := ep_failed e]"
  by (simp add: failures_def with_endpoint_def map_update)

lemma dial_loop_failures:
  assumes "slice_sorter srt" and "\<forall>k. alone (env k)" and "j < length (failures r)"
  shows "dial_loop cfg srt env n k lastErr r evs = (res, r', evs') \<Longrightarrow>
    failures r' ! j + int (length (filter (failed_on j) evs)) =
      failures r ! j + int (length (filter (failed_on j) evs'))"
  using assms(3)
proof (induction n arbitrary: k lastErr r evs)
  case (Suc n)
  have same [simp]: "at_before (env k) r = r" "at_during (env k) q = q" for r q
    using assms(2) by (simp_all add: alone_def)
  from Suc.prems(1) show ?case
  proof (cases rule: dial_loop_cases)
    case (none err r1)
    with Suc.IH [OF none(2)] Suc.prems(2) Pick_failures [OF none(1)] show ?thesis by simp
  next
    case (dialled i r1 conn)
    with Pick_failures [OF dialled(1)] show ?thesis by simp
  next
    case (refused i r1 err tripped e)
    have r1: "failures r1 = failures r" using Pick_failures [OF refused(1)] by simp
    have "ep_failed e = ep_failed (rt_endpoints r1 ! i) + 1"
      using RecordFailure_keeps(2) refused(3) unfolding same by (metis snd_conv)
    moreover have i: "i < length (rt_endpoints r1)"
      using Pick_index [OF assms(1) refused(1)] Pick_endpoints [OF refused(1)] by simp
    ultimately have f: "failures (with_endpoint i e r1) = (failures r)[i := failures r ! i + 1]"
      unfolding failures_with_endpoint r1 [symmetric] by (simp add: failures_def)
    from Suc.IH [OF refused(4)] Suc.prems(2) show ?thesis
      unfolding same f by (auto simp: nth_list_update split: if_splits)
  qed simp
qed auto

text \<open>C12. Dialling is bounded, and every failed dial is charged once to the endpoint it was made
  to. A call makes at most \<open>max 1 (retry_limit + 1)\<close> dials and one wait less than that, each wait
  at most the cap; when it answers a connection, that is what a dial to the address of the endpoint
  it names gave; when it answers an error, either that is the error of the context that ended
  during a wait, or every attempt was made. When nobody else uses the router, each endpoint's failure
  counter grows by the number of failed dials to it.\<close>

theorem dialWithRetry_contract:
  assumes "slice_sorter srt" and "\<forall>k. others_ok (env k)" and "\<forall>k. 0 \<le> at_wait_draw (env k)"
    and "dialWithRetry cfg srt env r = (res, r', evs)"
  shows "addresses r' = addresses r \<and>
    int (length (filter (\<lambda>ev. \<not> is_wait ev) evs)) \<le> max 1 (cf_RetryLimit cfg + 1) \<and>
    int (length (filter is_wait evs)) \<le> max 1 (cf_RetryLimit cfg + 1) - 1 \<and>
    (\<forall>d. Waited d \<in> set evs \<longrightarrow> 0 \<le> d \<and> d \<le> ms_dur (eff_cap (cf_RetryMaxMs cfg))) \<and>
    (case res of
       Inl e \<Rightarrow> (\<exists>j. at_cancelled (env j) = Some e) \<or>
         int (length (filter is_wait evs)) = max 1 (cf_RetryLimit cfg + 1) - 1
     | Inr (conn, i) \<Rightarrow> i < length (rt_endpoints r) \<and>
         (\<exists>j. at_dial (env j) (ep_Addr (rt_endpoints r ! i)) = Inr conn)) \<and>
    ((\<forall>k. alone (env k)) \<longrightarrow> (\<forall>j < length (rt_endpoints r).
       ep_failed (rt_endpoints r' ! j) =
         ep_failed (rt_endpoints r ! j) + int (length (filter (failed_on j) evs))))"
proof -
  have m: "int (max_attempts cfg) = max 1 (cf_RetryLimit cfg + 1)" "0 < max_attempts cfg"
    by (simp_all add: max_attempts_def Let_def)
  note run = assms(4) [unfolded dialWithRetry_def]
  from dial_loop_answer [OF assms(1,2,3) run]
  have ans: "addresses r' = addresses r" "dial_answer cfg env (addresses r) (max_attempts cfg) 0 evs res"
    by auto
  have same_length: "length (rt_endpoints r') = length (rt_endpoints r)"
    using ans(1) by (simp add: length_addresses)
  have counted: "ep_failed (rt_endpoints r' ! j) =
      ep_failed (rt_endpoints r ! j) + int (length (filter (failed_on j) evs))"
    if "\<forall>k. alone (env k)" and "j < length (rt_endpoints r)" for j
    using dial_loop_failures [OF assms(1) that(1) _ run, of j] that(2) same_length
    by (simp add: failures_def)
  have waits: "int (length (filter is_wait evs)) \<le> int (max_attempts cfg) - 1"
    using ans(2) m(2) by (auto simp: dial_answer_def simp del: Suc_pred)
  have res: "case res of
       Inl e \<Rightarrow> (\<exists>j. at_cancelled (env j) = Some e) \<or>
         int (length (filter is_wait evs)) = int (max_attempts cfg) - 1
     | Inr (conn, i) \<Rightarrow> i < length (rt_endpoints r) \<and>
         (\<exists>j. at_dial (env j) (ep_Addr (rt_endpoints r ! i)) = Inr conn)"
    using ans(2) m(2)
    by (auto simp: dial_answer_def nth_addresses length_addresses of_nat_diff split: sum.splits)
  show ?thesis
    unfolding m(1) [symmetric]
    using ans waits res counted by (simp add: dial_answer_def)
qed

text \<open>A router of one endpoint; the first dial is refused, the second works.\<close>

definition sample_conn :: server_conn where
  "sample_conn = \<lparr>sv_local_ip = [10, 0, 0, 1], sv_local_port = 40000, sv_remote_ip = [1, 2, 3, 4],
                  sv_remote_port = 443\<rparr>"

definition sample_attempt :: "nat \<Rightarrow> attempt_env" where
  "sample_attempt k =
     \<lparr>at_cancelled = None, at_wait_draw = 1 / 2, at_before = (\<lambda>r. r), at_now_pick = 0,
      at_pick_draw = 0, at_during = (\<lambda>r. r),
      at_dial = (\<lambda>addr. if k = 0 then Inl [''refused''] else Inr sample_conn), at_now_fail = 0\<rparr>"

definition sample_router :: router where
  "sample_router = \<lparr>rt_endpoints = [new_endpoint ''1.2.3.4:443''], rt_threshold = 5, rt_cooldown = 30\<rparr>"

lemma sample_dial:
  "dialWithRetry Default insertion_sort sample_attempt sample_router =
     (Inr (sample_conn, 0),
      with_endpoint 0 (snd (RecordFailure 5 (CircuitBreakerCooldown Default) 0
        (new_endpoint ''1.2.3.4:443''))) sample_router,
      [DialFailed 0 False, Waited (ExponentialBackoff (1 / 2) 0 100 5000)])"
proof -
  have retries: "max_attempts Default = Suc (Suc 2)" by (simp add: max_attempts_def Default_def)
  have cfg: "cf_RetryBaseMs Default = 100" "cf_RetryMaxMs Default = 5000"
    "cf_CircuitBreakerThreshold Default = 5" by (simp_all add: Default_def)
  show ?thesis
    unfolding dialWithRetry_def retries dial_loop.simps(2) cfg
    by (simp add: sample_attempt_def sample_router_def Pick_def pick_candidates_def new_endpoint_def
        ep_State_def insertion_sort_def RecordFailure_def with_endpoint_def Let_def)
qed

theorem dialWithRetry_contract_witness:
  "\<exists>r' evs. dialWithRetry Default insertion_sort sample_attempt sample_router =
     (Inr (sample_conn, 0), r', evs) \<and> filter (failed_on 0) evs = [DialFailed 0 False] \<and>
     ep_failed (rt_endpoints r' ! 0) = 1"
proof -
  have env: "\<forall>k. others_ok (sample_attempt k)" "\<forall>k. 0 \<le> at_wait_draw (sample_attempt k)"
    "\<forall>k. alone (sample_attempt k)"
    by (simp_all add: others_ok_def alone_def sample_attempt_def)
  from dialWithRetry_contract [OF small_sort.slice_sorter_axioms env(1,2) sample_dial] env(3)
  have "\<forall>j < length (rt_endpoints sample_router).
    ep_failed (rt_endpoints (with_endpoint 0 (snd (RecordFailure 5 (CircuitBreakerCooldown Default) 0
        (new_endpoint ''1.2.3.4:443''))) sample_router) ! j) =
      ep_failed (rt_endpoints sample_router ! j) +
        int (length (filter (failed_on j) [DialFailed 0 False, Waited (ExponentialBackoff (1 / 2) 0 100 5000)]))"
    by blast
  then show ?thesis
    unfolding sample_dial by (auto simp: sample_router_def new_endpoint_def)
qed

section \<open>The books of a connection\<close>

text \<open>The collector's gauges and counters of connections.\<close>

definition conn_books :: "Collector \<Rightarrow> int \<times> int \<times> int \<times> int \<times> int" where
  "conn_books m =
     (mc_activeConns m, mc_totalConns m, mc_failedConns m, mc_relayActive m,
      mc_bypassOK m + mc_bypassFail m)"

lemma conn_books_ops [simp]:
  "conn_books (RecordBypassStrategy s ok m) = conn_books m"
  "conn_books (RecordSNI sni m) = conn_books m"
  "conn_books (AddBytesIn n m) = conn_books m"
  "conn_books (AddBytesOut n m) = conn_books m"
  "conn_books (RecordLatency d m) = conn_books m"
  by (simp_all add: conn_books_def RecordBypassStrategy_def RecordSNI_def AddBytesIn_def
      AddBytesOut_def RecordLatency_def Let_def)

lemma conn_books_fold [simp]:
  assumes "\<And>x m. conn_books (f x m) = conn_books m"
  shows "conn_books (fold f xs m) = conn_books m"
  by (induction xs arbitrary: m) (simp_all add: assms)

lemma handle_relay_books:
  "handle_relay cfg env m = Some m' \<Longrightarrow> conn_books m' = conn_books m"
  by (auto simp: handle_relay_def Let_def split: if_splits bind_splits)

definition injecting :: "proxy_state \<Rightarrow> int" where
  "injecting st = (if px_adaptive st = None then 0 else 1)"

lemma handle_inject_books:
  assumes "handle_inject env p st = Some st'"
  shows "px_router st' = px_router st \<and> px_domains st' = px_domains st \<and>
    injecting st' = injecting st \<and>
    (case conn_books (px_metrics st) of (a, t, f, r, b) \<Rightarrow>
       conn_books (px_metrics st') = (a, t, f, r, b + injecting st))"
proof (cases "px_adaptive st")
  case None
  with assms show ?thesis by (auto simp: handle_inject_def injecting_def split: prod.split)
next
  case (Some a)
  obtain s e a' where inj: "Adaptive_Inject env p (a\<lparr>ad_recorder := Some []\<rparr>) = Some ((s, e), a')"
    using assms Some by (auto simp: handle_inject_def split: bind_splits)
  define m where "m = fold (\<lambda>(s, ok). RecordBypassStrategy s ok) (the (ad_recorder a')) (px_metrics st)"
  have "conn_books m = conn_books (px_metrics st)"
    unfolding m_def by (rule conn_books_fold) (simp split: prod.split)
  moreover have "st' = st\<lparr>px_metrics := (if e \<noteq> None then BypassFailed m else BypassOK m),
      px_adaptive := Some (a'\<lparr>ad_recorder := Some []\<rparr>)\<rparr>"
    using assms unfolding handle_inject_def Some option.case inj m_def by (simp add: Let_def)
  ultimately show ?thesis
    using Some by (auto simp: conn_books_def injecting_def BypassFailed_def BypassOK_def)
qed

lemma Handle_books:
  assumes "Handle cfg srt env st = Some (e, st')"
  shows "injecting st' = injecting st \<and>
    (case conn_books (px_metrics st) of (a, t, f, r, b) \<Rightarrow>
       conn_books (px_metrics st') =
         (if e \<noteq> None then (a - 1, t + 1, f + 1, r, b) else (a, t + 1, f, r, b + injecting st)))"
proof -
  let ?st = "st\<lparr>px_metrics := ConnOpened (px_metrics st)\<rparr>"
  obtain res r evs where dial: "dialWithRetry cfg srt (he_dial env) (px_router st) = (res, r, evs)"
    by (metis prod_cases3)
  show ?thesis
  proof (cases res)
    case (Inl err)
    with assms dial show ?thesis
      by (auto simp: Handle_def conn_books_def injecting_def ConnOpened_def ConnFailed_def ConnClosed_def)
  next
    case (Inr ci)
    obtain conn i where ci: "ci = (conn, i)" by fastforce
    let ?st1 = "?st\<lparr>px_router := r\<rparr>"
    let ?p = "handle_params cfg conn (he_seq env) (fake_sni cfg (px_domains ?st1))"
    obtain st2 where inj: "handle_inject (he_inject env) ?p ?st1 = Some st2"
      using assms dial Inr ci by (auto simp: Handle_def Let_def split: bind_splits)
    obtain m where rel: "handle_relay cfg env (RelayStarted (px_metrics st2)) = Some m"
      using assms dial Inr ci inj by (auto simp: Handle_def Let_def split: bind_splits)
    have out: "e = None" "px_adaptive st' = px_adaptive st2"
        "px_metrics st' = ConnClosed (RelayDone (RecordLatency (he_end env - he_start env) m))"
      using assms dial Inr ci inj rel by (auto simp: Handle_def Let_def)
    obtain a t f ra b where books: "conn_books (px_metrics st) = (a, t, f, ra, b)"
      by (metis prod_cases5)
    then have "conn_books (px_metrics ?st1) = (a + 1, t + 1, f, ra, b)"
      by (simp add: conn_books_def ConnOpened_def)
    with handle_inject_books [OF inj]
    have st2: "conn_books (px_metrics st2) = (a + 1, t + 1, f, ra, b + injecting st)"
      "injecting st2 = injecting st" by (simp_all add: injecting_def)
    have "conn_books (RecordLatency d m) = (a + 1, t + 1, f, ra + 1, b + injecting st)" for d
      unfolding conn_books_ops handle_relay_books [OF rel]
      using st2(1) by (simp add: conn_books_def RelayStarted_def)
    then have "conn_books (px_metrics st') = (a, t + 1, f, ra, b + injecting st)"
      unfolding out(3) by (simp add: conn_books_def RelayDone_def ConnClosed_def)
    then show ?thesis
      using out(1,2) st2(2) books by (simp add: injecting_def)
  qed
qed

text \<open>C8. What the gauges say after any number of connections. \<^verbatim>\<open>totalConns\<close> counts all of them and
  \<^verbatim>\<open>failedConns\<close> those whose dial failed, \<^verbatim>\<open>relayActive\<close> is back where it was and every relayed
  connection counts one bypass outcome when there is an adaptive bypass. But \<^verbatim>\<open>activeConns\<close> is not
  back where it was: each failed dial is subtracted twice, by \<^verbatim>\<open>ConnFailed\<close> and by the deferred
  \<^verbatim>\<open>ConnClosed\<close>, so the gauge is too low by the number of failed dials, and the limit
  \<^verbatim>\<open>MaxConnections\<close>, which is compared with it, is too high by as much.\<close>

theorem Handle_gauges:
  assumes "handle_all cfg srt envs st = Some (es, st')"
  shows "length es = length envs \<and>
    (let failed = int (length (filter (\<lambda>e. e \<noteq> None) es)); n = int (length es);
         m = px_metrics st; m' = px_metrics st'
     in mc_totalConns m' = mc_totalConns m + n \<and>
        mc_failedConns m' = mc_failedConns m + failed \<and>
        mc_relayActive m' = mc_relayActive m \<and>
        mc_bypassOK m' + mc_bypassFail m' =
          mc_bypassOK m + mc_bypassFail m + (if px_adaptive st = None then 0 else n - failed) \<and>
        mc_activeConns m' = mc_activeConns m - failed)"
  using assms
proof (induction envs arbitrary: st es)
  case (Cons env envs)
  obtain e st1 where h: "Handle cfg srt env st = Some (e, st1)"
    using Cons.prems by (auto split: bind_splits)
  obtain es' where t: "handle_all cfg srt envs st1 = Some (es', st')" "es = e # es'"
    using Cons.prems h by (auto split: bind_splits)
  have a: "(px_adaptive st1 = None) = (px_adaptive st = None)"
    using Handle_books [OF h] by (auto simp: injecting_def split: if_splits)
  show ?case
  proof (cases e)
    case None
    with Handle_books [OF h] Cons.IH [OF t(1)] t(2) a show ?thesis
      by (auto simp: Let_def conn_books_def injecting_def)
  next
    case (Some err)
    with Handle_books [OF h] Cons.IH [OF t(1)] t(2) a show ?thesis
      by (auto simp: Let_def conn_books_def injecting_def)
  qed
qed (simp add: Let_def)

text \<open>One connection that finds no endpoint to dial.\<close>

definition sample_handle :: handle_env where
  "sample_handle =
     \<lparr>he_start = 0, he_dial = sample_attempt, he_seq = (5, 9, 0), he_inject = sample_adaptive_env,
      he_client_reads = [], he_first_write = None, he_to_server = (\<lambda>_. None), he_server_reads = [],
      he_to_client = (\<lambda>_. None), he_in_first = True, he_end = 0, he_others = (\<lambda>r. r)\<rparr>"

definition sample_proxy :: "Endpoint list \<Rightarrow> proxy_state" where
  "sample_proxy eps =
     \<lparr>px_metrics = Metrics_New False [] 0, px_router = \<lparr>rt_endpoints = eps, rt_threshold = 5, rt_cooldown = 30\<rparr>,
      px_adaptive = None, px_domains = NewPool [''hcaptcha.com''] 443 300\<rparr>"

definition no_retry :: Config where
  "no_retry = Default\<lparr>cf_RetryLimit := 0\<rparr>"

lemma no_retry_attempts: "max_attempts no_retry = Suc 0"
  by (simp add: max_attempts_def no_retry_def)

lemma sample_handle_fails:
  "\<exists>e st'. handle_all no_retry insertion_sort [sample_handle] (sample_proxy []) = Some ([Some e], st')"
  by (simp add: Handle_def dialWithRetry_def no_retry_attempts sample_handle_def sample_proxy_def
      sample_attempt_def Pick_def pick_candidates_def Let_def)

theorem Handle_gauges_witness:
  "\<exists>e st'. handle_all no_retry insertion_sort [sample_handle] (sample_proxy []) = Some ([Some e], st') \<and>
     mc_activeConns (px_metrics (sample_proxy [])) = 0 \<and> mc_activeConns (px_metrics st') = - 1 \<and>
     mc_failedConns (px_metrics st') = 1"
proof -
  obtain e st' where run:
    "handle_all no_retry insertion_sort [sample_handle] (sample_proxy []) = Some ([Some e], st')"
    using sample_handle_fails by blast
  from Handle_gauges [OF this] run show ?thesis
    by (simp add: Let_def sample_proxy_def Metrics_New_def)
qed

section \<open>When a connection ends\<close>

definition adaptive_ok :: "proxy_state \<Rightarrow> bool" where
  "adaptive_ok st \<longleftrightarrow> (\<forall>a. px_adaptive st = Some a \<longrightarrow> lru_inv (ad_cache a))"

lemma handle_inject_total:
  assumes "adaptive_ok st"
  obtains st' where "handle_inject env p st = Some st'" "adaptive_ok st'"
proof (cases "px_adaptive st")
  case None
  have "handle_inject env p st = Some st" by (simp add: handle_inject_def None)
  with that assms show ?thesis by blast
next
  case (Some a)
  let ?a = "a\<lparr>ad_recorder := Some []\<rparr>"
  have inv: "lru_inv (ad_cache ?a)" using assms Some by (simp add: adaptive_ok_def)
  obtain s e a' where inj: "Inject_with lru_get lru_set env p ?a = Some ((s, e), a')"
    by (rule lru.Inject_total [OF inv])
  have "lru_inv (ad_cache a')" using lru.Inject_keeps_ok [OF inv inj] by blast
  with that inj Some show ?thesis
    by (simp add: handle_inject_def Adaptive_Inject_def adaptive_ok_def Let_def)
qed

lemma handle_relay_None: "(handle_relay cfg env m = None) = (handle_relay cfg env m' = None)"
  by (auto simp: handle_relay_def Let_def split: if_splits bind_splits)


text \<open>The dial works; the client sends nothing and never closes, so the relay waits for ever.\<close>

definition second_try :: handle_env where
  "second_try = sample_handle\<lparr>he_dial := (\<lambda>k. sample_attempt (Suc k))\<rparr>"


end
