(* ===== verification/Ja3.thy ===== *)
theory Ja3
  imports HelloRoundtrip
begin

text \<open>
  The JA3 fingerprint of \<^verbatim>\<open>internal/tls/clienthello.go\<close>: \<open>JA3String\<close> reads a
  ClientHello record back into its text form, with the GREASE values removed. \<open>None\<close> is a
  run-time panic.
\<close>

definition join_dash :: "nat list \<Rightarrow> string" where
  "join_dash vals =
     snd (foldl (\<lambda>(i, s) v. (Suc i, (if i > 0 then s @ ''-'' else s) @ dec v)) (0::nat, []) vals)"

definition joinUint16 :: "uint16 list \<Rightarrow> string" where
  "joinUint16 vals = join_dash (map unat vals)"

text \<open>\<^verbatim>\<open>for i := 0; i+1 < len(csData); i += 2\<close>\<close>

fun ja3_ciphers :: "bytes \<Rightarrow> uint16 list" where
  "ja3_ciphers (a # b # csData) =
     (let cs = be_uint16 a b
      in if \<not> isGREASE cs then cs # ja3_ciphers csData else ja3_ciphers csData)"
| "ja3_ciphers _ = []"

text \<open>
  \<^verbatim>\<open>for i := 0; i+1 < gLen && i+1 < len(gData); i += 2\<close>; the first argument is
  \<open>gLen - i\<close>.
\<close>

fun ja3_groups :: "nat \<Rightarrow> bytes \<Rightarrow> uint16 list" where
  "ja3_groups n (a # b # gData) =
     (if 1 < n
      then let g = be_uint16 a b
           in if \<not> isGREASE g then g # ja3_groups (n - 2) gData else ja3_groups (n - 2) gData
      else [])"
| "ja3_groups n _ = []"

record ja3_acc =
  ja3_extTypes :: "uint16 list"
  ja3_groups_of :: "uint16 list"
  ja3_ecPoints :: bytes

text \<open>The body of the loop over the extensions, for an extension that is not GREASE.\<close>

definition ja3_step :: "uint16 \<Rightarrow> bytes \<Rightarrow> ja3_acc \<Rightarrow> ja3_acc" where
  "ja3_step et eBody s =
     (let s = s\<lparr>ja3_extTypes := ja3_extTypes s @ [et]\<rparr>;
          s = (if et = extSupportedGroups \<and> length eBody \<ge> 2
               then s\<lparr>ja3_groups_of := ja3_groups_of s @
                      ja3_groups (unat (be_uint16 (eBody ! 0) (eBody ! 1))) (drop 2 eBody)\<rparr>
               else s)
      in if et = extECPointFormats \<and> length eBody \<ge> 1
         then let fmtLen = unat (eBody ! 0)
              in if length eBody \<ge> 1 + fmtLen
                 then s\<lparr>ja3_ecPoints := take fmtLen (drop 1 eBody)\<rparr> else s
         else s)"

fun ja3_walk :: "bytes \<Rightarrow> ja3_acc \<Rightarrow> ja3_acc" where
  "ja3_walk (t1 # t2 # l1 # l2 # extData) s =
     (let et = be_uint16 t1 t2; el = unat (be_uint16 l1 l2)
      in if length extData < el then s
         else let eBody = take el extData; rest = drop el extData
              in if isGREASE et then ja3_walk rest s
                 else ja3_walk rest (ja3_step et eBody s))"
| "ja3_walk _ s = s"

definition ja3_text :: "uint16 list \<Rightarrow> uint16 list \<Rightarrow> uint16 list \<Rightarrow> bytes \<Rightarrow> string" where
  "ja3_text ciphers extTypes groups ecPoints =
     ''771,'' @ joinUint16 ciphers @ '','' @ joinUint16 extTypes @ '','' @
     joinUint16 groups @ '','' @ join_dash (map unat ecPoints)"

definition JA3String :: "bytes \<Rightarrow> string option" where
  "JA3String rcd =
     (if length rcd < 9 then Some []
      else do {
        data \<leftarrow> go_from rcd 9;
        if length data < 34 then Some []
        else do {
          data \<leftarrow> go_from data 34;
          if length data < 1 then Some []
          else do {
            sl \<leftarrow> go_at data 0;
            data \<leftarrow> go_from data (1 + unat sl);
            if length data < 2 then Some []
            else do {
              csLen \<leftarrow> go_be16_at data 0;
              data \<leftarrow> go_from data 2;
              if length data < csLen then Some []
              else do {
                csData \<leftarrow> go_slice data 0 csLen;
                data \<leftarrow> go_from data csLen;
                if length data < 1 then Some []
                else do {
                  cl \<leftarrow> go_at data 0;
                  data \<leftarrow> go_from data (1 + unat cl);
                  if length data < 2 then Some []
                  else do {
                    extLen \<leftarrow> go_be16_at data 0;
                    data \<leftarrow> go_from data 2;
                    if length data < extLen then Some []
                    else do {
                      extData \<leftarrow> go_slice data 0 extLen;
                      let s = ja3_walk extData \<lparr>ja3_extTypes = [], ja3_groups_of = [],
                                ja3_ecPoints = []\<rparr>;
                      Some (ja3_text (ja3_ciphers csData) (ja3_extTypes s) (ja3_groups_of s)
                              (ja3_ecPoints s))
                    }
                  }
                }
              }
            }
          }
        }
      })"

section \<open>Reading a built hello\<close>

abbreviation (input) not_grease :: "uint16 list \<Rightarrow> uint16 list" where
  "not_grease vs \<equiv> filter (\<lambda>v. \<not> isGREASE v) vs"

lemma ja3_ciphers_put: "ja3_ciphers (concat (map put_uint16 vs)) = not_grease vs"
  by (induction vs) (simp_all add: put_uint16_def Let_def)

lemma ja3_groups_put:
  "n = 2 * length vs \<Longrightarrow> ja3_groups n (concat (map put_uint16 vs)) = not_grease vs"
  by (induction vs arbitrary: n) (simp_all add: put_uint16_def Let_def)

definition ja3_visit :: "uint16 \<times> bytes \<Rightarrow> ja3_acc \<Rightarrow> ja3_acc" where
  "ja3_visit e s = (if isGREASE (fst e) then s else ja3_step (fst e) (snd e) s)"

lemma ja3_walk_enc:
  "length (snd e) < 65536 \<Longrightarrow> ja3_walk (enc_ext e @ rest) s = ja3_walk rest (ja3_visit e s)"
  by (simp add: enc_ext_def put_uint16_def Let_def ja3_visit_def)

lemma ja3_walk_enc_exts:
  "\<forall>e \<in> set es. length (snd e) < 65536 \<Longrightarrow> ja3_walk (enc_exts es) s = fold ja3_visit es s"
  by (induction es arbitrary: s) (simp_all add: ja3_walk_enc)

lemma go_be16_at_0_put:
  "n < 65536 \<Longrightarrow> go_be16_at (put_uint16 (word_of_nat n) @ ys) 0 = Some n"
  using go_be16_at_put [of "[]" 0 n ys] by simp

lemma JA3String_record:
  assumes "length hdr = 9" and "length fixed = 34" and "length sess < 256"
    and "length cs < 65536" and "length cm < 256" and "length exts < 65536"
  shows "JA3String (hdr @ hello_layout fixed sess cs cm exts) =
     (let s = ja3_walk exts \<lparr>ja3_extTypes = [], ja3_groups_of = [], ja3_ecPoints = []\<rparr>
      in Some (ja3_text (ja3_ciphers cs) (ja3_extTypes s) (ja3_groups_of s) (ja3_ecPoints s)))"
proof -
  have "go_from (hdr @ ys) 9 = Some ys" "go_from (fixed @ ys) 34 = Some ys"
    "go_from (b # sess @ ys) (Suc (length sess)) = Some ys"
    "go_from (b # cm @ ys) (Suc (length cm)) = Some ys"
    "go_from (put_uint16 v @ ys) 2 = Some ys" for b v ys
    using assms by simp_all
  then show ?thesis
    using assms
    by (simp add: JA3String_def hello_layout_def go_be16_at_0_put unat_of_nat8 Let_def
        del: go_be16_at_Some)
qed

lemma fold_visit_extTypes:
  "ja3_extTypes (fold ja3_visit es s) = ja3_extTypes s @ not_grease (map fst es)"
  by (induction es arbitrary: s) (auto simp: ja3_visit_def ja3_step_def Let_def)

definition ja3_groups_in :: "uint16 \<times> bytes \<Rightarrow> uint16 list" where
  "ja3_groups_in e =
     (if fst e = extSupportedGroups \<and> length (snd e) \<ge> 2
      then ja3_groups (unat (be_uint16 (snd e ! 0) (snd e ! 1))) (drop 2 (snd e)) else [])"

lemma not_isGREASE_10: "\<not> isGREASE 10" and not_isGREASE_11: "\<not> isGREASE 11"
  by (simp_all add: isGREASE_def)

lemma fold_visit_groups:
  "ja3_groups_of (fold ja3_visit es s) = ja3_groups_of s @ concat (map ja3_groups_in es)"
proof (induction es arbitrary: s)
  case Nil
  then show ?case by simp
next
  case (Cons e es)
  have "ja3_groups_of (ja3_visit e s) = ja3_groups_of s @ ja3_groups_in e"
    using not_isGREASE_10
    by (auto simp: ja3_visit_def ja3_step_def ja3_groups_in_def Let_def)
  with Cons show ?case by simp
qed

lemma fold_visit_points:
  assumes "\<forall>e \<in> set es. fst e = extECPointFormats \<longrightarrow> snd e = [0x01, 0x00]"
  shows "ja3_ecPoints (fold ja3_visit es s) =
     (if extECPointFormats \<in> fst ` set es then [0x00] else ja3_ecPoints s)"
  using assms
proof (induction es arbitrary: s)
  case Nil
  then show ?case by simp
next
  case (Cons e es)
  have "ja3_ecPoints (ja3_visit e s) = (if fst e = extECPointFormats then [0x00] else ja3_ecPoints s)"
    using Cons.prems not_isGREASE_11
    by (auto simp: ja3_visit_def ja3_step_def Let_def)
  moreover have "\<forall>e \<in> set es. fst e = extECPointFormats \<longrightarrow> snd e = [0x01, 0x00]"
    using Cons.prems by simp
  ultimately show ?case
    using Cons.IH [of "ja3_visit e s"] by auto
qed

lemma ja3_groups_in_body:
  assumes "length vs < 30000"
  shows "ja3_groups_in (extSupportedGroups, uint16_list_body vs) = not_grease vs"
proof -
  let ?b = "concat (map put_uint16 vs)"
  have "uint16_list_body vs = put_uint16 (word_of_nat (2 * length vs)) @ ?b"
    by (simp add: uint16_list_body_def Let_def buf_defs writeUint16s_eq del: of_nat_mult)
  then show ?thesis
    using assms by (simp add: ja3_groups_in_def put_uint16_def ja3_groups_put del: of_nat_mult)
qed

section \<open>The fingerprint of a built hello\<close>

text \<open>The extensions a profile sends: those of its order that the builder has a body for.\<close>

definition sent_types :: "profile \<Rightarrow> uint16 list" where
  "sent_types p =
     filter (\<lambda>t. buildExtensions [] [] p t \<noteq> None) (prof_ExtensionOrder p)"

lemma buildExtensions_None_iff:
  "buildExtensions sni ks p t = None \<longleftrightarrow> buildExtensions [] [] p t = None"
  by (simp add: buildExtensions_def Let_def split: option.split)

lemma map_fst_profile_exts: "map fst (profile_exts p (buildExtensions sni ks p)) = sent_types p"
proof -
  have "map fst (List.map_filter (\<lambda>t. map_option (Pair t) (m t)) ts) = filter (\<lambda>t. m t \<noteq> None) ts"
    for m :: "uint16 \<Rightarrow> bytes option" and ts
    by (induction ts) (auto simp: map_filter_simps)
  then show ?thesis
    using buildExtensions_None_iff [of sni ks p]
    by (simp add: profile_exts_def sent_types_def del: not_None_eq)
qed

lemma allProfiles_cases:
  assumes "p \<in> set allProfiles"
  obtains "p = Chrome124" | "p = Firefox125" | "p = Safari17" | "p = Edge124" | "p = Chrome120"
  using assms by (auto simp: allProfiles_def)

lemma profile_no_grease:
  assumes "p \<in> set allProfiles"
  shows "not_grease (prof_ExtensionOrder p) = prof_ExtensionOrder p"
    and "not_grease (prof_CipherSuites p) = prof_CipherSuites p"
    and "not_grease (prof_SupportedGroups p) = prof_SupportedGroups p"
  using assms by (auto simp: allProfiles_def profile_defs isGREASE_def)

lemma not_grease_sent_types:
  assumes "p \<in> set allProfiles"
  shows "not_grease (sent_types p) = sent_types p"
proof -
  have "not_grease (sent_types p) =
      filter (\<lambda>t. buildExtensions [] [] p t \<noteq> None) (not_grease (prof_ExtensionOrder p))"
    by (simp add: sent_types_def conj_commute)
  then show ?thesis by (simp only: profile_no_grease [OF assms] sent_types_def)
qed

lemma not_grease_ext:
  "not_grease (map fst (grease_ext p r)) = []"
  "concat (map ja3_groups_in (grease_ext p r)) = []"
  "concat (map ja3_groups_in (pad_ext n)) = []"
  using isGREASE_randomGREASE [of r] not_isGREASE_10
  by (auto simp: grease_ext_def pad_ext_def ja3_groups_in_def)

lemma profile_exts_groups:
  assumes "p \<in> set allProfiles"
  shows "concat (map ja3_groups_in (profile_exts p (buildExtensions sni ks p))) =
     prof_SupportedGroups p"
  using assms
  by (cases rule: allProfiles_cases)
    (simp_all add: profile_exts_def buildExtensions_def Let_def profile_defs map_filter_simps
      ja3_groups_in_body isGREASE_def,
     simp_all add: ja3_groups_in_def)

lemma profile_exts_points:
  assumes "p \<in> set allProfiles"
  shows "\<forall>e \<in> set (profile_exts p (buildExtensions sni ks p)).
      fst e = extECPointFormats \<longrightarrow> snd e = [0x01, 0x00]"
    and "extECPointFormats \<in> fst ` set (profile_exts p (buildExtensions sni ks p))"
  using assms
  by (cases rule: allProfiles_cases,
      simp_all add: profile_exts_def buildExtensions_def Let_def profile_defs map_filter_simps)+

lemma build_ciphers_ja3:
  assumes "p \<in> set allProfiles"
  shows "ja3_ciphers (build_ciphers p r) = prof_CipherSuites p @ [0x00FF]"
proof -
  have "build_ciphers p r = concat (map put_uint16
      ((if prof_UseGREASE p then [randomGREASE r] else []) @ prof_CipherSuites p @ [0x00FF]))"
    by (simp add: build_ciphers_def buf_defs writeUint16s_eq Let_def)
  then have "ja3_ciphers (build_ciphers p r) =
      not_grease ((if prof_UseGREASE p then [randomGREASE r] else []) @
        prof_CipherSuites p @ [0x00FF])"
    by (simp only: ja3_ciphers_put)
  then show ?thesis
    using profile_no_grease(2) [OF assms] isGREASE_randomGREASE [of r]
    by (simp add: isGREASE_def)
qed

text \<open>What the walk gathers from the extensions of a built hello.\<close>

lemma hello_exts_gathered:
  assumes "p \<in> set allProfiles"
  defines "s es \<equiv> fold ja3_visit es \<lparr>ja3_extTypes = [], ja3_groups_of = [], ja3_ecPoints = []\<rparr>"
  assumes es: "es = grease_ext p g @ profile_exts p (buildExtensions sni ks p) @ pad_ext pad"
  shows "ja3_extTypes (s es) = sent_types p @ (if pad > 0 then [extPadding] else [])"
    and "ja3_groups_of (s es) = prof_SupportedGroups p"
    and "ja3_ecPoints (s es) = [0x00]"
proof -
  show "ja3_extTypes (s es) = sent_types p @ (if pad > 0 then [extPadding] else [])"
    unfolding s_def fold_visit_extTypes es map_append filter_append map_fst_profile_exts
      not_grease_ext not_grease_sent_types [OF assms(1)]
    by (simp add: pad_ext_def isGREASE_def)
  show "ja3_groups_of (s es) = prof_SupportedGroups p"
    unfolding s_def fold_visit_groups es map_append concat_append not_grease_ext
      profile_exts_groups [OF assms(1)] by simp
  have grease_types: "(extECPointFormats, b) \<notin> set (grease_ext p r)" for b r
    using isGREASE_randomGREASE [of r] not_isGREASE_11 by (auto simp: grease_ext_def)
  have "\<forall>e \<in> set es. fst e = extECPointFormats \<longrightarrow> snd e = [0x01, 0x00]"
    using profile_exts_points(1) [OF assms(1)] grease_types
    by (auto simp: es pad_ext_def)
  moreover have "extECPointFormats \<in> fst ` set es"
    using profile_exts_points(2) [OF assms(1), of sni ks] unfolding es by auto
  ultimately show "ja3_ecPoints (s es) = [0x00]"
    unfolding s_def by (simp add: fold_visit_points)
qed

text \<open>The fingerprint of a built hello depends on the profile alone: it lists the profile's
  suites (and \<open>0x00FF\<close>), the extensions the profile sends (and padding, when the hello is
  padded) and its groups, and none of the GREASE values, random bytes or the SNI show in it.\<close>

theorem JA3String_Build:
  assumes "p \<in> set allProfiles" and "Build p sni ent = Inr rec" and "length sni \<le> 15000"
  shows "JA3String rec = Some (ja3_text (prof_CipherSuites p @ [0x00FF])
     (sent_types p @
       (if int (unpadded_length p sni ent) < 515 + jitter ent then [extPadding] else []))
     (prof_SupportedGroups p) [0x00])"
proof -
  let ?cs = "build_ciphers p (ent_grease_cs ent)"
  obtain rnd sess ks where lens: "length rnd = 32" "length sess = 32" "length ks = 32"
    and rec: "rec = build_record (build_hello rnd sess ?cs (enc_exts (hello_exts p sni ks ent)))"
    by (rule Build_Inr [OF assms(2)])
  let ?es = "hello_exts p sni ks ent"
  let ?pad = "515 + jitter ent - int (unpadded_length p sni ent)"
  have es: "?es = grease_ext p (ent_grease_ext ent) @
      profile_exts p (buildExtensions sni ks p) @ pad_ext ?pad"
    by (rule hello_exts_padded [OF lens(3)])
  have len: "82 + length ?cs + length (enc_exts ?es) \<le> 15535"
    using Build_profile_length [OF assms(1,2)] assms(3) lens
    unfolding rec by (simp add: length_build_record length_build_hello)
  have small: "\<forall>e \<in> set ?es. length (snd e) < 65536"
    using length_enc_exts_mem [of _ ?es] len by fastforce
  note gathered = hello_exts_gathered [OF assms(1) es]
  have "rec = (0x16 # put_uint16 0x0301 @
      put_uint16 (word_of_nat (length (build_hello rnd sess ?cs (enc_exts ?es)) + 4)) @
      0x01 # put_uint24 (word_of_nat (length (build_hello rnd sess ?cs (enc_exts ?es))))) @
      hello_layout (put_uint16 0x0303 @ rnd) sess ?cs [0] (enc_exts ?es)"
    unfolding rec build_record_bytes by (simp add: build_hello_layout)
  then have "JA3String rec = (let s = ja3_walk (enc_exts ?es)
        \<lparr>ja3_extTypes = [], ja3_groups_of = [], ja3_ecPoints = []\<rparr>
      in Some (ja3_text (ja3_ciphers ?cs) (ja3_extTypes s) (ja3_groups_of s) (ja3_ecPoints s)))"
    using len lens by (simp only:) (rule JA3String_record, simp_all)
  then show ?thesis
    unfolding ja3_walk_enc_exts [OF small] Let_def gathered
      build_ciphers_ja3 [OF assms(1)] by simp
qed

theorem JA3String_Build_witness:
  "\<exists>rec. Build Chrome124 ''hcaptcha.com'' zero_entropy = Inr rec \<and>
     JA3String rec = Some (ja3_text (prof_CipherSuites Chrome124 @ [0x00FF])
       (sent_types Chrome124 @
         (if int (unpadded_length Chrome124 ''hcaptcha.com'' zero_entropy)
             < 515 + jitter zero_entropy then [extPadding] else []))
       (prof_SupportedGroups Chrome124) [0x00])"
proof -
  obtain rec where "Build Chrome124 ''hcaptcha.com'' zero_entropy = Inr rec"
    using Build_zero_entropy by blast
  with JA3String_Build [OF _ this] show ?thesis by (simp add: allProfiles_def)
qed

definition sends_sig_algs :: "profile \<Rightarrow> string \<Rightarrow> bytes \<Rightarrow> entropy \<Rightarrow> bool" where
  "sends_sig_algs p sni ks ent \<longleftrightarrow> extSigAlgs \<in> fst ` set (hello_exts p sni ks ent)"

lemma sends_sig_algs_iff:
  "sends_sig_algs p sni ks ent \<longleftrightarrow> extSigAlgs \<in> set (prof_ExtensionOrder p)"
proof -
  have grease: "extSigAlgs \<notin> fst ` set (grease_ext p (ent_grease_ext ent))"
    using isGREASE_randomGREASE [of "ent_grease_ext ent"]
    by (auto simp: grease_ext_def isGREASE_def)
  have pad: "extSigAlgs \<notin> fst ` set (pad_ext n)" for n
    by (auto simp: pad_ext_def)
  have "fst ` set (profile_exts p (buildExtensions sni ks p)) = set (sent_types p)"
    by (metis list.set_map map_fst_profile_exts)
  then have "extSigAlgs \<in> fst ` set (profile_exts p (buildExtensions sni ks p)) \<longleftrightarrow>
      extSigAlgs \<in> set (prof_ExtensionOrder p)"
    by (auto simp: sent_types_def buildExtensions_def Let_def split: option.splits)
  then show ?thesis
    unfolding sends_sig_algs_def hello_exts_def Let_def set_append image_Un
    using grease pad by blast
qed

text \<open>The Chrome and Edge profiles configure signature algorithms, the builder makes the
  extension's body from them, and no hello of these profiles carries it: their extension orders
  omit the extension. Firefox and Safari hellos do carry it.\<close>

theorem sig_algs_dropped:
  "buildExtensions sni ks p extSigAlgs = Some (uint16_list_body (prof_SigAlgs p)) \<and>
   prof_SigAlgs Chrome124 \<noteq> [] \<and> \<not> sends_sig_algs Chrome124 sni ks ent \<and>
   prof_SigAlgs Edge124 \<noteq> [] \<and> \<not> sends_sig_algs Edge124 sni ks ent \<and>
   prof_SigAlgs Chrome120 \<noteq> [] \<and> \<not> sends_sig_algs Chrome120 sni ks ent \<and>
   sends_sig_algs Firefox125 sni ks ent \<and> sends_sig_algs Safari17 sni ks ent"
  unfolding sends_sig_algs_iff
  by (simp add: profile_defs buildExtensions_def Let_def split: option.split)

section \<open>Where the reader panics\<close>

text \<open>
  The two skips \<^verbatim>\<open>data = data[1+sessLen:]\<close> and \<^verbatim>\<open>data = data[1+compLen:]\<close> are made without a
  check that the bytes are there.
\<close>

definition ja3_skip_overruns :: "bytes \<Rightarrow> bool" where
  "ja3_skip_overruns rest \<longleftrightarrow> rest \<noteq> [] \<and> length rest < 1 + unat (hd rest)"

definition ja3_after_session :: "bytes \<Rightarrow> bytes" where
  "ja3_after_session rest = drop (1 + unat (hd rest)) rest"

definition ja3_after_ciphers :: "bytes \<Rightarrow> bytes" where
  "ja3_after_ciphers rest = drop (2 + unat (be_uint16 (rest ! 0) (rest ! 1))) rest"

lemma go_from_cases: "go_from xs n = (if n \<le> length xs then Some (drop n xs) else None)"
  by (simp add: go_from_def go_slice_def)


end
