(* ===== verification/RateLimiter.thy ===== *)
theory RateLimiter
  imports Timing
begin

text \<open>
  The per-address rate limiter of \<^verbatim>\<open>internal/proxy/server.go\<close>: a sliding window of one
  second per address, and the cleanup of idle addresses. \<^verbatim>\<open>allow\<close> and \<^verbatim>\<open>cleanup\<close> are
  single steps here; in the code an \<^verbatim>\<open>allow\<close> that has fetched its bucket can overlap the
  cleanup that drops the bucket.
\<close>

record ipBucket =
  rb_timestamps :: "int list"
  rb_lastSeen :: int

record rateLimiter =
  rl_limit :: int
  rl_buckets :: "string \<rightharpoonup> ipBucket"

definition newRateLimiter :: "int \<Rightarrow> rateLimiter" where
  "newRateLimiter limit = \<lparr>rl_limit = limit, rl_buckets = Map.empty\<rparr>"

text \<open>The loop that keeps recent timestamps in place: \<open>is\<close> are the positions still to read,
  \<open>j\<close> the next to write.\<close>

fun compact_loop :: "int \<Rightarrow> nat list \<Rightarrow> int list \<Rightarrow> nat \<Rightarrow> int list \<times> nat" where
  "compact_loop cutoff [] ts j = (ts, j)"
| "compact_loop cutoff (i # is) ts j =
     (let t = ts ! i
      in if t \<ge> cutoff then compact_loop cutoff is (ts[j := t]) (Suc j)
         else compact_loop cutoff is ts j)"

definition compact :: "int \<Rightarrow> int list \<Rightarrow> int list" where
  "compact cutoff ts = (case compact_loop cutoff [0..<length ts] ts 0 of (ts', j) \<Rightarrow> take j ts')"

definition rl_allow :: "string \<Rightarrow> int \<Rightarrow> rateLimiter \<Rightarrow> bool \<times> rateLimiter" where
  "rl_allow ip now r =
     (let b = (case rl_buckets r ip of Some b \<Rightarrow> b
               | None \<Rightarrow> \<lparr>rb_timestamps = [], rb_lastSeen = 0\<rparr>);
          b = b\<lparr>rb_lastSeen := now\<rparr>;
          cutoff = now - Second;
          b = b\<lparr>rb_timestamps := compact cutoff (rb_timestamps b)\<rparr>
      in if int (length (rb_timestamps b)) \<ge> rl_limit r
         then (False, r\<lparr>rl_buckets := (rl_buckets r)(ip \<mapsto> b)\<rparr>)
         else (True, r\<lparr>rl_buckets := (rl_buckets r)(ip \<mapsto>
                  b\<lparr>rb_timestamps := rb_timestamps b @ [now]\<rparr>)\<rparr>))"

definition rl_cleanup :: "int \<Rightarrow> rateLimiter \<Rightarrow> rateLimiter" where
  "rl_cleanup now r =
     (let cutoff = now - 2 * 60 * Second
      in r\<lparr>rl_buckets := (\<lambda>ip. case rl_buckets r ip of None \<Rightarrow> None
              | Some b \<Rightarrow> if rb_lastSeen b < cutoff then None else Some b)\<rparr>)"

text \<open>\<^verbatim>\<open>cleanupLoop\<close>, at the times of its ticks.\<close>

fun cleanupLoop :: "int list \<Rightarrow> rateLimiter \<Rightarrow> rateLimiter" where
  "cleanupLoop [] r = r"
| "cleanupLoop (now # ticks) r = cleanupLoop ticks (rl_cleanup now r)"

section \<open>The in-place loop is a filter\<close>

lemma compact_loop_filter:
  assumes "j \<le> k" and "k \<le> length ts"
  shows "\<exists>ts' j'. compact_loop cutoff [k..<length ts] ts j = (ts', j') \<and> length ts' = length ts \<and>
    take j' ts' = take j ts @ filter (\<lambda>t. t \<ge> cutoff) (drop k ts)"
  using assms
proof (induction "length ts - k" arbitrary: k ts j)
  case 0
  then show ?case by simp
next
  case (Suc n)
  then have k: "k < length ts" by linarith
  then have upt: "[k..<length ts] = k # [Suc k..<length ts]" by (simp add: upt_conv_Cons)
  have dr: "drop k ts = ts ! k # drop (Suc k) ts" by (rule Cons_nth_drop_Suc [OF k, symmetric])
  show ?case
  proof (cases "ts ! k \<ge> cutoff")
    case True
    let ?ts = "ts[j := ts ! k]"
    have "\<exists>ts' j'. compact_loop cutoff [Suc k..<length ?ts] ?ts (Suc j) = (ts', j') \<and>
        length ts' = length ?ts \<and>
        take j' ts' = take (Suc j) ?ts @ filter (\<lambda>t. t \<ge> cutoff) (drop (Suc k) ?ts)"
      using Suc.hyps(2) Suc.prems k by (intro Suc.hyps(1)) simp_all
    moreover have "take (Suc j) ?ts = take j ts @ [ts ! k]"
      using Suc.prems k by (simp add: take_Suc_conv_app_nth)
    moreover have "drop (Suc k) ?ts = drop (Suc k) ts"
      using Suc.prems by simp
    ultimately show ?thesis using True by (simp add: upt dr)
  next
    case False
    have "\<exists>ts' j'. compact_loop cutoff [Suc k..<length ts] ts j = (ts', j') \<and>
        length ts' = length ts \<and>
        take j' ts' = take j ts @ filter (\<lambda>t. t \<ge> cutoff) (drop (Suc k) ts)"
      using Suc.hyps(2) Suc.prems k by (intro Suc.hyps(1)) simp_all
    with False show ?thesis by (simp add: upt dr)
  qed
qed

lemma compact_filter [simp]: "compact cutoff ts = filter (\<lambda>t. t \<ge> cutoff) ts"
  using compact_loop_filter [of 0 0 ts cutoff] by (auto simp: compact_def)

section \<open>Histories\<close>

datatype rl_event = Allow string int | Cleanup int

fun rl_time :: "rl_event \<Rightarrow> int" where
  "rl_time (Allow ip now) = now"
| "rl_time (Cleanup now) = now"

fun rl_exec :: "rl_event list \<Rightarrow> rateLimiter \<Rightarrow> bool list" where
  "rl_exec [] r = []"
| "rl_exec (Allow ip now # evs) r = (case rl_allow ip now r of (ok, r) \<Rightarrow> ok # rl_exec evs r)"
| "rl_exec (Cleanup now # evs) r = rl_exec evs (rl_cleanup now r)"

lemma rl_exec_cleanupLoop: "rl_exec (map Cleanup ticks @ evs) r = rl_exec evs (cleanupLoop ticks r)"
  by (induction ticks arbitrary: r) simp_all

text \<open>
  The abstract limiter remembers every accepted call for ever, and accepts a call when fewer
  than \<open>limit\<close> calls of its address were accepted in the second before it.
\<close>

type_synonym accepted = "(string \<times> int) list"

definition in_window :: "string \<Rightarrow> int \<Rightarrow> int \<Rightarrow> accepted \<Rightarrow> nat" where
  "in_window ip lo hi hist = length (filter (\<lambda>(ip', t). ip' = ip \<and> lo \<le> t \<and> t \<le> hi) hist)"

fun spec_log :: "int \<Rightarrow> rl_event list \<Rightarrow> accepted \<Rightarrow> accepted" where
  "spec_log limit [] hist = hist"
| "spec_log limit (Allow ip now # evs) hist =
     spec_log limit evs
       (if int (in_window ip (now - Second) now hist) < limit then hist @ [(ip, now)] else hist)"
| "spec_log limit (Cleanup now # evs) hist = spec_log limit evs hist"

fun spec_answers :: "int \<Rightarrow> rl_event list \<Rightarrow> accepted \<Rightarrow> bool list" where
  "spec_answers limit [] hist = []"
| "spec_answers limit (Allow ip now # evs) hist =
     (let ok = int (in_window ip (now - Second) now hist) < limit
      in ok # spec_answers limit evs (if ok then hist @ [(ip, now)] else hist))"
| "spec_answers limit (Cleanup now # evs) hist = spec_answers limit evs hist"

text \<open>The buckets hold what the hist still needs: \<open>now\<close> is a time before which nothing more
  can happen.\<close>

definition log_times :: "string \<Rightarrow> accepted \<Rightarrow> int list" where
  "log_times ip hist = map snd (filter (\<lambda>x. fst x = ip) hist)"

definition rl_related :: "int \<Rightarrow> rateLimiter \<Rightarrow> accepted \<Rightarrow> bool" where
  "rl_related now r hist \<longleftrightarrow>
     (\<forall>x \<in> set hist. snd x \<le> now) \<and>
     (\<forall>ip. filter (\<lambda>t. t \<ge> now - Second) (log_times ip hist) =
        filter (\<lambda>t. t \<ge> now - Second)
          (case rl_buckets r ip of None \<Rightarrow> [] | Some b \<Rightarrow> rb_timestamps b)) \<and>
     (\<forall>ip b. rl_buckets r ip = Some b \<longrightarrow> (\<forall>t \<in> set (rb_timestamps b). t \<le> rb_lastSeen b))"

lemma rl_related_new: "rl_related now (newRateLimiter limit) []"
  by (simp add: rl_related_def newRateLimiter_def log_times_def)

lemma filter_later:
  fixes xs :: "int list"
  assumes "filter (\<lambda>t. t \<ge> a) xs = filter (\<lambda>t. t \<ge> a) ys" and "a \<le> b"
  shows "filter (\<lambda>t. t \<ge> b) xs = filter (\<lambda>t. t \<ge> b) ys"
proof -
  have "filter (\<lambda>t. t \<ge> b) zs = filter (\<lambda>t. t \<ge> b) (filter (\<lambda>t. t \<ge> a) zs)" for zs :: "int list"
    using assms(2) by (induction zs) auto
  with assms(1) show ?thesis by metis
qed

lemma rl_related_later: "rl_related now r hist \<Longrightarrow> now \<le> now' \<Longrightarrow> rl_related now' r hist"
  unfolding rl_related_def by (fastforce intro: filter_later)

lemma in_window_times:
  assumes "\<forall>x \<in> set hist. snd x \<le> now"
  shows "in_window ip lo now hist = length (filter (\<lambda>t. t \<ge> lo) (log_times ip hist))"
  using assms unfolding in_window_def log_times_def by (induction hist) auto

lemma rl_limit_frame [simp]:
  "rl_limit (snd (rl_allow ip now r)) = rl_limit r" "rl_limit (rl_cleanup now r) = rl_limit r"
  by (simp_all add: rl_allow_def rl_cleanup_def Let_def)

lemma rl_allow_related:
  assumes rel: "rl_related now r hist"
  shows "fst (rl_allow ip now r) \<longleftrightarrow>
      int (in_window ip (now - Second) now hist) < rl_limit r"
    and "rl_related now (snd (rl_allow ip now r))
      (if fst (rl_allow ip now r) then hist @ [(ip, now)] else hist)"
proof -
  define ts where "ts = (case rl_buckets r ip of None \<Rightarrow> [] | Some b \<Rightarrow> rb_timestamps b)"
  have past: "\<forall>x \<in> set hist. snd x \<le> now"
    and eq: "\<And>ip. filter (\<lambda>t. t \<ge> now - Second) (log_times ip hist) =
        filter (\<lambda>t. t \<ge> now - Second)
          (case rl_buckets r ip of None \<Rightarrow> [] | Some b \<Rightarrow> rb_timestamps b)"
    and seen: "\<And>ip b. rl_buckets r ip = Some b \<Longrightarrow> \<forall>t \<in> set (rb_timestamps b). t \<le> rb_lastSeen b"
    using rel unfolding rl_related_def by blast+
  have ts: "filter (\<lambda>t. t \<ge> now - Second) ts = filter (\<lambda>t. t \<ge> now - Second) (log_times ip hist)"
    using eq [of ip] by (simp add: ts_def)
  have kept_past: "\<forall>t \<in> set (filter (\<lambda>t. t \<ge> now - Second) ts). t \<le> now"
    unfolding ts using past by (auto simp: log_times_def)
  define b where "b = \<lparr>rb_timestamps = filter (\<lambda>t. t \<ge> now - Second) ts, rb_lastSeen = now\<rparr>"
  have allow: "rl_allow ip now r =
      (if int (length (rb_timestamps b)) \<ge> rl_limit r
       then (False, r\<lparr>rl_buckets := (rl_buckets r)(ip \<mapsto> b)\<rparr>)
       else (True, r\<lparr>rl_buckets := (rl_buckets r)(ip \<mapsto>
                b\<lparr>rb_timestamps := rb_timestamps b @ [now]\<rparr>)\<rparr>))"
  proof (cases "rl_buckets r ip")
    case None
    then show ?thesis by (simp add: rl_allow_def b_def ts_def Let_def)
  next
    case (Some a)
    then show ?thesis by (cases a) (simp add: rl_allow_def b_def ts_def Let_def)
  qed
  show ok: "fst (rl_allow ip now r) \<longleftrightarrow>
      int (in_window ip (now - Second) now hist) < rl_limit r"
    by (simp add: allow b_def ts in_window_times [OF past])
  show "rl_related now (snd (rl_allow ip now r))
      (if fst (rl_allow ip now r) then hist @ [(ip, now)] else hist)"
    unfolding rl_related_def
  proof (intro conjI allI)
    show "\<forall>x \<in> set (if fst (rl_allow ip now r) then hist @ [(ip, now)] else hist). snd x \<le> now"
      using past by simp
    fix ip'
    show "filter (\<lambda>t. t \<ge> now - Second)
        (log_times ip' (if fst (rl_allow ip now r) then hist @ [(ip, now)] else hist)) =
      filter (\<lambda>t. t \<ge> now - Second)
        (case rl_buckets (snd (rl_allow ip now r)) ip' of None \<Rightarrow> [] | Some b \<Rightarrow> rb_timestamps b)"
      using eq [of ip'] ts by (auto simp: allow b_def log_times_def Second_def)
  next
    fix ip' b'
    show "rl_buckets (snd (rl_allow ip now r)) ip' = Some b' \<longrightarrow>
        (\<forall>t \<in> set (rb_timestamps b'). t \<le> rb_lastSeen b')"
      using seen [of ip' b'] kept_past by (auto simp: allow b_def)
  qed
qed

lemma rl_cleanup_related:
  assumes rel: "rl_related now r hist"
  shows "rl_related now (rl_cleanup now r) hist"
  unfolding rl_related_def
proof (intro conjI allI)
  show "\<forall>x \<in> set hist. snd x \<le> now" using rel unfolding rl_related_def by blast
  fix ip
  have eq: "filter (\<lambda>t. t \<ge> now - Second) (log_times ip hist) =
      filter (\<lambda>t. t \<ge> now - Second)
        (case rl_buckets r ip of None \<Rightarrow> [] | Some b \<Rightarrow> rb_timestamps b)"
    using rel unfolding rl_related_def by blast
  have stale: "filter (\<lambda>t. t \<ge> now - Second) (rb_timestamps b) = []"
    if "rl_buckets r ip = Some b" "rb_lastSeen b < now - 2 * 60 * Second" for b
  proof -
    have "\<forall>t \<in> set (rb_timestamps b). t \<le> rb_lastSeen b"
      using rel that(1) unfolding rl_related_def by blast
    with that(2) show ?thesis by (fastforce simp: filter_empty_conv Second_def)
  qed
  show "filter (\<lambda>t. t \<ge> now - Second) (log_times ip hist) =
      filter (\<lambda>t. t \<ge> now - Second)
        (case rl_buckets (rl_cleanup now r) ip of None \<Rightarrow> [] | Some b \<Rightarrow> rb_timestamps b)"
    using eq stale by (cases "rl_buckets r ip") (simp_all add: rl_cleanup_def Let_def)
next
  fix ip b
  show "rl_buckets (rl_cleanup now r) ip = Some b \<longrightarrow> (\<forall>t \<in> set (rb_timestamps b). t \<le> rb_lastSeen b)"
    using rel by (auto simp: rl_related_def rl_cleanup_def Let_def split: option.splits if_splits)
qed

lemma rl_exec_refines:
  assumes "rl_related now r hist" and "sorted (now # map rl_time evs)"
  shows "rl_exec evs r = spec_answers (rl_limit r) evs hist"
  using assms
proof (induction evs arbitrary: now r hist)
  case Nil
  then show ?case by simp
next
  case (Cons ev evs)
  have rel: "rl_related (rl_time ev) r hist"
    using rl_related_later [OF Cons.prems(1)] Cons.prems(2) by simp
  have srt: "sorted (rl_time ev # map rl_time evs)" using Cons.prems(2) by simp
  show ?case
  proof (cases ev)
    case (Allow ip t)
    obtain ok r' where a: "rl_allow ip t r = (ok, r')" by fastforce
    have "rl_limit r' = rl_limit r" using rl_limit_frame(1) [of ip t r] a by simp
    with Allow a srt rel rl_allow_related [of t r hist ip] Cons.IH show ?thesis
      by (auto simp: Let_def)
  next
    case (Cleanup t)
    with srt rel rl_cleanup_related [of t r hist] Cons.IH show ?thesis by simp
  qed
qed

text \<open>C6. The rate limiter is a sliding window. For any limit and any history of calls and
  cleanups at times that never go back, the answers of the bucket implementation (in-place
  compaction, idle buckets dropped) are those of the specification that remembers every accepted
  call: a call is accepted exactly when fewer than \<open>limit\<close> calls from its address were accepted
  in the second before it.\<close>

theorem rateLimiter_sliding_window:
  assumes "sorted (map rl_time evs)"
  shows "rl_exec evs (newRateLimiter limit) = spec_answers limit evs []"
proof (cases evs)
  case (Cons ev evs')
  have "sorted (rl_time ev # map rl_time evs)" using assms Cons by simp
  from rl_exec_refines [OF rl_related_new this, of limit] show ?thesis
    by (simp add: newRateLimiter_def)
qed simp

theorem rateLimiter_sliding_window_witness:
  "rl_exec [Allow ''a'' 0, Allow ''a'' 5, Allow ''a'' 6, Cleanup 7, Allow ''b'' 8, Allow ''a'' 1000000001]
     (newRateLimiter 2) = [True, True, False, True, True]"
  by (subst rateLimiter_sliding_window)
    (simp_all add: in_window_def Second_def Let_def)

section \<open>The bound\<close>

lemma in_window_append [simp]:
  "in_window ip lo hi (hist @ hist') = in_window ip lo hi hist + in_window ip lo hi hist'"
  by (simp add: in_window_def)

lemma in_window_mono:
  assumes "\<forall>x \<in> set hist. snd x \<le> now" and "now \<le> hi"
  shows "in_window ip (hi - Second) hi hist \<le> in_window ip (now - Second) now hist"
  unfolding in_window_def
proof -
  have eq: "filter (\<lambda>(ip', t). ip' = ip \<and> hi - Second \<le> t \<and> t \<le> hi) hist =
      filter (\<lambda>(ip', t). ip' = ip \<and> hi - Second \<le> t \<and> t \<le> hi)
        (filter (\<lambda>(ip', t). ip' = ip \<and> now - Second \<le> t \<and> t \<le> now) hist)"
    using assms by (induction hist) auto
  show "length (filter (\<lambda>(ip', t). ip' = ip \<and> hi - Second \<le> t \<and> t \<le> hi) hist) \<le>
      length (filter (\<lambda>(ip', t). ip' = ip \<and> now - Second \<le> t \<and> t \<le> now) hist)"
    by (subst eq) (rule length_filter_le)
qed

lemma spec_log_bound:
  assumes "\<forall>x \<in> set hist. snd x \<le> now" and "sorted (now # map rl_time evs)"
    and "\<forall>ip hi. int (in_window ip (hi - Second) hi hist) \<le> max 0 limit"
  shows "int (in_window ip (hi - Second) hi (spec_log limit evs hist)) \<le> max 0 limit"
  using assms
proof (induction evs arbitrary: now hist)
  case Nil
  then show ?case by simp
next
  case (Cons ev evs)
  have past: "\<forall>x \<in> set hist. snd x \<le> rl_time ev"
    using Cons.prems(1,2) by force
  have srt: "sorted (rl_time ev # map rl_time evs)" using Cons.prems(2) by simp
  show ?case
  proof (cases ev)
    case (Cleanup t)
    with Cons.IH [OF past srt Cons.prems(3)] show ?thesis by simp
  next
    case (Allow ip0 t)
    show ?thesis
    proof (cases "int (in_window ip0 (t - Second) t hist) < limit")
      case False
      with Allow Cons.IH [OF past srt Cons.prems(3)] show ?thesis by simp
    next
      case True
      have "\<forall>ip hi. int (in_window ip (hi - Second) hi (hist @ [(ip0, t)])) \<le> max 0 limit"
      proof (intro allI)
        fix ip hi
        show "int (in_window ip (hi - Second) hi (hist @ [(ip0, t)])) \<le> max 0 limit"
        proof (cases "ip = ip0 \<and> t \<le> hi")
          case True
          then have "in_window ip0 (hi - Second) hi hist \<le> in_window ip0 (t - Second) t hist"
            using past Allow by (intro in_window_mono) auto
          moreover have "in_window ip (hi - Second) hi [(ip0, t)] \<le> 1"
            by (simp add: in_window_def)
          ultimately show ?thesis
            using True \<open>int (in_window ip0 (t - Second) t hist) < limit\<close> by simp
        next
          case False
          then have "in_window ip (hi - Second) hi [(ip0, t)] = 0" by (auto simp: in_window_def)
          with Cons.prems(3) show ?thesis by simp
        qed
      qed
      with True Allow Cons.IH [OF _ srt] past show ?thesis by simp
    qed
  qed
qed

text \<open>No address ever exceeds its rate: with calls at times that never go back, in every closed
  window of one second at most \<open>limit\<close> calls of an address are accepted.\<close>

theorem rateLimiter_bound:
  assumes "sorted (map rl_time evs)"
  shows "int (in_window ip (hi - Second) hi (spec_log limit evs [])) \<le> max 0 limit \<and>
    rl_exec evs (newRateLimiter limit) = spec_answers limit evs []"
proof (cases evs)
  case Nil
  then show ?thesis by (simp add: in_window_def)
next
  case (Cons ev evs')
  then have srt: "sorted (rl_time ev # map rl_time evs)" using assms by simp
  have "int (in_window ip (hi - Second) hi (spec_log limit evs [])) \<le> max 0 limit"
    by (rule spec_log_bound [OF _ srt]) (simp_all add: in_window_def)
  with rl_exec_refines [OF rl_related_new srt, of limit] show ?thesis
    by (simp add: newRateLimiter_def)
qed

theorem rateLimiter_bound_witness:
  "int (in_window ''a'' (6 - Second) 6
     (spec_log 2 [Allow ''a'' 0, Allow ''a'' 5, Allow ''a'' 6] [])) \<le> 2"
  using rateLimiter_bound [of "[Allow ''a'' 0, Allow ''a'' 5, Allow ''a'' 6]" "''a''" 6 2] by simp

end
