(* ===== verification/WorkerPool.thy ===== *)
theory WorkerPool
  imports Config
begin

text \<open>
  The worker pool of \<^verbatim>\<open>internal/proxy/server.go\<close> as a step relation. A job is a number. A
  state is the channel's content, where each job is (in the submitter's hands, waiting, received by
  a worker, running on a worker, running on an overflow goroutine, returned) and the two gauges.
  There is one submitter, the accept loop, which is also the caller of \<^verbatim>\<open>drain\<close>; the statements
  of \<^verbatim>\<open>submit\<close>, of \<^verbatim>\<open>run\<close> and of the overflow goroutine are separate steps, so they interleave
  as the goroutines do. The two wait groups are read off the lists: \<^verbatim>\<open>wg\<close> is done when the
  channel is closed and empty and no worker has a job, \<^verbatim>\<open>overflow\<close> when no such goroutine is left.
\<close>

datatype submitter = Idle | Counted nat | Refused nat | Uncounted nat

record pool_state =
  wp_size :: nat
  wp_submitter :: submitter
  wp_work :: "nat list"
  wp_taken :: "nat list"
  wp_running :: "nat list"
  wp_over :: "nat list"
  wp_leaving :: nat
  wp_returned :: "nat list"
  wp_queued :: int
  wp_overflow :: int
  wp_closed :: bool

definition newWorkerPool :: "nat \<Rightarrow> pool_state" where
  "newWorkerPool sz =
     \<lparr>wp_size = sz, wp_submitter = Idle, wp_work = [], wp_taken = [], wp_running = [], wp_over = [],
      wp_leaving = 0, wp_returned = [], wp_queued = 0, wp_overflow = 0, wp_closed = False\<rparr>"

text \<open>How many workers \<^verbatim>\<open>NewServer\<close> asks for.\<close>

definition server_pool_size :: "Config \<Rightarrow> int \<Rightarrow> int" where
  "server_pool_size cfg numCPU =
     (let sz = cf_WorkerPoolSize cfg
      in if sz \<le> 0
         then let sz = numCPU * 256;
                  sz = (if sz < 512 then 512 else sz)
              in if sz > 16384 then 16384 else sz
         else sz)"

text \<open>
  The statements of \<^verbatim>\<open>submit\<close>: \<^verbatim>\<open>queued.Add(1)\<close>; then the \<^verbatim>\<open>select\<close>, which sends when the
  buffer of \<open>4 * size\<close> has room and takes \<^verbatim>\<open>default\<close> when not; there \<^verbatim>\<open>queued.Add(-1)\<close>,
  and the counted goroutine.
\<close>

definition submit_count :: "nat \<Rightarrow> pool_state \<Rightarrow> pool_state" where
  "submit_count job p = p\<lparr>wp_queued := wp_queued p + 1, wp_submitter := Counted job\<rparr>"

definition submit_select :: "nat \<Rightarrow> pool_state \<Rightarrow> pool_state" where
  "submit_select job p =
     (if length (wp_work p) < wp_size p * 4
      then p\<lparr>wp_work := wp_work p @ [job], wp_submitter := Idle\<rparr>
      else p\<lparr>wp_submitter := Refused job\<rparr>)"

definition submit_uncount :: "nat \<Rightarrow> pool_state \<Rightarrow> pool_state" where
  "submit_uncount job p = p\<lparr>wp_queued := wp_queued p - 1, wp_submitter := Uncounted job\<rparr>"

definition submit_spawn :: "nat \<Rightarrow> pool_state \<Rightarrow> pool_state" where
  "submit_spawn job p =
     p\<lparr>wp_overflow := wp_overflow p + 1, wp_over := wp_over p @ [job], wp_submitter := Idle\<rparr>"

text \<open>A worker's loop: the receive, \<^verbatim>\<open>queued.Add(-1)\<close>, the return of \<^verbatim>\<open>fn()\<close>.\<close>

definition run_receive :: "pool_state \<Rightarrow> pool_state" where
  "run_receive p =
     (case wp_work p of
        [] \<Rightarrow> p
      | job # rest \<Rightarrow> p\<lparr>wp_work := rest, wp_taken := wp_taken p @ [job]\<rparr>)"

definition run_start :: "nat \<Rightarrow> pool_state \<Rightarrow> pool_state" where
  "run_start job p =
     p\<lparr>wp_taken := remove1 job (wp_taken p), wp_queued := wp_queued p - 1,
       wp_running := wp_running p @ [job]\<rparr>"

definition run_return :: "nat \<Rightarrow> pool_state \<Rightarrow> pool_state" where
  "run_return job p =
     p\<lparr>wp_running := remove1 job (wp_running p), wp_returned := wp_returned p @ [job]\<rparr>"

text \<open>An overflow goroutine: the return of \<^verbatim>\<open>fn()\<close>, then the deferred calls.\<close>

definition over_return :: "nat \<Rightarrow> pool_state \<Rightarrow> pool_state" where
  "over_return job p =
     p\<lparr>wp_over := remove1 job (wp_over p), wp_returned := wp_returned p @ [job],
       wp_leaving := Suc (wp_leaving p)\<rparr>"

definition over_leave :: "pool_state \<Rightarrow> pool_state" where
  "over_leave p = p\<lparr>wp_overflow := wp_overflow p - 1, wp_leaving := wp_leaving p - 1\<rparr>"

text \<open>\<^verbatim>\<open>drain\<close> closes the channel, then waits for both groups.\<close>

definition drain_close :: "pool_state \<Rightarrow> pool_state" where
  "drain_close p = p\<lparr>wp_closed := True\<rparr>"

definition drained :: "pool_state \<Rightarrow> bool" where
  "drained p \<longleftrightarrow>
     wp_closed p \<and> wp_work p = [] \<and> wp_taken p = [] \<and> wp_running p = [] \<and>
     wp_over p = [] \<and> wp_leaving p = 0"

text \<open>One step, with the jobs that \<^verbatim>\<open>submit\<close> was called on in it. Nothing is submitted once the
  accept loop has called \<^verbatim>\<open>drain\<close>.\<close>

inductive pool_step :: "pool_state \<Rightarrow> nat list \<Rightarrow> pool_state \<Rightarrow> bool" where
  ps_count: "wp_submitter p = Idle \<Longrightarrow> \<not> wp_closed p \<Longrightarrow> pool_step p [job] (submit_count job p)"
| ps_select: "wp_submitter p = Counted job \<Longrightarrow> pool_step p [] (submit_select job p)"
| ps_uncount: "wp_submitter p = Refused job \<Longrightarrow> pool_step p [] (submit_uncount job p)"
| ps_spawn: "wp_submitter p = Uncounted job \<Longrightarrow> pool_step p [] (submit_spawn job p)"
| ps_receive: "wp_work p \<noteq> [] \<Longrightarrow> length (wp_taken p) + length (wp_running p) < wp_size p \<Longrightarrow>
    pool_step p [] (run_receive p)"
| ps_start: "job \<in> set (wp_taken p) \<Longrightarrow> pool_step p [] (run_start job p)"
| ps_return: "job \<in> set (wp_running p) \<Longrightarrow> pool_step p [] (run_return job p)"
| ps_over_return: "job \<in> set (wp_over p) \<Longrightarrow> pool_step p [] (over_return job p)"
| ps_over_leave: "0 < wp_leaving p \<Longrightarrow> pool_step p [] (over_leave p)"
| ps_close: "wp_submitter p = Idle \<Longrightarrow> \<not> wp_closed p \<Longrightarrow> pool_step p [] (drain_close p)"

text \<open>Executions of \<open>n\<close> steps, with the jobs submitted along them.\<close>

inductive pool_run :: "pool_state \<Rightarrow> nat \<Rightarrow> nat list \<Rightarrow> pool_state \<Rightarrow> bool" where
  pr_none: "pool_run p 0 [] p"
| pr_step: "pool_run p n js p' \<Longrightarrow> pool_step p' js' p'' \<Longrightarrow> pool_run p (Suc n) (js @ js') p''"

inductive_simps pool_run_zero [simp]: "pool_run p 0 js p'"

section \<open>Invariant\<close>

fun in_hand :: "submitter \<Rightarrow> nat list" where
  "in_hand Idle = []"
| "in_hand (Counted job) = [job]"
| "in_hand (Refused job) = [job]"
| "in_hand (Uncounted job) = [job]"

fun in_count :: "submitter \<Rightarrow> int" where
  "in_count (Counted _) = 1"
| "in_count (Refused _) = 1"
| "in_count _ = 0"

definition pool_jobs :: "pool_state \<Rightarrow> nat multiset" where
  "pool_jobs p =
     mset (in_hand (wp_submitter p)) + mset (wp_work p) + mset (wp_taken p) + mset (wp_running p) +
     mset (wp_over p) + mset (wp_returned p)"

definition pool_ok :: "pool_state \<Rightarrow> bool" where
  "pool_ok p \<longleftrightarrow>
     length (wp_work p) \<le> wp_size p * 4 \<and> length (wp_taken p) + length (wp_running p) \<le> wp_size p \<and>
     wp_queued p = in_count (wp_submitter p) + int (length (wp_work p) + length (wp_taken p)) \<and>
     wp_overflow p = int (length (wp_over p) + wp_leaving p) \<and>
     (wp_closed p \<longrightarrow> wp_submitter p = Idle)"

lemmas pool_ops =
  submit_count_def submit_select_def submit_uncount_def submit_spawn_def run_receive_def
  run_start_def run_return_def over_return_def over_leave_def drain_close_def

lemma length_remove1_mem: "x \<in> set xs \<Longrightarrow> Suc (length (remove1 x xs)) = length xs"
  by (induction xs) auto

lemma pool_step_ok:
  assumes "pool_step p js p'" and "pool_ok p"
  shows "pool_ok p' \<and> wp_size p' = wp_size p"
  using assms
proof cases
  case (ps_receive)
  with assms(2) show ?thesis by (cases "wp_work p") (auto simp: pool_ok_def pool_ops)
next
  case (ps_start job)
  with assms(2) length_remove1_mem [of job "wp_taken p"] show ?thesis
    by (auto simp: pool_ok_def pool_ops)
next
  case (ps_return job)
  with assms(2) length_remove1_mem [of job "wp_running p"] show ?thesis
    by (auto simp: pool_ok_def pool_ops)
next
  case (ps_over_return job)
  with assms(2) length_remove1_mem [of job "wp_over p"] show ?thesis
    by (auto simp: pool_ok_def pool_ops)
qed (auto simp: pool_ok_def pool_ops)

lemma pool_step_jobs:
  assumes "pool_step p js p'"
  shows "pool_jobs p' = pool_jobs p + mset js"
  using assms
proof cases
  case (ps_receive)
  then show ?thesis by (cases "wp_work p") (simp_all add: pool_jobs_def pool_ops)
qed (auto simp: pool_jobs_def pool_ops)

lemma pool_run_invariant:
  "pool_run p n js p' \<Longrightarrow> pool_ok p \<Longrightarrow>
     pool_ok p' \<and> wp_size p' = wp_size p \<and> pool_jobs p' = pool_jobs p + mset js"
  by (induction rule: pool_run.induct) (auto dest: pool_step_ok pool_step_jobs)

lemma pool_run_new:
  assumes "pool_run (newWorkerPool sz) n js p"
  shows "pool_ok p" "wp_size p = sz" "pool_jobs p = mset js"
proof -
  have new: "pool_ok (newWorkerPool sz)" by (simp add: pool_ok_def newWorkerPool_def)
  show "pool_ok p" "wp_size p = sz" "pool_jobs p = mset js"
    using pool_run_invariant [OF assms new] by (simp_all add: newWorkerPool_def pool_jobs_def)
qed

lemma pool_run_one:
  assumes "pool_run p n js p'" and "pool_step p' js' p''" and "m = Suc n" and "ks = js @ js'"
  shows "pool_run p m ks p''"
  using assms by (simp add: pool_run.intros)

text \<open>C10. The pool neither loses nor repeats a job, and its bounds and gauges are exact. In every
  state reached from a new pool of \<open>sz\<close> workers, by any interleaving of the submitter's, the
  workers' and the overflow goroutines' statements: each submitted job is in exactly one place; at
  most \<open>sz\<close> jobs are with workers and at most \<open>4 * sz\<close> wait in the channel; while no
  \<^verbatim>\<open>submit\<close> is under way, \<^verbatim>\<open>Queued\<close> is the number of jobs that wait or were received but
  not started, and \<^verbatim>\<open>Overflow\<close> the number of overflow goroutines still alive.\<close>

theorem workerPool_conserves_jobs:
  assumes "pool_run (newWorkerPool sz) n js p"
  shows "mset (in_hand (wp_submitter p)) + mset (wp_work p) + mset (wp_taken p) + mset (wp_running p) +
      mset (wp_over p) + mset (wp_returned p) = mset js \<and>
    length (wp_taken p) + length (wp_running p) \<le> sz \<and> length (wp_work p) \<le> 4 * sz \<and>
    (wp_submitter p = Idle \<longrightarrow> wp_queued p = int (length (wp_work p) + length (wp_taken p))) \<and>
    wp_overflow p = int (length (wp_over p) + wp_leaving p)"
  using pool_run_new [OF assms] by (auto simp: pool_ok_def pool_jobs_def)

text \<open>A run on one worker: the job 7 is submitted, received and started, and 8 is submitted.\<close>

definition demo_run :: pool_state where
  "demo_run =
     submit_select 8 (submit_count 8 (run_start 7 (run_receive (submit_select 7 (submit_count 7
       (newWorkerPool 1))))))"

lemma demo_run_reached: "pool_run (newWorkerPool 1) 6 [7, 8] demo_run"
proof -
  let ?p1 = "submit_count 7 (newWorkerPool 1)"
  let ?p2 = "submit_select 7 ?p1"
  let ?p3 = "run_receive ?p2"
  let ?p4 = "run_start 7 ?p3"
  let ?p5 = "submit_count 8 ?p4"
  note [simp] = pool_ops newWorkerPool_def pr_none
  have 1: "pool_run (newWorkerPool 1) 1 [7] ?p1"
    by (rule pool_run_one [OF pr_none ps_count]) simp_all
  have 2: "pool_run (newWorkerPool 1) 2 [7] ?p2"
    by (rule pool_run_one [OF 1 ps_select]) simp_all
  have 3: "pool_run (newWorkerPool 1) 3 [7] ?p3"
    by (rule pool_run_one [OF 2 ps_receive]) simp_all
  have 4: "pool_run (newWorkerPool 1) 4 [7] ?p4"
    by (rule pool_run_one [OF 3 ps_start]) simp_all
  have 5: "pool_run (newWorkerPool 1) 5 [7, 8] ?p5"
    by (rule pool_run_one [OF 4 ps_count]) simp_all
  show ?thesis
    unfolding demo_run_def by (rule pool_run_one [OF 5 ps_select]) simp_all
qed

theorem workerPool_conserves_jobs_witness:
  "wp_work demo_run = [8] \<and> wp_running demo_run = [7] \<and> wp_queued demo_run = 1 \<and>
   mset (in_hand (wp_submitter demo_run)) + mset (wp_work demo_run) + mset (wp_taken demo_run) +
     mset (wp_running demo_run) + mset (wp_over demo_run) + mset (wp_returned demo_run) = mset [7, 8]"
  using workerPool_conserves_jobs [OF demo_run_reached]
  by (simp add: demo_run_def pool_ops newWorkerPool_def)

section \<open>Draining\<close>

definition pool_left :: "pool_state \<Rightarrow> nat" where
  "pool_left p =
     3 * length (wp_work p) + 2 * length (wp_taken p) + length (wp_running p) +
     2 * length (wp_over p) + wp_leaving p"

lemma closed_step_left:
  assumes "pool_step p js p'" and "wp_closed p" and "pool_ok p"
  shows "js = [] \<and> wp_closed p' \<and> pool_left p' < pool_left p"
proof -
  have idle: "wp_submitter p = Idle" using assms(2,3) by (simp add: pool_ok_def)
  from assms(1) show ?thesis
  proof cases
    case (ps_receive)
    with assms(2) show ?thesis by (cases "wp_work p") (auto simp: pool_left_def pool_ops)
  next
    case (ps_start job)
    with assms(2) length_remove1_mem [of job "wp_taken p"] show ?thesis
      by (auto simp: pool_left_def pool_ops)
  next
    case (ps_return job)
    with assms(2) length_remove1_mem [of job "wp_running p"] show ?thesis
      by (auto simp: pool_left_def pool_ops)
  next
    case (ps_over_return job)
    with assms(2) length_remove1_mem [of job "wp_over p"] show ?thesis
      by (auto simp: pool_left_def pool_ops)
  qed (use assms(2) idle in \<open>auto simp: pool_left_def pool_ops\<close>)
qed

lemma closed_run_left:
  "pool_run p n js p' \<Longrightarrow> wp_closed p \<Longrightarrow> pool_ok p \<Longrightarrow>
     js = [] \<and> wp_closed p' \<and> pool_ok p' \<and> n + pool_left p' \<le> pool_left p"
proof (induction rule: pool_run.induct)
  case (pr_step p n js p' js' p'')
  then have "js = []" "wp_closed p'" "pool_ok p'" "n + pool_left p' \<le> pool_left p" by simp_all
  then show ?case
    using closed_step_left [OF pr_step.hyps(2)] pool_step_ok [OF pr_step.hyps(2)] by simp
qed simp

lemma closed_progress:
  assumes "wp_closed p" and "\<not> drained p" and "0 < wp_size p"
  shows "\<exists>js p'. pool_step p js p'"
proof -
  consider "wp_running p \<noteq> []" | "wp_over p \<noteq> []" | "wp_taken p \<noteq> []" | "0 < wp_leaving p"
    | "wp_running p = []" "wp_taken p = []" "wp_work p \<noteq> []"
    using assms(1,2) by (auto simp: drained_def)
  then show ?thesis
  proof cases
    case 1
    then have "hd (wp_running p) \<in> set (wp_running p)" by simp
    then show ?thesis using ps_return by blast
  next
    case 2
    then have "hd (wp_over p) \<in> set (wp_over p)" by simp
    then show ?thesis using ps_over_return by blast
  next
    case 3
    then have "hd (wp_taken p) \<in> set (wp_taken p)" by simp
    then show ?thesis using ps_start by blast
  next
    case 4
    then show ?thesis using ps_over_leave by blast
  next
    case 5
    then have "length (wp_taken p) + length (wp_running p) < wp_size p" using assms(3) by simp
    with 5 show ?thesis using ps_receive by blast
  qed
qed

text \<open>C35. Draining terminates with every job done. Once \<^verbatim>\<open>drain\<close> has closed the channel of a pool
  with at least one worker, every execution has at most
  \<open>3 * waiting + 2 * received + running + 2 * overflow + leaving\<close> further steps (each job returning
  when it likes), a state with no step is one where \<^verbatim>\<open>drain\<close> returns, and when it returns the
  jobs that have returned are exactly the submitted ones and both gauges are 0.\<close>

theorem workerPool_drain_terminates:
  assumes "pool_run (newWorkerPool sz) m js p" and "0 < sz" and "wp_closed p" and "pool_run p n ks p'"
  shows "n \<le> 3 * length (wp_work p) + 2 * length (wp_taken p) + length (wp_running p) +
      2 * length (wp_over p) + wp_leaving p \<and>
    ((\<nexists>ls p''. pool_step p' ls p'') \<longrightarrow> drained p') \<and>
    (drained p' \<longrightarrow> mset (wp_returned p') = mset js \<and> wp_queued p' = 0 \<and> wp_overflow p' = 0)"
proof -
  note inv = pool_run_new [OF assms(1)]
  have run: "ks = []" "wp_closed p'" "pool_ok p'" "n + pool_left p' \<le> pool_left p"
    using closed_run_left [OF assms(4,3) inv(1)] by blast+
  have after: "pool_jobs p' = mset js" "wp_size p' = sz" "wp_submitter p' = Idle"
    using pool_run_invariant [OF assms(4) inv(1)] inv run by (simp_all add: pool_ok_def)
  have "n \<le> 3 * length (wp_work p) + 2 * length (wp_taken p) + length (wp_running p) +
      2 * length (wp_over p) + wp_leaving p"
    using run(4) by (simp add: pool_left_def)
  moreover have "drained p'" if "\<nexists>ls p''. pool_step p' ls p''"
    using closed_progress [OF run(2)] that after(2) assms(2) by metis
  moreover have "mset (wp_returned p') = mset js \<and> wp_queued p' = 0 \<and> wp_overflow p' = 0"
    if "drained p'"
    using that after(1,3) run(3) by (simp add: drained_def pool_jobs_def pool_ok_def)
  ultimately show ?thesis by blast
qed

text \<open>The run goes on: the channel is closed, 7 returns, 8 is received, started and returns.\<close>

definition demo_closed :: pool_state where
  "demo_closed = drain_close demo_run"

definition demo_end :: pool_state where
  "demo_end = run_return 8 (run_start 8 (run_receive (run_return 7 demo_closed)))"

lemma demo_closed_reached: "pool_run (newWorkerPool 1) 7 [7, 8] demo_closed"
  unfolding demo_closed_def
  by (rule pool_run_one [OF demo_run_reached ps_close])
    (simp_all add: demo_run_def pool_ops newWorkerPool_def)

lemma demo_end_reached: "pool_run demo_closed 4 [] demo_end"
proof -
  let ?p1 = "run_return 7 demo_closed"
  let ?p2 = "run_receive ?p1"
  let ?p3 = "run_start 8 ?p2"
  note [simp] = pool_ops newWorkerPool_def demo_run_def demo_closed_def
  have 1: "pool_run demo_closed 1 [] ?p1" by (rule pool_run_one [OF pr_none ps_return]) simp_all
  have 2: "pool_run demo_closed 2 [] ?p2" by (rule pool_run_one [OF 1 ps_receive]) simp_all
  have 3: "pool_run demo_closed 3 [] ?p3" by (rule pool_run_one [OF 2 ps_start]) simp_all
  show ?thesis unfolding demo_end_def by (rule pool_run_one [OF 3 ps_return]) simp_all
qed

theorem workerPool_drain_terminates_witness:
  "drained demo_end \<and> wp_returned demo_end = [7, 8] \<and>
   mset (wp_returned demo_end) = mset [7, 8] \<and> wp_queued demo_end = 0"
proof -
  have closed: "wp_closed demo_closed" by (simp add: demo_closed_def drain_close_def)
  have "drained demo_end" "wp_returned demo_end = [7, 8]"
    by (simp_all add: drained_def demo_end_def demo_closed_def demo_run_def pool_ops newWorkerPool_def)
  with workerPool_drain_terminates [OF demo_closed_reached _ closed demo_end_reached]
  show ?thesis by simp
qed

end
