(* ===== verification/Server.thy ===== *)
theory Server
  imports RateLimiter Metrics Config
begin

text \<open>
  The accept loop of \<^verbatim>\<open>ListenAndServe\<close> in \<^verbatim>\<open>internal/proxy/server.go\<close>: which connections
  it admits, against the collector's gauge and the rate limiter, while the workers open, fail and close
  the admitted ones. A step is one turn of the loop or one call of a handler on the collector, so
  the loop and the handlers interleave in any order. A connection is the sequence number it was given.
\<close>

datatype verdict = RejectMax | RejectRate | Admit "64 word"

record server =
  sv_rl :: rateLimiter
  sv_metrics :: Collector
  sv_connSeq :: "64 word"
  sv_submitted :: "64 word list"
  sv_dialling :: "64 word list"
  sv_relaying :: "64 word list"
  sv_failing :: "64 word list"
  sv_stopped :: bool

definition newServer :: "Config \<Rightarrow> int \<Rightarrow> server" where
  "newServer cfg now =
     \<lparr>sv_rl = newRateLimiter (cf_RateLimit cfg),
      sv_metrics = Metrics_New (cf_PrometheusEnabled cfg) (cf_PrometheusAddr cfg) now, sv_connSeq = 0,
      sv_submitted = [], sv_dialling = [], sv_relaying = [], sv_failing = [], sv_stopped = False\<rparr>"

text \<open>A turn with a connection from \<open>ip\<close>; \<open>now\<close> is the clock the limiter reads.\<close>

definition admit :: "Config \<Rightarrow> string \<Rightarrow> int \<Rightarrow> server \<Rightarrow> verdict \<times> server" where
  "admit cfg ip now s =
     (if cf_MaxConnections cfg > 0 \<and> mc_activeConns (sv_metrics s) \<ge> cf_MaxConnections cfg
      then (RejectMax, s)
      else
        case (if cf_RateLimit cfg > 0 then rl_allow ip now (sv_rl s) else (True, sv_rl s)) of
          (ok, rl) \<Rightarrow>
            (let s = s\<lparr>sv_rl := rl\<rparr>
             in if \<not> ok then (RejectRate, s)
                else let s = s\<lparr>sv_connSeq := sv_connSeq s + 1\<rparr>; connID = sv_connSeq s
                     in (Admit connID, s\<lparr>sv_submitted := sv_submitted s @ [connID]\<rparr>)))"

text \<open>What the handler of a connection does to the collector: \<^verbatim>\<open>ConnOpened\<close> when it starts,
  \<^verbatim>\<open>ConnFailed\<close> when its dial fails, the deferred \<^verbatim>\<open>ConnClosed\<close> in either case.\<close>

definition conn_start :: "64 word \<Rightarrow> server \<Rightarrow> server" where
  "conn_start i s =
     s\<lparr>sv_submitted := remove1 i (sv_submitted s), sv_dialling := sv_dialling s @ [i],
       sv_metrics := ConnOpened (sv_metrics s)\<rparr>"

definition conn_dialled :: "64 word \<Rightarrow> server \<Rightarrow> server" where
  "conn_dialled i s =
     s\<lparr>sv_dialling := remove1 i (sv_dialling s), sv_relaying := sv_relaying s @ [i]\<rparr>"

definition conn_failed :: "64 word \<Rightarrow> server \<Rightarrow> server" where
  "conn_failed i s =
     s\<lparr>sv_dialling := remove1 i (sv_dialling s), sv_failing := sv_failing s @ [i],
       sv_metrics := ConnFailed (sv_metrics s)\<rparr>"

definition conn_closed :: "64 word \<Rightarrow> server \<Rightarrow> server" where
  "conn_closed i s =
     s\<lparr>sv_relaying := remove1 i (sv_relaying s), sv_metrics := ConnClosed (sv_metrics s)\<rparr>"

definition conn_given_up :: "64 word \<Rightarrow> server \<Rightarrow> server" where
  "conn_given_up i s =
     s\<lparr>sv_failing := remove1 i (sv_failing s), sv_metrics := ConnClosed (sv_metrics s)\<rparr>"

datatype server_event =
    Accepted string int verdict
  | AcceptError
  | Shutdown
  | CleanedUp int
  | Handler "64 word"

inductive server_step :: "Config \<Rightarrow> server \<Rightarrow> server_event \<Rightarrow> server \<Rightarrow> bool" for cfg where
  sv_accept: "\<not> sv_stopped s \<Longrightarrow> admit cfg ip now s = (v, s') \<Longrightarrow> server_step cfg s (Accepted ip now v) s'"
| sv_error: "\<not> sv_stopped s \<Longrightarrow> server_step cfg s AcceptError s"
| sv_shutdown: "\<not> sv_stopped s \<Longrightarrow> server_step cfg s Shutdown (s\<lparr>sv_stopped := True\<rparr>)"
| sv_cleanup: "server_step cfg s (CleanedUp now) (s\<lparr>sv_rl := rl_cleanup now (sv_rl s)\<rparr>)"
| sv_start: "i \<in> set (sv_submitted s) \<Longrightarrow> server_step cfg s (Handler i) (conn_start i s)"
| sv_dialled: "i \<in> set (sv_dialling s) \<Longrightarrow> server_step cfg s (Handler i) (conn_dialled i s)"
| sv_failed: "i \<in> set (sv_dialling s) \<Longrightarrow> server_step cfg s (Handler i) (conn_failed i s)"
| sv_closed: "i \<in> set (sv_relaying s) \<Longrightarrow> server_step cfg s (Handler i) (conn_closed i s)"
| sv_given_up: "i \<in> set (sv_failing s) \<Longrightarrow> server_step cfg s (Handler i) (conn_given_up i s)"

inductive server_run :: "Config \<Rightarrow> server \<Rightarrow> server_event list \<Rightarrow> server \<Rightarrow> bool" for cfg where
  sr_none: "server_run cfg s [] s"
| sr_step: "server_run cfg s evs s' \<Longrightarrow> server_step cfg s' ev s'' \<Longrightarrow> server_run cfg s (evs @ [ev]) s''"

text \<open>The clock readings of a run, and the connections it admitted.\<close>

fun event_times :: "server_event \<Rightarrow> int list" where
  "event_times (Accepted ip now v) = [now]"
| "event_times (CleanedUp now) = [now]"
| "event_times _ = []"

fun event_admitted :: "server_event \<Rightarrow> accepted" where
  "event_admitted (Accepted ip now (Admit i)) = [(ip, now)]"
| "event_admitted _ = []"

definition run_times :: "server_event list \<Rightarrow> int list" where
  "run_times evs = concat (map event_times evs)"

definition admitted :: "server_event list \<Rightarrow> accepted" where
  "admitted evs = concat (map event_admitted evs)"

lemma run_lists [simp]:
  "run_times [] = []" "run_times (evs @ [ev]) = run_times evs @ event_times ev"
  "admitted [] = []" "admitted (evs @ [ev]) = admitted evs @ event_admitted ev"
  by (simp_all add: run_times_def admitted_def)

section \<open>Invariant\<close>

text \<open>The connections a handler is at work on.\<close>

definition being_served :: "server \<Rightarrow> int" where
  "being_served s = int (length (sv_dialling s) + length (sv_relaying s) + length (sv_failing s))"

definition server_ok :: "Config \<Rightarrow> int \<Rightarrow> accepted \<Rightarrow> server \<Rightarrow> bool" where
  "server_ok cfg now hist s \<longleftrightarrow>
     mc_activeConns (sv_metrics s) = being_served s - mc_failedConns (sv_metrics s) \<and>
     sv_connSeq s = of_nat (length hist) \<and>
     rl_limit (sv_rl s) = cf_RateLimit cfg \<and>
     (0 < cf_RateLimit cfg \<longrightarrow> rl_related now (sv_rl s) hist)"

lemmas conn_ops = conn_start_def conn_dialled_def conn_failed_def conn_closed_def conn_given_up_def

lemmas conn_counters = ConnOpened_def ConnFailed_def ConnClosed_def

lemma int_length_remove1: "x \<in> set xs \<Longrightarrow> int (length (remove1 x xs)) = int (length xs) - 1"
  by (induction xs) auto

lemma server_ok_new: "server_ok cfg now [] (newServer cfg t)"
  by (simp add: server_ok_def newServer_def being_served_def Metrics_New_def rl_related_new)
    (simp add: newRateLimiter_def)

lemma server_ok_later: "server_ok cfg now hist s \<Longrightarrow> now \<le> now' \<Longrightarrow> server_ok cfg now' hist s"
  using rl_related_later by (auto simp: server_ok_def)

lemma admit_spec:
  assumes "server_ok cfg now hist s"
  shows "fst (admit cfg ip now s) =
      (if 0 < cf_MaxConnections cfg \<and>
          cf_MaxConnections cfg \<le> being_served s - mc_failedConns (sv_metrics s) then RejectMax
       else if 0 < cf_RateLimit cfg \<and> cf_RateLimit cfg \<le> int (in_window ip (now - Second) now hist)
         then RejectRate
       else Admit (of_nat (Suc (length hist))))"
    and "server_ok cfg now (hist @ event_admitted (Accepted ip now (fst (admit cfg ip now s))))
      (snd (admit cfg ip now s))"
proof -
  have gauge: "mc_activeConns (sv_metrics s) = being_served s - mc_failedConns (sv_metrics s)"
    and seqn: "sv_connSeq s = of_nat (length hist)"
    and limit: "rl_limit (sv_rl s) = cf_RateLimit cfg"
    and rel: "0 < cf_RateLimit cfg \<Longrightarrow> rl_related now (sv_rl s) hist"
    using assms by (simp_all add: server_ok_def)
  obtain ok rl where a: "rl_allow ip now (sv_rl s) = (ok, rl)" by fastforce
  have rl: "rl_limit rl = cf_RateLimit cfg" using rl_limit_frame(1) [of ip now "sv_rl s"] a limit by simp
  have allow: "ok \<longleftrightarrow> int (in_window ip (now - Second) now hist) < cf_RateLimit cfg"
    "rl_related now rl (if ok then hist @ [(ip, now)] else hist)" if "0 < cf_RateLimit cfg"
    using rl_allow_related [OF rel [OF that], of ip] a limit by simp_all
  show "fst (admit cfg ip now s) =
      (if 0 < cf_MaxConnections cfg \<and>
          cf_MaxConnections cfg \<le> being_served s - mc_failedConns (sv_metrics s) then RejectMax
       else if 0 < cf_RateLimit cfg \<and> cf_RateLimit cfg \<le> int (in_window ip (now - Second) now hist)
         then RejectRate
       else Admit (of_nat (Suc (length hist))))"
    using allow(1) by (auto simp: admit_def a gauge seqn Let_def)
  show "server_ok cfg now (hist @ event_admitted (Accepted ip now (fst (admit cfg ip now s))))
      (snd (admit cfg ip now s))"
    using assms allow rl gauge seqn limit
    by (auto simp: admit_def a server_ok_def being_served_def Let_def)
qed

lemma server_step_ok:
  assumes "server_step cfg s ev s'" and "server_ok cfg now hist s" and "\<forall>t \<in> set (event_times ev). t = now"
  shows "server_ok cfg now (hist @ event_admitted ev) s'"
  using assms(1)
proof cases
  case (sv_accept ip t v)
  with assms(2,3) admit_spec(2) [of cfg now hist s ip] show ?thesis by simp
next
  case (sv_cleanup t)
  with assms(2,3) rl_cleanup_related [of now "sv_rl s" hist] show ?thesis
    by (simp add: server_ok_def being_served_def)
next
  case (sv_start i)
  with assms(2) show ?thesis
    by (simp add: server_ok_def being_served_def conn_ops conn_counters)
qed (use assms(2) in \<open>auto simp: server_ok_def being_served_def conn_ops conn_counters int_length_remove1\<close>)

lemma server_run_ok:
  "server_run cfg s evs s' \<Longrightarrow> server_ok cfg t [] s \<Longrightarrow> sorted (t # run_times evs @ [now]) \<Longrightarrow>
     server_ok cfg now (admitted evs) s'"
proof (induction arbitrary: now rule: server_run.induct)
  case (sr_none s)
  then show ?case using server_ok_later by simp
next
  case (sr_step s evs s' ev s'')
  define t' where "t' = (if event_times ev = [] then now else hd (event_times ev))"
  have one: "\<forall>x \<in> set (event_times ev). x = t'"
    by (cases ev) (simp_all add: t'_def)
  have "sorted (t # run_times evs @ [t'])" "t' \<le> now"
    using sr_step.prems(2) by (cases ev; simp add: t'_def sorted_append)+
  with sr_step.IH [OF sr_step.prems(1)] have "server_ok cfg t' (admitted evs) s'" by blast
  from server_step_ok [OF sr_step.hyps(2) this one] \<open>t' \<le> now\<close> show ?case
    using server_ok_later by simp
qed

text \<open>C14. Which connections the server admits. In any state reached by any interleaving of the accept
  loop with the handlers, the clock never going back: a connection is turned away as one too many exactly
  when a maximum is configured and the number of connections being served, minus the number of
  dials that have ever failed, reaches it; otherwise it is turned away for its rate exactly when a
  rate is configured and that many connections from its address were admitted in the last second;
  otherwise it is admitted under the next sequence number. Connections that wait for a worker do not
  count, and each failed dial raises the maximum by one for ever.\<close>

theorem server_admission:
  assumes "server_run cfg (newServer cfg t) evs s" and "sorted (t # run_times evs @ [now])"
  shows "fst (admit cfg ip now s) =
    (if 0 < cf_MaxConnections cfg \<and> cf_MaxConnections cfg \<le>
        int (length (sv_dialling s) + length (sv_relaying s) + length (sv_failing s)) -
        mc_failedConns (sv_metrics s) then RejectMax
     else if 0 < cf_RateLimit cfg \<and>
        cf_RateLimit cfg \<le> int (in_window ip (now - Second) now (admitted evs)) then RejectRate
     else Admit (of_nat (Suc (length (admitted evs)))))"
  using admit_spec(1) [OF server_run_ok [OF assms(1) server_ok_new assms(2)], of ip]
  by (simp add: being_served_def)

text \<open>One connection allowed. The first is admitted and its dial fails; then two are served at once.\<close>

definition one_conn :: Config where
  "one_conn = Default\<lparr>cf_MaxConnections := 1\<rparr>"

definition after_failure :: server where
  "after_failure = conn_given_up 1 (conn_failed 1 (conn_start 1
     (snd (admit one_conn ''5.6.7.8'' 3 (newServer one_conn 0)))))"

definition after_second :: server where
  "after_second = conn_start 2 (snd (admit one_conn ''5.6.7.8'' 4 after_failure))"

lemma server_run_one:
  "server_run cfg s evs s' \<Longrightarrow> server_step cfg s' ev s'' \<Longrightarrow> evs' = evs @ [ev] \<Longrightarrow> server_run cfg s evs' s''"
  by (simp add: server_run.intros)

lemma after_second_reached:
  "server_run one_conn (newServer one_conn 0)
     [Accepted ''5.6.7.8'' 3 (Admit 1), Handler 1, Handler 1, Handler 1,
      Accepted ''5.6.7.8'' 4 (Admit 2), Handler 2] after_second"
proof -
  let ?s0 = "newServer one_conn 0"
  let ?s1 = "snd (admit one_conn ''5.6.7.8'' 3 ?s0)"
  let ?s2 = "conn_start 1 ?s1"
  let ?s3 = "conn_failed 1 ?s2"
  note [simp] = newServer_def admit_def one_conn_def Default_def Metrics_New_def conn_ops
    conn_counters Let_def after_failure_def after_second_def
  have 1: "server_run one_conn ?s0 [Accepted ''5.6.7.8'' 3 (Admit 1)] ?s1"
    by (rule server_run_one [OF sr_none sv_accept]) simp_all
  have 2: "server_run one_conn ?s0 [Accepted ''5.6.7.8'' 3 (Admit 1), Handler 1] ?s2"
    by (rule server_run_one [OF 1 sv_start]) simp_all
  have 3: "server_run one_conn ?s0 [Accepted ''5.6.7.8'' 3 (Admit 1), Handler 1, Handler 1] ?s3"
    by (rule server_run_one [OF 2 sv_failed]) simp_all
  have 4: "server_run one_conn ?s0 [Accepted ''5.6.7.8'' 3 (Admit 1), Handler 1, Handler 1, Handler 1]
      after_failure"
    unfolding after_failure_def by (rule server_run_one [OF 3 sv_given_up]) simp_all
  have 5: "server_run one_conn ?s0 [Accepted ''5.6.7.8'' 3 (Admit 1), Handler 1, Handler 1, Handler 1,
      Accepted ''5.6.7.8'' 4 (Admit 2)] (snd (admit one_conn ''5.6.7.8'' 4 after_failure))"
    by (rule server_run_one [OF 4 sv_accept]) simp_all
  show ?thesis
    unfolding after_second_def by (rule server_run_one [OF 5 sv_start]) simp_all
qed

theorem server_admission_witness:
  "length (sv_dialling after_second) = 1 \<and> cf_MaxConnections one_conn = 1 \<and>
   fst (admit one_conn ''5.6.7.8'' 5 after_second) = Admit 3"
proof -
  have "sv_dialling after_second = [2]" "sv_relaying after_second = []" "sv_failing after_second = []"
    "mc_failedConns (sv_metrics after_second) = 1" "cf_MaxConnections one_conn = 1"
    "cf_RateLimit one_conn = 0"
    by (simp_all add: after_second_def after_failure_def newServer_def admit_def one_conn_def
        Default_def Metrics_New_def conn_ops conn_counters Let_def)
  with server_admission [OF after_second_reached, of 5 "''5.6.7.8''"] show ?thesis
    by (simp add: run_times_def admitted_def)
qed

end
