(* ===== verification/Preflight.thy ===== *)
theory Preflight
  imports Timing
begin

text \<open>
  The domain scan of \<^verbatim>\<open>internal/preflight/checker.go\<close>. A probe's answer (the addresses of the
  look-up, if any, and the outcome of the dial) is an argument, by position in the list of domains:
  the goroutines write to distinct positions of \<^verbatim>\<open>results\<close> and are all waited for. The progress
  lines given to \<^verbatim>\<open>logger\<close> are left out.
\<close>

definition KnownSNIDomains :: "string list" where
  "KnownSNIDomains =
     [''hcaptcha.com'', ''newassets.hcaptcha.com'', ''js.hcaptcha.com'', ''imgs.hcaptcha.com'',
      ''imgs2.hcaptcha.com'', ''imgs3.hcaptcha.com'', ''assets.hcaptcha.com'',
      ''api.hcaptcha.com'', ''analytics.hcaptcha.com'', ''stats.hcaptcha.com'',
      ''three-cust.hcaptcha.com'', ''tg.hcaptcha.com'', ''primary.hcaptcha.com'',
      ''dashboard.hcaptcha.com'', ''billing.hcaptcha.com'', ''accounts.hcaptcha.com'',
      ''proxy.hcaptcha.com'', ''loader.hcaptcha.com'', ''challenge-tasks.hcaptcha.com'',
      ''serverless.hcaptcha.com'', ''health-check.hcaptcha.com'', ''email.hcaptcha.com'',
      ''admin.vercel.com'', ''assets.vercel.com'', ''auth.vercel.com'', ''cdn1.vercel.com'',
      ''checkout.vercel.com'', ''conf-feature-flags.vercel.com'', ''data.vercel.com'',
      ''datarequest.vercel.com'', ''edge-config.vercel.com'', ''examples.vercel.com'',
      ''go.vercel.com'', ''image.ship.vercel.com'', ''import.vercel.com'', ''info.vercel.com'',
      ''kms.vercel.com'', ''links.vercel.com'', ''partners-classic.vercel.com'',
      ''partners.vercel.com'', ''pcosti.vercel.com'', ''pyra.vercel.com'', ''ri2.vercel.com'',
      ''saml-authentication.vercel.com'', ''security.vercel.com'', ''test.test0001.vercel.com'',
      ''test.test0002.vercel.com'', ''test.vertex.vercel.com'', ''test0000001.vercel.com'',
      ''test000002.vercel.com'', ''upflow-email.billing.vercel.com'']"

record preflight_result =
  pf_Domain :: string
  pf_IP :: string
  pf_Latency :: int
  pf_Alive :: bool

record Report =
  rp_Best :: preflight_result
  rp_Reachable :: "preflight_result list"
  rp_Dead :: "preflight_result list"

text \<open>The zero value of a result.\<close>

definition no_result :: preflight_result where
  "no_result = \<lparr>pf_Domain = [], pf_IP = [], pf_Latency = 0, pf_Alive = False\<rparr>"

text \<open>\<open>pv_addrs\<close> is \<^verbatim>\<open>LookupHost\<close>'s answer (\<open>None\<close> is an error), \<open>pv_dial\<close> the time
  \<^verbatim>\<open>DialTimeout\<close> took, or \<open>None\<close> when it failed; it is given the timeout.\<close>

record probe_env =
  pv_addrs :: "string list option"
  pv_dial :: "int \<Rightarrow> int option"

definition preflight_probe :: "probe_env \<Rightarrow> string \<Rightarrow> int \<Rightarrow> preflight_result" where
  "preflight_probe env d timeout =
     (let resolvedIP = (case pv_addrs env of
            None \<Rightarrow> []
          | Some ips \<Rightarrow> if ips \<noteq> [] then hd ips else [])
      in case pv_dial env timeout of
           None \<Rightarrow> \<lparr>pf_Domain = d, pf_IP = resolvedIP, pf_Latency = 0, pf_Alive = False\<rparr>
         | Some lat \<Rightarrow> \<lparr>pf_Domain = d, pf_IP = resolvedIP, pf_Latency = lat, pf_Alive = True\<rparr>)"

text \<open>The loop that splits the results.\<close>

fun split_results ::
  "preflight_result list \<Rightarrow> preflight_result list \<Rightarrow> preflight_result list \<Rightarrow>
   preflight_result list \<times> preflight_result list" where
  "split_results [] reachable dead = (reachable, dead)"
| "split_results (r # rs) reachable dead =
     (if pf_Alive r then split_results rs (reachable @ [r]) dead
      else split_results rs reachable (dead @ [r]))"

definition RunDomains ::
  "preflight_result slice_sort \<Rightarrow> (nat \<Rightarrow> probe_env) \<Rightarrow> string list \<Rightarrow> int \<Rightarrow> Report" where
  "RunDomains srt env domains timeout =
     (let timeout = (if timeout \<le> 0 then 3 * Second else timeout);
          results = map (\<lambda>(i, d). preflight_probe (env i) d timeout)
                      (zip [0..<length domains] domains)
      in case split_results results [] [] of
           (reachable, dead) \<Rightarrow>
             (let reachable = srt (\<lambda>x y. pf_Latency x < pf_Latency y) reachable
              in \<lparr>rp_Best = (if reachable \<noteq> [] then hd reachable else no_result),
                  rp_Reachable = reachable, rp_Dead = dead\<rparr>))"

definition Preflight_Run ::
  "preflight_result slice_sort \<Rightarrow> (nat \<Rightarrow> probe_env) \<Rightarrow> int \<Rightarrow> Report" where
  "Preflight_Run srt env timeout = RunDomains srt env KnownSNIDomains timeout"

section \<open>What a report says\<close>

lemma split_results_filter [simp]:
  "split_results rs reachable dead =
     (reachable @ filter pf_Alive rs, dead @ filter (\<lambda>r. \<not> pf_Alive r) rs)"
  by (induction rs arbitrary: reachable dead) simp_all

lemma preflight_probe_Domain [simp]: "pf_Domain (preflight_probe env d t) = d"
  by (simp add: preflight_probe_def Let_def split: option.split)

lemma faster_weak: "strict_weak (\<lambda>x y. pf_Latency x < pf_Latency y)"
  by (rule strict_weakI) auto

lemma map_Domain_probes:
  "map pf_Domain (map (\<lambda>(i, d). preflight_probe (env i) d t) (zip [0..<length ds] ds)) = ds"
  by (simp add: o_def split_def)

lemma RunDomains_parts:
  assumes "slice_sorter srt" and "report = RunDomains srt env domains timeout"
  defines "t \<equiv> (if timeout \<le> 0 then 3 * Second else timeout)"
  defines "results \<equiv> map (\<lambda>(i, d). preflight_probe (env i) d t) (zip [0..<length domains] domains)"
  shows "rp_Reachable report = srt (\<lambda>x y. pf_Latency x < pf_Latency y) (filter pf_Alive results)"
    and "rp_Dead report = filter (\<lambda>r. \<not> pf_Alive r) results"
    and "rp_Best report = (if rp_Reachable report \<noteq> [] then hd (rp_Reachable report) else no_result)"
    and "mset (rp_Reachable report) = mset (filter pf_Alive results)"
    and "set (rp_Reachable report) = set (filter pf_Alive results)"
proof -
  show r: "rp_Reachable report = srt (\<lambda>x y. pf_Latency x < pf_Latency y) (filter pf_Alive results)"
    using assms(2) by (simp add: RunDomains_def t_def results_def Let_def)
  show "rp_Dead report = filter (\<lambda>r. \<not> pf_Alive r) results"
    using assms(2) by (simp add: RunDomains_def t_def results_def Let_def)
  show "rp_Best report = (if rp_Reachable report \<noteq> [] then hd (rp_Reachable report) else no_result)"
    using assms(2) by (simp add: RunDomains_def Let_def)
  show "mset (rp_Reachable report) = mset (filter pf_Alive results)"
    unfolding r by (rule slice_sorter.mset_srt [OF assms(1)])
  show "set (rp_Reachable report) = set (filter pf_Alive results)"
    unfolding r by (rule slice_sorter.set_srt [OF assms(1)])
qed

text \<open>C25. A scan loses no domain and names the fastest. For every sort that meets the contract of
  \<^verbatim>\<open>sort.Slice\<close>: the domains of the reachable and of the dead results together are the scanned
  ones, each as often as it was listed; every reachable result answered and every dead one did not; no
  reachable result is faster than the best, which is one of them when there is any and the zero value
  when there is none.\<close>

theorem RunDomains_best:
  assumes "slice_sorter srt"
  shows "let report = RunDomains srt env domains timeout in
    mset (map pf_Domain (rp_Reachable report)) + mset (map pf_Domain (rp_Dead report)) = mset domains \<and>
    (\<forall>r \<in> set (rp_Reachable report). pf_Alive r \<and> pf_Latency (rp_Best report) \<le> pf_Latency r) \<and>
    (\<forall>r \<in> set (rp_Dead report). \<not> pf_Alive r) \<and>
    (if rp_Reachable report = [] then rp_Best report = no_result
     else rp_Best report \<in> set (rp_Reachable report))"
proof -
  define report where "report = RunDomains srt env domains timeout"
  define t where "t = (if timeout \<le> 0 then 3 * Second else timeout)"
  define results where "results = map (\<lambda>(i, d). preflight_probe (env i) d t) (zip [0..<length domains] domains)"
  note parts = RunDomains_parts [OF assms report_def, folded t_def, folded results_def]
  have "mset (map pf_Domain (rp_Reachable report)) + mset (map pf_Domain (rp_Dead report)) =
      image_mset pf_Domain (mset (filter pf_Alive results) + mset (filter (\<lambda>r. \<not> pf_Alive r) results))"
    unfolding mset_map parts(2,4) image_mset_union ..
  also have "\<dots> = mset (map pf_Domain results)"
    using arg_cong [OF multiset_partition [of "mset results" pf_Alive], of "image_mset pf_Domain"]
    by (simp flip: mset_filter)
  also have "map pf_Domain results = domains"
    unfolding results_def by (rule map_Domain_probes)
  finally have all: "mset (map pf_Domain (rp_Reachable report)) + mset (map pf_Domain (rp_Dead report)) =
    mset domains" .
  have fastest: "pf_Alive r \<and> pf_Latency (rp_Best report) \<le> pf_Latency r"
    if "r \<in> set (rp_Reachable report)" for r
  proof -
    have "r \<in> set (filter pf_Alive results)" using that parts(5) by simp
    moreover have "rp_Best report = hd (rp_Reachable report)" using that parts(3) by auto
    ultimately show ?thesis
      using slice_sorter.hd_srt_minimal [OF assms faster_weak, of r "filter pf_Alive results"]
      unfolding parts(1) by auto
  qed
  show ?thesis
    unfolding report_def [symmetric] Let_def
    using all fastest parts(2,3) by simp
qed

text \<open>Three domains: one slow, one dead, one fast.\<close>

definition sample_probes :: "nat \<Rightarrow> probe_env" where
  "sample_probes i =
     \<lparr>pv_addrs = Some [''1.2.3.4''],
      pv_dial = (\<lambda>t. if i = 0 then Some 90 else if i = 2 then Some 20 else None)\<rparr>"

lemma sample_scan:
  "map pf_Domain (rp_Reachable (RunDomains insertion_sort sample_probes [''a.com'', ''b.com'', ''c.com''] 0)) =
     [''c.com'', ''a.com''] \<and>
   rp_Best (RunDomains insertion_sort sample_probes [''a.com'', ''b.com'', ''c.com''] 0) =
     \<lparr>pf_Domain = ''c.com'', pf_IP = ''1.2.3.4'', pf_Latency = 20, pf_Alive = True\<rparr>"
  by (simp add: RunDomains_def preflight_probe_def sample_probes_def insertion_sort_def Let_def
      upt_rec [of _ "Suc _"] upt_rec [of _ "3"] numeral_3_eq_3)

theorem RunDomains_best_witness:
  "let report = RunDomains insertion_sort sample_probes [''a.com'', ''b.com'', ''c.com''] 0 in
     pf_Domain (rp_Best report) = ''c.com'' \<and>
     mset (map pf_Domain (rp_Reachable report)) + mset (map pf_Domain (rp_Dead report)) =
       mset [''a.com'', ''b.com'', ''c.com'']"
  using RunDomains_best [OF small_sort.slice_sorter_axioms, of sample_probes "[''a.com'', ''b.com'', ''c.com'']" 0]
    sample_scan
  by (simp add: Let_def)

end
