(* ===== verification/Cli.thy ===== *)
theory Cli
  imports Config Preflight Text
begin

text \<open>
  The commands of \<^verbatim>\<open>cmd/ghostnet/main.go\<close> that make, write and reload configurations: the
  results of a scan put into a configuration, \<^verbatim>\<open>writeCfg\<close>, the set-up, the list of domains
  in a file, and the handler of SIGHUP. What \<^verbatim>\<open>json.MarshalIndent\<close> makes of a value and what the
  decoder makes of the bytes are arguments. Console output is left out.
\<close>

section \<open>Writing a configuration\<close>

text \<open>The fields \<^verbatim>\<open>writeCfg\<close> writes. A nil list of plug-ins is the empty list.\<close>

record cfgOut =
  co_ListenHost :: string
  co_ListenPort :: int
  co_ConnectIP :: string
  co_ConnectPort :: int
  co_BypassMethod :: string
  co_FakeSNI :: string
  co_FakeSNIPool :: "string list"
  co_BrowserProfile :: string
  co_TTLSpoof :: bool
  co_FragmentSize :: int
  co_FakeDelayMs :: real
  co_MinDelayMs :: real
  co_MaxDelayMs :: real
  co_BypassTimeout :: real
  co_ConnectTimeout :: real
  co_ReadTimeout :: real
  co_WriteTimeout :: real
  co_JitterMs :: real
  co_RetryLimit :: int
  co_RetryBaseMs :: real
  co_RetryMaxMs :: real
  co_CircuitBreakerThreshold :: int
  co_CircuitBreakerCooldown :: real
  co_RecvBuffer :: int
  co_MaxConnections :: int
  co_IdleTimeout :: int
  co_RateLimit :: int
  co_WorkerPoolSize :: int
  co_LogLevel :: string
  co_LogClientSNI :: bool
  co_LogFile :: string
  co_LogNoColor :: bool
  co_StatsInterval :: int
  co_PrometheusEnabled :: bool
  co_PrometheusAddr :: string
  co_PprofEnabled :: bool
  co_PprofAddr :: string
  co_DomainProbeEnabled :: bool
  co_DomainProbeInterval :: int
  co_DomainPool :: "string list"
  co_Plugins :: "PluginConfig list"

definition cfg_out :: "Config \<Rightarrow> cfgOut" where
  "cfg_out c =
     \<lparr>co_ListenHost = cf_ListenHost c, co_ListenPort = cf_ListenPort c,
      co_ConnectIP = cf_ConnectIP c, co_ConnectPort = cf_ConnectPort c,
      co_BypassMethod = cf_BypassMethod c, co_FakeSNI = cf_FakeSNI c,
      co_FakeSNIPool = cf_FakeSNIPool c, co_BrowserProfile = cf_BrowserProfile c,
      co_TTLSpoof = cf_TTLSpoof c, co_FragmentSize = cf_FragmentSize c,
      co_FakeDelayMs = cf_FakeDelayMs c, co_MinDelayMs = cf_MinDelayMs c,
      co_MaxDelayMs = cf_MaxDelayMs c, co_BypassTimeout = cf_BypassTimeout c,
      co_ConnectTimeout = cf_ConnectTimeout c, co_ReadTimeout = cf_ReadTimeout c,
      co_WriteTimeout = cf_WriteTimeout c, co_JitterMs = cf_JitterMs c,
      co_RetryLimit = cf_RetryLimit c, co_RetryBaseMs = cf_RetryBaseMs c,
      co_RetryMaxMs = cf_RetryMaxMs c, co_CircuitBreakerThreshold = cf_CircuitBreakerThreshold c,
      co_CircuitBreakerCooldown = cf_CircuitBreakerCooldownS c, co_RecvBuffer = cf_RecvBuffer c,
      co_MaxConnections = cf_MaxConnections c, co_IdleTimeout = cf_IdleTimeout c,
      co_RateLimit = cf_RateLimit c, co_WorkerPoolSize = cf_WorkerPoolSize c,
      co_LogLevel = cf_LogLevel c, co_LogClientSNI = cf_LogClientSNI c,
      co_LogFile = cf_LogFile c, co_LogNoColor = cf_LogNoColor c,
      co_StatsInterval = cf_StatsInterval c, co_PrometheusEnabled = cf_PrometheusEnabled c,
      co_PrometheusAddr = cf_PrometheusAddr c, co_PprofEnabled = cf_PprofEnabled c,
      co_PprofAddr = cf_PprofAddr c, co_DomainProbeEnabled = cf_DomainProbeEnabled c,
      co_DomainProbeInterval = cf_DomainProbeInterval c, co_DomainPool = cf_DomainPool c,
      co_Plugins = cf_Plugins c\<rparr>"

text \<open>The bytes handed to \<^verbatim>\<open>os.WriteFile\<close>, whose answer is \<open>wr\<close>.\<close>

definition writeCfg ::
  "(cfgOut \<Rightarrow> go_error + bytes) \<Rightarrow> (bytes \<Rightarrow> go_error option) \<Rightarrow> Config \<Rightarrow>
   go_error option \<times> bytes option" where
  "writeCfg marshal wr cfg =
     (let safe = SafeCopy cfg; o1 = cfg_out safe
      in case marshal o1 of
           Inl e \<Rightarrow> (Some (wrap_error ''writeCfg'' e), None)
         | Inr data \<Rightarrow> (wr data, Some data))"

text \<open>What a codec promises of a written value and the defaults: the fields named in the text are set
  to what was written, the others keep their values, and there is no carriage return in the bytes.
  \<open>ConfigJson\<close> proves it of \<^verbatim>\<open>encoding/json\<close>.\<close>

definition read_back :: "cfgOut \<Rightarrow> Config \<Rightarrow> Config" where
  "read_back out c =
     c\<lparr>cf_ListenHost := co_ListenHost out, cf_ListenPort := co_ListenPort out,
       cf_ConnectIP := co_ConnectIP out, cf_ConnectPort := co_ConnectPort out,
       cf_BypassMethod := co_BypassMethod out, cf_FakeSNI := co_FakeSNI out,
       cf_FakeSNIPool := co_FakeSNIPool out, cf_BrowserProfile := co_BrowserProfile out,
       cf_TTLSpoof := co_TTLSpoof out, cf_FragmentSize := co_FragmentSize out,
       cf_FakeDelayMs := co_FakeDelayMs out, cf_MinDelayMs := co_MinDelayMs out,
       cf_MaxDelayMs := co_MaxDelayMs out, cf_BypassTimeout := co_BypassTimeout out,
       cf_ConnectTimeout := co_ConnectTimeout out, cf_ReadTimeout := co_ReadTimeout out,
       cf_WriteTimeout := co_WriteTimeout out, cf_JitterMs := co_JitterMs out,
       cf_RetryLimit := co_RetryLimit out, cf_RetryBaseMs := co_RetryBaseMs out,
       cf_RetryMaxMs := co_RetryMaxMs out,
       cf_CircuitBreakerThreshold := co_CircuitBreakerThreshold out,
       cf_CircuitBreakerCooldownS := co_CircuitBreakerCooldown out,
       cf_RecvBuffer := co_RecvBuffer out, cf_MaxConnections := co_MaxConnections out,
       cf_IdleTimeout := co_IdleTimeout out, cf_RateLimit := co_RateLimit out,
       cf_WorkerPoolSize := co_WorkerPoolSize out, cf_LogLevel := co_LogLevel out,
       cf_LogClientSNI := co_LogClientSNI out, cf_LogFile := co_LogFile out,
       cf_LogNoColor := co_LogNoColor out, cf_StatsInterval := co_StatsInterval out,
       cf_PrometheusEnabled := co_PrometheusEnabled out, cf_PrometheusAddr := co_PrometheusAddr out,
       cf_PprofEnabled := co_PprofEnabled out, cf_PprofAddr := co_PprofAddr out,
       cf_DomainProbeEnabled := co_DomainProbeEnabled out,
       cf_DomainProbeInterval := co_DomainProbeInterval out, cf_DomainPool := co_DomainPool out,
       cf_Plugins := co_Plugins out\<rparr>"

definition json_law ::
  "(cfgOut \<Rightarrow> go_error + bytes) \<Rightarrow> (bytes \<Rightarrow> Config \<Rightarrow> go_error + Config) \<Rightarrow> cfgOut \<Rightarrow> bool"
where
  "json_law marshal unmarshal out \<longleftrightarrow>
     (\<forall>data. marshal out = Inr data \<longrightarrow>
        13 \<notin> set data \<and> unmarshal data Default = Inr (read_back out Default))"

section \<open>Configurations from a scan\<close>

definition reachable_pool :: "Report \<Rightarrow> string list" where
  "reachable_pool report = map pf_Domain (rp_Reachable report)"

text \<open>\<^verbatim>\<open>scan -w\<close>: the configuration in the file, or the defaults when it cannot be loaded.\<close>

definition scan_config :: "Report \<Rightarrow> go_error option \<times> Config option \<Rightarrow> Config" where
  "scan_config report loaded =
     (let cfg = (case loaded of (None, Some c) \<Rightarrow> c | _ \<Rightarrow> Default);
          cfg = cfg\<lparr>cf_FakeSNI := pf_Domain (rp_Best report)\<rparr>;
          pool = reachable_pool report;
          cfg = cfg\<lparr>cf_FakeSNIPool := pool, cf_DomainPool := pool\<rparr>
      in if pf_IP (rp_Best report) \<noteq> []
         then let cfg = cfg\<lparr>cf_ConnectIP := pf_IP (rp_Best report)\<rparr>
              in cfg\<lparr>cf_Endpoints :=
                   [\<lparr>ce_IP = cf_ConnectIP cfg, ce_Port = cf_ConnectPort cfg, ce_Weight = 1\<rparr>]\<rparr>
         else cfg)"

definition setup_config :: "int \<Rightarrow> Report \<Rightarrow> Config" where
  "setup_config listenPort report =
     (let cfg = Default\<lparr>cf_ListenPort := listenPort, cf_FakeSNI := pf_Domain (rp_Best report),
                  cf_ConnectIP := pf_IP (rp_Best report), cf_ConnectPort := 443\<rparr>;
          cfg = cfg\<lparr>cf_Endpoints :=
                  [\<lparr>ce_IP = cf_ConnectIP cfg, ce_Port = cf_ConnectPort cfg, ce_Weight = 1\<rparr>]\<rparr>;
          pool = reachable_pool report
      in cfg\<lparr>cf_FakeSNIPool := pool, cf_DomainPool := pool\<rparr>)"

text \<open>The start of \<^verbatim>\<open>startProxy\<close>: the flags, the local address (\<open>None\<close> when it is not
  found), and the pre-flight scan.\<close>

definition start_config :: "bool \<Rightarrow> bool \<Rightarrow> string option \<Rightarrow> Config \<Rightarrow> Config" where
  "start_config dbg stealth localIP cfg =
     (let cfg = (if dbg then cfg\<lparr>cf_LogLevel := ''debug''\<rparr>
                 else if stealth then cfg\<lparr>cf_LogLevel := ''stealth''\<rparr> else cfg)
      in if cf_InterfaceIP cfg = []
         then (case localIP of Some ip \<Rightarrow> cfg\<lparr>cf_InterfaceIP := ip\<rparr> | None \<Rightarrow> cfg)
         else cfg)"

definition preflight_config :: "bool \<Rightarrow> Report \<Rightarrow> Config \<Rightarrow> Config" where
  "preflight_config withPreFlight report cfg =
     (if withPreFlight \<and>
         (cf_ConnectIP cfg = [] \<or> cf_FakeSNI cfg = [] \<or> cf_FakeSNI cfg = ''hcaptcha.com'')
      then if rp_Reachable report \<noteq> []
        then let cfg = (if cf_FakeSNI cfg = [] \<or> cf_FakeSNI cfg = ''hcaptcha.com''
                        then cfg\<lparr>cf_FakeSNI := pf_Domain (rp_Best report)\<rparr> else cfg);
                 pool = reachable_pool report;
                 cfg = cfg\<lparr>cf_FakeSNIPool := pool\<rparr>;
                 cfg = (if cf_ConnectIP cfg = [] \<and> pf_IP (rp_Best report) \<noteq> []
                        then let cfg = cfg\<lparr>cf_ConnectIP := pf_IP (rp_Best report)\<rparr>
                             in cfg\<lparr>cf_Endpoints :=
                               [\<lparr>ce_IP = cf_ConnectIP cfg, ce_Port = cf_ConnectPort cfg, ce_Weight = 1\<rparr>]\<rparr>
                        else cfg)
             in if cf_DomainPool cfg = [] then cfg\<lparr>cf_DomainPool := pool\<rparr> else cfg
        else cfg
      else cfg)"

section \<open>The file of domains\<close>

text \<open>The lines \<^verbatim>\<open>bufio.Scanner\<close> gives: split at \<^verbatim>\<open>\n\<close>, one \<^verbatim>\<open>\r\<close> dropped at the end
  of each, no empty line after a final \<^verbatim>\<open>\n\<close>. A line that does not fit in its buffer of 64 KiB
  ends the scan with an error.\<close>

fun split_lines :: "string \<Rightarrow> string \<Rightarrow> string list" where
  "split_lines cur [] = (if cur = [] then [] else [cur])"
| "split_lines cur (c # cs) =
     (if c = CHR 0x0A then cur # split_lines [] cs else split_lines (cur @ [c]) cs)"

definition drop_CR :: "string \<Rightarrow> string" where
  "drop_CR s = (if s \<noteq> [] \<and> last s = CHR 0x0D then butlast s else s)"

fun domains_of :: "string list \<Rightarrow> string list \<times> go_error option" where
  "domains_of [] = ([], None)"
| "domains_of (raw # lines) =
     (if length raw \<ge> 65536 then ([], Some [''bufio.Scanner: token too long''])
      else let line = trim_space (drop_CR raw)
           in case domains_of lines of
                (ds, e) \<Rightarrow> if line = [] \<or> hd line = CHR ''#'' then (ds, e) else (line # ds, e))"

definition loadDomainsFromFile :: "go_error + string \<Rightarrow> string list \<times> go_error option" where
  "loadDomainsFromFile opened =
     (case opened of Inl e \<Rightarrow> ([], Some e) | Inr content \<Rightarrow> domains_of (split_lines [] content))"

section \<open>The commands\<close>

definition scan_domains :: "(go_error + string) option \<Rightarrow> go_error + string list" where
  "scan_domains sniFile =
     (case sniFile of
        Some opened \<Rightarrow>
          (case loadDomainsFromFile opened of
             (ds, Some e) \<Rightarrow> Inl (wrap_error ''scan: read file'' e)
           | (ds, None) \<Rightarrow> Inr ds)
      | None \<Rightarrow> Inr KnownSNIDomains)"

text \<open>\<^verbatim>\<open>runScan\<close>: its error, and the bytes written to the configuration file, if any. \<open>sniFile\<close>
  is \<open>None\<close> without \<^verbatim>\<open>--file\<close>.\<close>

definition runScan ::
  "preflight_result slice_sort \<Rightarrow> (nat \<Rightarrow> probe_env) \<Rightarrow> (cfgOut \<Rightarrow> go_error + bytes) \<Rightarrow>
   (bytes \<Rightarrow> go_error option) \<Rightarrow> load_env \<Rightarrow> string \<Rightarrow> (go_error + string) option \<Rightarrow> bool \<Rightarrow> int \<Rightarrow>
   go_error option \<times> bytes option" where
  "runScan srt probes marshal wr env cfgFile sniFile writeBack timeout =
     (case scan_domains sniFile of
        Inl e \<Rightarrow> (Some e, None)
      | Inr domains \<Rightarrow>
          (let report = RunDomains srt probes domains timeout
           in if rp_Reachable report = [] then (None, None)
              else if writeBack
                then (case writeCfg marshal wr (scan_config report (Load env cfgFile)) of
                        (Some e, d) \<Rightarrow> (Some (wrap_error ''scan: write config'' e), d)
                      | (None, d) \<Rightarrow> (None, d))
                else (None, None)))"

text \<open>\<^verbatim>\<open>runSetup\<close> after the tuning and up to the start of the proxy.\<close>

definition runSetup ::
  "preflight_result slice_sort \<Rightarrow> (nat \<Rightarrow> probe_env) \<Rightarrow> (cfgOut \<Rightarrow> go_error + bytes) \<Rightarrow>
   (bytes \<Rightarrow> go_error option) \<Rightarrow> int \<Rightarrow> go_error option \<times> bytes option" where
  "runSetup srt probes marshal wr listenPort =
     (let report = Preflight_Run srt probes (4 * Second)
      in if rp_Reachable report = []
         then (Some [''setup: no reachable SNI domains found''], None)
         else (case writeCfg marshal wr (setup_config listenPort report) of
                 (Some e, d) \<Rightarrow> (Some (wrap_error ''setup: write config'' e), d)
               | (None, d) \<Rightarrow> (None, d)))"

section \<open>Reading back what was written\<close>

definition endpoints_lost :: "Config \<Rightarrow> Config" where
  "endpoints_lost c = c\<lparr>cf_Endpoints := [], cf_InterfaceIP := []\<rparr>"

lemma read_back_Default: "read_back (cfg_out c) Default = endpoints_lost c"
  by (cases c) (simp add: read_back_def cfg_out_def endpoints_lost_def Default_def)

lemma endpoints_lost_simps [simp]:
  "cf_Endpoints (endpoints_lost c) = []" "cf_InterfaceIP (endpoints_lost c) = []"
  "cf_ConnectIP (endpoints_lost c) = cf_ConnectIP c" "cf_ListenPort (endpoints_lost c) = cf_ListenPort c"
  "cf_ConnectPort (endpoints_lost c) = cf_ConnectPort c" "fields_ok (endpoints_lost c) = fields_ok c"
  by (simp_all add: endpoints_lost_def fields_ok_def)

lemma Load_written:
  assumes "marshal (cfg_out c) = Inr data" and "json_law marshal (le_json env) (cfg_out c)"
    and "le_read env path = Inr data" and "\<not> is_yaml path" and "\<forall>v. le_getenv env v = []"
  shows "Load env path =
    (case Validate (le_parse_ip env) (le_lookup env) (endpoints_lost c) of (e, c') \<Rightarrow> (e, Some c'))"
proof -
  have data: "13 \<notin> set data" "le_json env data Default = Inr (endpoints_lost c)"
    using assms(1,2) unfolding json_law_def read_back_Default [symmetric] by blast+
  then show ?thesis
    using assms(3-5) by (simp add: Load_def)
qed

lemma Validate_no_endpoints:
  assumes "cf_Endpoints c = []" and "parse_ip (cf_ConnectIP c) \<noteq> None" and "cf_ConnectIP c \<noteq> []"
    and "1 \<le> cf_ListenPort c" and "cf_ListenPort c \<le> 65535" and "fields_ok c"
  shows "Validate parse_ip lookup c =
    (None, c\<lparr>cf_Endpoints := [\<lparr>ce_IP = cf_ConnectIP c, ce_Port = cf_ConnectPort c, ce_Weight = 1\<rparr>]\<rparr>)"
proof -
  have ip: "resolve_host parse_ip lookup (cf_ConnectIP c) = Some (cf_ConnectIP c)"
    using assms(2) by (auto simp: resolve_host_def)
  have "repair_fields (c\<lparr>cf_Endpoints := []\<rparr>) = c\<lparr>cf_Endpoints := []\<rparr>"
    using assms(6) by (intro repair_fields_id) simp
  then show ?thesis
    using assms(1,3-5) ip unfolding Validate_def Let_def by simp
qed

lemma writeCfg_data:
  "writeCfg marshal wr c = (None, Some data) \<Longrightarrow> marshal (cfg_out c) = Inr data"
  by (auto simp: writeCfg_def SafeCopy_def Let_def split: sum.splits)

lemma Load_of_written:
  assumes "writeCfg marshal wr c = (None, Some data)"
    and "json_law marshal (le_json env) (cfg_out c)"
    and "le_read env path = Inr data" and "\<not> is_yaml path" and "\<forall>v. le_getenv env v = []"
    and "config_ok (le_parse_ip env) c"
  shows "Load env path =
    (if cf_ConnectIP c = []
     then (Some [''config: connect_ip or endpoints required''],
           Some (c\<lparr>cf_Endpoints := [], cf_InterfaceIP := []\<rparr>))
     else (None, Some (c\<lparr>cf_InterfaceIP := [],
       cf_Endpoints := [\<lparr>ce_IP = cf_ConnectIP c, ce_Port = cf_ConnectPort c, ce_Weight = 1\<rparr>]\<rparr>)))"
proof -
  note load = Load_written [OF writeCfg_data [OF assms(1)] assms(2-5)]
  show ?thesis
  proof (cases "cf_ConnectIP c = []")
    case True
    then show ?thesis by (simp add: load Validate_def endpoints_lost_def)
  next
    case False
    then have "Validate (le_parse_ip env) (le_lookup env) (endpoints_lost c) =
        (None, (endpoints_lost c)\<lparr>cf_Endpoints :=
           [\<lparr>ce_IP = cf_ConnectIP c, ce_Port = cf_ConnectPort c, ce_Weight = 1\<rparr>]\<rparr>)"
      using assms(6) Validate_no_endpoints [of "endpoints_lost c"] by (auto simp: config_ok_def)
    with False show ?thesis by (simp add: load endpoints_lost_def)
  qed
qed

text \<open>A library for one value: it writes one byte for it and reads that byte back.\<close>

definition toy_marshal :: "cfgOut \<Rightarrow> go_error + bytes" where
  "toy_marshal out = Inr [1]"

definition toy_env :: "cfgOut \<Rightarrow> load_env" where
  "toy_env out =
     \<lparr>le_read = (\<lambda>_. Inr [1]), le_yaml = (\<lambda>_ c. Inr c), le_json = (\<lambda>_ c. Inr (read_back out c)),
      le_getenv = (\<lambda>_. []), le_parse_ip = sample_parse_ip, le_lookup = sample_lookup\<rparr>"

lemma toy_json_law: "json_law toy_marshal (le_json (toy_env out)) out"
  by (simp add: json_law_def toy_marshal_def toy_env_def)

lemma toy_write: "writeCfg toy_marshal (\<lambda>_. None) c = (None, Some [1])"
  by (simp add: writeCfg_def toy_marshal_def Let_def)

lemma json_path: "\<not> is_yaml ''config.json''"
  by (simp add: is_yaml_def has_suffix_def lower_char_def)

section \<open>Scan, then run\<close>

lemma fields_ok_scan:
  assumes "fields_ok c" and "rp_Reachable report \<noteq> []" and "rp_Best report = hd (rp_Reachable report)"
  shows "fields_ok (c\<lparr>cf_FakeSNI := pf_Domain (rp_Best report),
    cf_FakeSNIPool := reachable_pool report, cf_DomainPool := reachable_pool report,
    cf_ConnectIP := ip, cf_Endpoints := eps\<rparr>)"
  using assms by (simp add: fields_ok_def reachable_pool_def hd_map)

text \<open>What a scan starts from: a file that loads as a valid configuration, or the defaults.\<close>

definition scan_base :: "go_error option \<times> Config option \<Rightarrow> Config" where
  "scan_base loaded = (case loaded of (None, Some c) \<Rightarrow> c | _ \<Rightarrow> Default)"

lemma scan_config_written:
  assumes "rp_Reachable report \<noteq> []" and "pf_IP (rp_Best report) \<noteq> []"
  shows "scan_config report loaded = (scan_base loaded)\<lparr>cf_FakeSNI := pf_Domain (rp_Best report),
    cf_FakeSNIPool := reachable_pool report, cf_DomainPool := reachable_pool report,
    cf_ConnectIP := pf_IP (rp_Best report), cf_Endpoints :=
      [\<lparr>ce_IP = pf_IP (rp_Best report), ce_Port = cf_ConnectPort (scan_base loaded), ce_Weight = 1\<rparr>]\<rparr>"
  using assms by (simp add: scan_config_def scan_base_def [symmetric] Let_def)

lemma Load_fields:
  assumes "Load env path = (None, Some c)"
  shows "fields_ok c \<and> 1 \<le> cf_ListenPort c \<and> cf_ListenPort c \<le> 65535"
proof -
  obtain c0 where v: "Validate (le_parse_ip env) (le_lookup env) c0 = (None, c)"
    using assms
    by (auto simp: Load_def Let_def split: sum.splits if_splits prod.splits)
  from v show ?thesis
    by (auto simp: Validate_def Let_def repair_fields_ok split: if_splits option.splits prod.splits)
qed

lemma scan_base_fields:
  "fields_ok (scan_base (Load env path)) \<and> 1 \<le> cf_ListenPort (scan_base (Load env path)) \<and>
   cf_ListenPort (scan_base (Load env path)) \<le> 65535"
proof (cases "\<exists>c. Load env path = (None, Some c)")
  case True
  then show ?thesis using Load_fields by (auto simp: scan_base_def)
next
  case False
  then have "scan_base (Load env path) = Default"
    by (auto simp: scan_base_def split: prod.split option.split)
  then show ?thesis by (simp add: fields_ok_def Default_def)
qed

lemma runScan_written:
  assumes "runScan srt probes marshal wr env path sniFile True timeout = (None, Some data)"
    and "scan_domains sniFile = Inr domains"
  shows "rp_Reachable (RunDomains srt probes domains timeout) \<noteq> [] \<and>
    marshal (cfg_out (scan_config (RunDomains srt probes domains timeout) (Load env path))) = Inr data"
  using assms writeCfg_data [of marshal wr "scan_config (RunDomains srt probes domains timeout) (Load env path)"]
  by (auto simp: runScan_def Let_def split: if_splits prod.splits option.splits)


text \<open>A scan of three domains in a file, with nothing at the place of the configuration.\<close>

definition no_file :: load_env where
  "no_file = (toy_env (cfg_out Default))\<lparr>le_read := (\<lambda>_. Inl [''no such file''])\<rparr>"

definition sample_file :: string where
  "sample_file = ''a.com'' @ [CHR 0x0A] @ ''# no'' @ [CHR 0x0D, CHR 0x0A] @ '' b.com'' @ [CHR 0x0A] @ ''c.com''"

lemma sample_file_domains: "scan_domains (Some (Inr sample_file)) = Inr [''a.com'', ''b.com'', ''c.com'']"
  by (simp add: scan_domains_def loadDomainsFromFile_def sample_file_def trim_space_def
      is_space_def drop_CR_def)


end
