(* ===== verification/Reload.thy ===== *)
theory Reload
  imports Cli
begin

text \<open>
  The reload of the configuration on SIGHUP, \<^verbatim>\<open>startProxy\<close> in \<^verbatim>\<open>cmd/ghostnet/main.go\<close>, with
  the lock that \<^verbatim>\<open>Config\<close> carries (\<^verbatim>\<open>internal/config/config.go\<close>). The lock is the standard
  library's \<^verbatim>\<open>sync.RWMutex\<close>, as documented: \<^verbatim>\<open>Lock\<close> waits while anyone holds it,
  \<^verbatim>\<open>Unlock\<close> of a mutex that is not locked is a fatal error, which no \<^verbatim>\<open>recover\<close> stops and which
  ends the process. The struct holds the mutex by value, so assigning the struct assigns the mutex.
\<close>

datatype 'a outcome = Returns 'a | Blocks | Fatal string

fun and_then :: "'a outcome \<Rightarrow> ('a \<Rightarrow> 'b outcome) \<Rightarrow> 'b outcome" where
  "and_then (Returns x) f = f x"
| "and_then Blocks f = Blocks"
| "and_then (Fatal m) f = Fatal m"

record shared_config =
  sc_cfg :: Config
  sc_writer :: bool
  sc_readers :: nat

text \<open>A configuration with the zero value of the mutex.\<close>

definition unlocked :: "Config \<Rightarrow> shared_config" where
  "unlocked c = \<lparr>sc_cfg = c, sc_writer = False, sc_readers = 0\<rparr>"

definition cfg_RLock :: "shared_config \<Rightarrow> shared_config outcome" where
  "cfg_RLock s = (if sc_writer s then Blocks else Returns (s\<lparr>sc_readers := sc_readers s + 1\<rparr>))"

definition cfg_RUnlock :: "shared_config \<Rightarrow> shared_config outcome" where
  "cfg_RUnlock s =
     (if sc_readers s = 0 then Fatal ''sync: RUnlock of unlocked RWMutex''
      else Returns (s\<lparr>sc_readers := sc_readers s - 1\<rparr>))"

definition cfg_Lock :: "shared_config \<Rightarrow> shared_config outcome" where
  "cfg_Lock s = (if sc_writer s \<or> 0 < sc_readers s then Blocks else Returns (s\<lparr>sc_writer := True\<rparr>))"

definition cfg_Unlock :: "shared_config \<Rightarrow> shared_config outcome" where
  "cfg_Unlock s =
     (if \<not> sc_writer s then Fatal ''sync: Unlock of unlocked RWMutex''
      else Returns (s\<lparr>sc_writer := False\<rparr>))"

text \<open>\<^verbatim>\<open>SafeCopy\<close> answers the copy, with a fresh mutex, and leaves its receiver as it was.\<close>

definition cfg_SafeCopy :: "shared_config \<Rightarrow> (shared_config \<times> shared_config) outcome" where
  "cfg_SafeCopy s =
     and_then (cfg_RLock s) (\<lambda>s.
       let cp = s; cp = cp\<lparr>sc_writer := False, sc_readers := 0\<rparr>
       in and_then (cfg_RUnlock s) (\<lambda>s. Returns (cp, s)))"

text \<open>One SIGHUP: the shared configuration afterwards, and the level the logger is set to, if it is. A
  nil configuration without an error would be dereferenced.\<close>

definition sighup_reload ::
  "go_error option \<times> Config option \<Rightarrow> shared_config \<Rightarrow> (shared_config \<times> string option) outcome" where
  "sighup_reload loaded cfg =
     (case loaded of
        (Some err, _) \<Rightarrow> Returns (cfg, None)
      | (None, None) \<Rightarrow> Fatal ''nil pointer dereference''
      | (None, Some newCfg) \<Rightarrow>
          and_then (cfg_SafeCopy (unlocked newCfg)) (\<lambda>(safe, _).
          and_then (cfg_Lock cfg) (\<lambda>cfg.
            let oldLevel = cf_LogLevel (sc_cfg cfg);
                cfg = safe
            in and_then (cfg_Unlock cfg) (\<lambda>cfg.
                 if cf_LogLevel (sc_cfg cfg) \<noteq> oldLevel
                 then Returns (cfg, Some (cf_LogLevel (sc_cfg cfg)))
                 else Returns (cfg, None)))))"

lemma cfg_SafeCopy_unlocked [simp]: "cfg_SafeCopy (unlocked c) = Returns (unlocked c, unlocked c)"
  by (simp add: cfg_SafeCopy_def cfg_RLock_def cfg_RUnlock_def unlocked_def Let_def)

lemma cfg_unlocked_simps [simp]:
  "sc_writer (unlocked c) = False" "sc_readers (unlocked c) = 0" "sc_cfg (unlocked c) = c"
  by (simp_all add: unlocked_def)

text \<open>The lock itself works: what was locked can be unlocked.\<close>

lemma cfg_Lock_Unlock:
  "cfg_Lock s = Returns s' \<Longrightarrow> cfg_Unlock (s'\<lparr>sc_cfg := c\<rparr>) = Returns (s\<lparr>sc_cfg := c\<rparr>)"
  by (cases s) (auto simp: cfg_Lock_def cfg_Unlock_def split: if_splits)

lemma Load_not_nil: "Load env path \<noteq> (None, None)"
  by (auto simp: Load_def Let_def split: sum.splits prod.splits if_splits)

text \<open>C15. A reload that loads its file ends the process. When the file does not load, SIGHUP changes
  nothing; when it does, \<^verbatim>\<open>*cfg = safe\<close> overwrites the mutex that was just locked with the
  fresh one of the copy, and the \<^verbatim>\<open>Unlock\<close> that follows is a fatal error (or the handler waits, as
  long as somebody else holds the lock). No reload ever takes effect.\<close>

theorem sighup_reload_fatal:
  "sighup_reload (Load env path) shared =
     (if fst (Load env path) \<noteq> None then Returns (shared, None)
      else if sc_writer shared \<or> 0 < sc_readers shared then Blocks
      else Fatal ''sync: Unlock of unlocked RWMutex'')"
proof -
  obtain e c where l: "Load env path = (e, c)" by fastforce
  show ?thesis
  proof (cases e)
    case (Some err)
    then show ?thesis by (simp add: l sighup_reload_def)
  next
    case None
    then obtain new where "c = Some new" using Load_not_nil [of env path] l by auto
    with None show ?thesis
      by (simp add: l sighup_reload_def cfg_Lock_def cfg_Unlock_def)
  qed
qed

end
