(* ===== verification/Logger.thy ===== *)
theory Logger
  imports Text "HOL-Library.Char_ord"
begin

text \<open>
  The logger, \<^verbatim>\<open>internal/log/logger.go\<close>: levels, the text of a line, and the channel between
  the callers of \<^verbatim>\<open>emit\<close> and the goroutine that writes. The time stamp of a line and the text of a
  duration are arguments. Padding counts bytes, which is what the verb does for ASCII arguments. The
  methods of one event are given by their level and message, \<open>log_call\<close>.
\<close>

section \<open>Levels\<close>

datatype Level = LevelDebug | LevelInfo | LevelWarn | LevelError | LevelStealth

fun level_int :: "Level \<Rightarrow> nat" where
  "level_int LevelDebug = 0"
| "level_int LevelInfo = 1"
| "level_int LevelWarn = 2"
| "level_int LevelError = 3"
| "level_int LevelStealth = 4"

lemma level_int_inj [simp]: "level_int a = level_int b \<longleftrightarrow> a = b"
  by (cases a; cases b) simp_all

instantiation Level :: linorder
begin

definition less_eq_Level :: "Level \<Rightarrow> Level \<Rightarrow> bool" where
  "less_eq_Level a b \<longleftrightarrow> level_int a \<le> level_int b"

definition less_Level :: "Level \<Rightarrow> Level \<Rightarrow> bool" where
  "less_Level a b \<longleftrightarrow> level_int a < level_int b"

instance
  by standard (auto simp: less_eq_Level_def less_Level_def)

end

definition ParseLevel :: "string \<Rightarrow> Level" where
  "ParseLevel s =
     (if s = ''debug'' then LevelDebug
      else if s = ''info'' then LevelInfo
      else if s = ''warn'' \<or> s = ''warning'' then LevelWarn
      else if s = ''error'' then LevelError
      else if s = ''stealth'' then LevelStealth
      else LevelInfo)"

section \<open>The text of a line\<close>

definition esc :: "string \<Rightarrow> string" where "esc code = CHR 0x1B # ''['' @ code @ ''m''"

definition cReset :: string where "cReset = esc ''0''"
definition cGray :: string where "cGray = esc ''90''"
definition cCyan :: string where "cCyan = esc ''36''"
definition cYellow :: string where "cYellow = esc ''33''"
definition cRed :: string where "cRed = esc ''31''"
definition cGreen :: string where "cGreen = esc ''32''"
definition cBlue :: string where "cBlue = esc ''34''"
definition cMagenta :: string where "cMagenta = esc ''35''"
definition cWhite :: string where "cWhite = esc ''97''"

fun level_label :: "Level \<Rightarrow> string \<times> string" where
  "level_label LevelDebug = (''DBG'', cGray)"
| "level_label LevelInfo = (''INF'', cCyan)"
| "level_label LevelWarn = (''WRN'', cYellow)"
| "level_label LevelError = (''ERR'', cRed)"
| "level_label LevelStealth = (''   '', cReset)"

record logger =
  lg_level :: Level
  lg_noColor :: bool
  lg_connID :: string

definition new_logger :: "Level \<Rightarrow> logger" where
  "new_logger level = \<lparr>lg_level = level, lg_noColor = False, lg_connID = []\<rparr>"

text \<open>A child shares the channel; its level is a copy, which \<^verbatim>\<open>SetLevel\<close> on the parent does not
  reach.\<close>

definition WithConnID :: "string \<Rightarrow> logger \<Rightarrow> logger" where
  "WithConnID i l = \<lparr>lg_level = lg_level l, lg_noColor = lg_noColor l, lg_connID = i\<rparr>"

definition SetLevel :: "Level \<Rightarrow> logger \<Rightarrow> logger" where "SetLevel v l = l\<lparr>lg_level := v\<rparr>"

definition GetLevel :: "logger \<Rightarrow> Level" where "GetLevel l = lg_level l"

definition SetNoColor :: "bool \<Rightarrow> logger \<Rightarrow> logger" where "SetNoColor v l = l\<lparr>lg_noColor := v\<rparr>"

definition format_line :: "logger \<Rightarrow> Level \<Rightarrow> string \<Rightarrow> string \<Rightarrow> string" where
  "format_line l level ts msg =
     (case level_label level of (lbl, col) \<Rightarrow>
        if lg_noColor l
        then if lg_connID l \<noteq> []
          then ''['' @ ts @ ''] ['' @ lbl @ ''] ['' @ lg_connID l @ ''] '' @ msg @ [CHR 0x0A]
          else ''['' @ ts @ ''] ['' @ lbl @ ''] '' @ msg @ [CHR 0x0A]
        else if lg_connID l \<noteq> []
          then cGray @ ''['' @ ts @ '']'' @ cReset @ '' '' @ col @ ''['' @ lbl @ '']'' @ cReset @ '' '' @
               cMagenta @ ''['' @ lg_connID l @ '']'' @ cReset @ '' '' @ msg @ [CHR 0x0A]
          else cGray @ ''['' @ ts @ '']'' @ cReset @ '' '' @ col @ ''['' @ lbl @ '']'' @ cReset @ '' '' @
               msg @ [CHR 0x0A])"

section \<open>The messages\<close>

definition log_fmtBytes :: "int \<Rightarrow> string" where
  "log_fmtBytes n =
     (if n \<ge> 2 ^ 30 then fixed2 (hundredths (nat n) (2 ^ 30)) @ ''GB''
      else if n \<ge> 2 ^ 20 then fixed2 (hundredths (nat n) (2 ^ 20)) @ ''MB''
      else if n \<ge> 2 ^ 10 then fixed2 (hundredths (nat n) (2 ^ 10)) @ ''KB''
      else dec_int n @ ''B'')"

datatype log_call =
    LcPlain Level string
  | LcConnOpen string string int int
  | LcConnClose string string int int string
  | LcConnFail string string string
  | LcConnRetry string int int string string
  | LcBypassOK string string string string
  | LcBypassFail string string string
  | LcSNI string string string
  | LcRelay string string string
  | LcHealth string bool string int
  | LcCircuit string string
  | LcRateLimit string int
  | LcStats string
  | LcStartup string string
  | LcSection string

fun log_message :: "log_call \<Rightarrow> Level \<times> string" where
  "log_message (LcPlain level msg) = (level, msg)"
| "log_message (LcConnOpen i remote active tot) =
     (LevelInfo, cGreen @ sym [0xE2, 0x96, 0xB6] @ '' OPEN'' @ cReset @ ''    id='' @ pad 14 i @
        '' remote='' @ pad 24 remote @ '' active='' @ pad 5 (dec_int active) @ '' total='' @ dec_int tot)"
| "log_message (LcConnClose i remote inb outb dur) =
     (LevelInfo, cGray @ sym [0xE2, 0x96, 0xA0] @ '' CLOSE'' @ cReset @ ''   id='' @ pad 14 i @
        '' remote='' @ pad 24 remote @ '' in='' @ pad 12 (log_fmtBytes inb) @ '' out='' @
        pad 12 (log_fmtBytes outb) @ '' dur='' @ dur)"
| "log_message (LcConnFail i remote reason) =
     (LevelWarn, cYellow @ sym [0xE2, 0x9C, 0x96] @ '' FAIL'' @ cReset @ ''    id='' @ pad 14 i @
        '' remote='' @ pad 24 remote @ '' reason='' @ reason)"
| "log_message (LcConnRetry i attempt mx delay reason) =
     (LevelDebug, cGray @ sym [0xE2, 0x86, 0xBA] @ '' RETRY'' @ cReset @ ''   id='' @ pad 14 i @
        '' attempt='' @ dec_int attempt @ ''/'' @ dec_int mx @ '' delay='' @ delay @ '' reason='' @ reason)"
| "log_message (LcBypassOK i strategy sni latency) =
     (LevelInfo, cGreen @ sym [0xE2, 0x9C, 0x94] @ '' BYPASS'' @ cReset @ ''  id='' @ pad 14 i @
        '' strategy='' @ pad 20 strategy @ '' sni='' @ pad 32 sni @ '' latency='' @ latency)"
| "log_message (LcBypassFail i strategy reason) =
     (LevelWarn, cYellow @ sym [0xE2, 0x9C, 0x98] @ '' BYPASS'' @ cReset @ ''  id='' @ pad 14 i @
        '' strategy='' @ pad 20 strategy @ '' reason='' @ reason)"
| "log_message (LcSNI i sni remoteIP) =
     (LevelInfo, cCyan @ sym [0xE2, 0x97, 0x88] @ '' SNI'' @ cReset @ ''     id='' @ pad 14 i @
        '' sni='' @ pad 40 sni @ '' from='' @ remoteIP)"
| "log_message (LcRelay i localAddr remote) =
     (LevelDebug, cBlue @ sym [0xE2, 0x87, 0x84] @ '' RELAY'' @ cReset @ ''   id='' @ pad 14 i @ '' '' @
        localAddr @ '' '' @ sym [0xE2, 0x86, 0x94] @ '' '' @ remote)"
| "log_message (LcHealth addr alive latency failures) =
     (if alive
      then (LevelDebug, cGreen @ sym [0xE2, 0x97, 0x8F] @ '' HEALTH'' @ cReset @ ''  addr='' @ pad 24 addr @
              '' alive=true  latency='' @ latency)
      else (LevelWarn, cRed @ sym [0xE2, 0x97, 0x8F] @ '' HEALTH'' @ cReset @ ''  addr='' @ pad 24 addr @
              '' alive=false failures='' @ dec_int failures))"
| "log_message (LcCircuit addr st) =
     (LevelWarn, cMagenta @ sym [0xE2, 0x9A, 0xA1] @ '' CIRCUIT'' @ cReset @ '' addr='' @ pad 24 addr @
        '' state='' @ st)"
| "log_message (LcRateLimit ip limit) =
     (LevelWarn, cYellow @ sym [0xE2, 0x8A, 0x98] @ '' RATELIM'' @ cReset @ '' ip='' @ pad 22 ip @
        '' limit='' @ dec_int limit @ ''/s'')"
| "log_message (LcStats s) =
     (LevelInfo, cBlue @ sym [0xF0, 0x9F, 0x93, 0x8A] @ '' STATS'' @ cReset @ ''   '' @ s)"
| "log_message (LcStartup key val) =
     (LevelInfo, (cWhite @ sym [0xE2, 0x9A, 0x99] @ cReset) @ ''  '' @ pad 22 key @ '' '' @ cCyan @ val @ cReset)"
| "log_message (LcSection title) =
     (LevelInfo, cGray @ [] @ sym [0xE2, 0x94, 0x80, 0xE2, 0x94, 0x80, 0xE2, 0x94, 0x80] @ '' '' @ title @ '' '' @
        [] @ sym [0xE2, 0x94, 0x80, 0xE2, 0x94, 0x80, 0xE2, 0x94, 0x80] @ cReset)"

section \<open>The channel\<close>

text \<open>
  \<open>lc_current\<close> is the line the writing goroutine holds and the number of writers it has been written
  to; \<open>lc_outs\<close> is what each writer was given. The steps of the goroutine interleave with the calls
  of \<^verbatim>\<open>emit\<close>.
\<close>

record log_chan =
  lc_queue :: "string list"
  lc_closed :: bool
  lc_current :: "(string \<times> nat) option"
  lc_outs :: "string list list"
  lc_done :: bool

definition log_capacity :: nat where "log_capacity = 4096"

definition new_log_chan :: "nat \<Rightarrow> log_chan" where
  "new_log_chan writers = \<lparr>lc_queue = [], lc_closed = False, lc_current = None,
                           lc_outs = replicate writers [], lc_done = False\<rparr>"

text \<open>\<^verbatim>\<open>New\<close>; \<open>opened\<close> is the error of opening the file, if any. The standard output is always a
  writer.\<close>

definition Log_New :: "Level \<Rightarrow> string \<Rightarrow> go_error option \<Rightarrow> go_error + logger \<times> log_chan" where
  "Log_New level filePath opened =
     (if filePath \<noteq> []
      then (case opened of
              Some err \<Rightarrow> Inl (wrap_error (''log: open '' @ [CHR 0x22] @ filePath @ [CHR 0x22]) err)
            | None \<Rightarrow> Inr (new_logger level, new_log_chan 2))
      else Inr (new_logger level, new_log_chan 1))"

datatype log_fate = Filtered | Sent string | Dropped string

text \<open>\<open>None\<close> is the panic of a send on a closed channel, which a \<^verbatim>\<open>select\<close> with a default does not
  avoid.\<close>

definition emit :: "logger \<Rightarrow> Level \<Rightarrow> string \<Rightarrow> string \<Rightarrow> log_chan \<Rightarrow> (log_fate \<times> log_chan) option" where
  "emit l level ts msg c =
     (if level < lg_level l then Some (Filtered, c)
      else let line = format_line l level ts msg
        in if lc_closed c then None
           else if length (lc_queue c) < log_capacity
             then Some (Sent line, c\<lparr>lc_queue := lc_queue c @ [line]\<rparr>)
           else Some (Dropped line, c))"

text \<open>One step of \<^verbatim>\<open>writeLoop\<close>; \<open>None\<close> when it waits or has returned.\<close>

definition write_step :: "log_chan \<Rightarrow> log_chan option" where
  "write_step c =
     (case lc_current c of
        Some (line, i) \<Rightarrow>
          if i < length (lc_outs c)
          then Some (c\<lparr>lc_outs := (lc_outs c)[i := lc_outs c ! i @ [line]], lc_current := Some (line, Suc i)\<rparr>)
          else Some (c\<lparr>lc_current := None\<rparr>)
      | None \<Rightarrow>
          (case lc_queue c of
             line # rest \<Rightarrow> Some (c\<lparr>lc_queue := rest, lc_current := Some (line, 0)\<rparr>)
           | [] \<Rightarrow> if lc_closed c \<and> \<not> lc_done c then Some (c\<lparr>lc_done := True\<rparr>) else None))"

text \<open>\<^verbatim>\<open>Close\<close>, up to the receive from \<^verbatim>\<open>done\<close>; \<^verbatim>\<open>sync.Once\<close> makes a second call do
  nothing here.\<close>

definition log_Close :: "log_chan \<Rightarrow> log_chan" where
  "log_Close c = c\<lparr>lc_closed := True\<rparr>"

inductive log_step :: "log_chan \<Rightarrow> log_fate option \<Rightarrow> log_chan \<Rightarrow> bool" where
  step_emit: "emit l level ts msg c = Some (fate, c') \<Longrightarrow> log_step c (Some fate) c'"
| step_write: "write_step c = Some c' \<Longrightarrow> log_step c None c'"
| step_close: "log_step c None (log_Close c)"

inductive log_run :: "log_chan \<Rightarrow> log_fate option list \<Rightarrow> log_chan \<Rightarrow> bool" where
  run_start: "log_run c [] c"
| run_step: "log_run c es d \<Longrightarrow> log_step d e d' \<Longrightarrow> log_run c (es @ [e]) d'"

fun sent_lines :: "log_fate option list \<Rightarrow> string list" where
  "sent_lines [] = []"
| "sent_lines (Some (Sent line) # es) = line # sent_lines es"
| "sent_lines (_ # es) = sent_lines es"

lemma sent_lines_append [simp]: "sent_lines (xs @ ys) = sent_lines xs @ sent_lines ys"
  by (induction xs rule: sent_lines.induct) simp_all

text \<open>The goroutine runs until it returns or waits, at most \<open>fuel\<close> steps.\<close>

fun drain :: "nat \<Rightarrow> log_chan \<Rightarrow> log_chan" where
  "drain 0 c = c"
| "drain (Suc fuel) c = (case write_step c of None \<Rightarrow> c | Some c' \<Rightarrow> drain fuel c')"

section \<open>No line is lost or reordered once it is in the channel\<close>

text \<open>What writer \<open>i\<close> has still to be given: the line in hand, if its turn has not come, and the
  queue.\<close>

definition pending :: "nat \<Rightarrow> log_chan \<Rightarrow> string list" where
  "pending i c =
     (case lc_current c of Some (line, k) \<Rightarrow> (if k \<le> i then [line] else []) | None \<Rightarrow> []) @ lc_queue c"

definition log_inv :: "nat \<Rightarrow> string list \<Rightarrow> log_chan \<Rightarrow> bool" where
  "log_inv n sent c \<longleftrightarrow>
     length (lc_outs c) = n \<and> length (lc_queue c) \<le> log_capacity \<and>
     (\<forall>i<n. lc_outs c ! i @ pending i c = sent) \<and>
     (lc_done c \<longrightarrow> lc_closed c \<and> lc_queue c = [] \<and> lc_current c = None)"

lemma log_inv_new: "log_inv n [] (new_log_chan n)"
  by (simp add: log_inv_def new_log_chan_def pending_def)

lemma log_inv_emit:
  assumes "emit l level ts msg c = Some (fate, c')" "log_inv n sent c"
  shows "log_inv n (sent @ sent_lines [Some fate]) c'"
  using assms
  by (auto simp: emit_def log_inv_def pending_def Let_def split: if_splits)

lemma log_inv_write:
  assumes "write_step c = Some c'" "log_inv n sent c"
  shows "log_inv n sent c'"
proof (cases "lc_current c")
  case None
  with assms show ?thesis
    by (auto simp: write_step_def log_inv_def pending_def split: list.splits if_splits)
next
  case (Some p)
  obtain line k where p: "p = (line, k)" by (cases p)
  have pend: "lc_outs c ! i @ (if k \<le> i then [line] else []) @ lc_queue c = sent" if "i < n" for i
    using assms(2) that Some p by (auto simp: log_inv_def pending_def)
  show ?thesis
  proof (cases "k < n")
    case True
    have n: "n = length (lc_outs c)" using assms(2) by (simp add: log_inv_def)
    have "(lc_outs c)[k := lc_outs c ! k @ [line]] ! i @ (if Suc k \<le> i then [line] else []) @ lc_queue c = sent"
      if "i < n" for i
      using pend [OF that] that n by (cases "k = i") (auto simp: nth_list_update split: if_splits)
    with True assms Some p show ?thesis
      by (simp add: write_step_def log_inv_def pending_def) auto
  next
    case False
    have "lc_outs c ! i @ lc_queue c = sent" if "i < n" for i using pend [OF that] False that by simp
    with False assms Some p show ?thesis by (auto simp: write_step_def log_inv_def pending_def)
  qed
qed

lemma log_inv_close: "log_inv n sent c \<Longrightarrow> log_inv n sent (log_Close c)"
  by (simp add: log_inv_def log_Close_def pending_def)

lemma log_inv_step:
  assumes "log_step c e c'" "log_inv n sent c"
  shows "log_inv n (sent @ sent_lines [e]) c'"
  using assms by cases (simp_all add: log_inv_emit log_inv_write log_inv_close)

lemma log_inv_run:
  assumes "log_run (new_log_chan n) es c"
  shows "log_inv n (sent_lines es) c"
  using assms
proof (induction "new_log_chan n" es c rule: log_run.induct)
  case run_start
  then show ?case by (simp add: log_inv_new)
next
  case (run_step es d e d')
  then show ?case using log_inv_step [of d e d' n "sent_lines es"] by simp
qed

text \<open>The steps the goroutine still has to make.\<close>

definition log_work :: "nat \<Rightarrow> log_chan \<Rightarrow> nat" where
  "log_work n c =
     (n + 2) * length (lc_queue c) +
     (case lc_current c of Some (_, k) \<Rightarrow> n - k + 1 | None \<Rightarrow> 0) + (if lc_done c then 0 else 1)"

lemma log_work_write:
  assumes "write_step c = Some c'" "log_inv n sent c"
  shows "Suc (log_work n c') \<le> log_work n c \<and> lc_closed c' = lc_closed c"
  using assms
  by (auto simp: write_step_def log_inv_def log_work_def
      split: option.splits list.splits if_splits prod.splits)

lemma write_step_None:
  "write_step c = None \<longleftrightarrow> lc_current c = None \<and> lc_queue c = [] \<and> (lc_closed c \<longrightarrow> lc_done c)"
  by (auto simp: write_step_def split: option.splits list.splits if_splits prod.splits)

lemma drain_done:
  assumes "log_inv n sent c" "lc_closed c" "log_work n c \<le> fuel"
  shows "lc_done (drain fuel c) \<and> (\<forall>i<n. lc_outs (drain fuel c) ! i = sent)"
  using assms
proof (induction fuel arbitrary: c)
  case 0
  then have "lc_done c" by (auto simp: log_work_def split: if_splits)
  with 0 show ?case by (auto simp: log_inv_def pending_def)
next
  case (Suc fuel)
  show ?case
  proof (cases "write_step c")
    case None
    then have "drain (Suc fuel) c = c" by simp
    with None Suc.prems show ?thesis
      unfolding write_step_None log_inv_def pending_def by simp
  next
    case (Some c')
    with Suc.prems Suc.IH [of c'] log_work_write [OF Some Suc.prems(1)] log_inv_write [OF Some Suc.prems(1)]
    show ?thesis by auto
  qed
qed

text \<open>C23. The logger loses no line it accepted. However the calls of \<^verbatim>\<open>emit\<close>, the steps of the
  writing goroutine and \<^verbatim>\<open>Close\<close> interleave, the queue holds at most 4096 lines and each writer has
  been given a prefix of the lines that were sent, in the order they were sent; and once \<^verbatim>\<open>Close\<close>
  has closed the channel, the goroutine, left to run, returns after finitely many steps and by then
  has given every writer exactly the lines sent.\<close>

theorem logger_flushes:
  assumes "log_run (new_log_chan n) es c"
  shows "length (lc_queue c) \<le> 4096 \<and>
         (\<forall>i<n. \<exists>rest. sent_lines es = lc_outs c ! i @ rest) \<and>
         (lc_closed c \<longrightarrow>
            (let d = drain ((n + 2) * (length (lc_queue c) + 1)) c
             in lc_done d \<and> (\<forall>i<n. lc_outs d ! i = sent_lines es)))"
proof -
  have inv: "log_inv n (sent_lines es) c" by (rule log_inv_run [OF assms])
  have work: "log_work n c \<le> (n + 2) * (length (lc_queue c) + 1)"
    by (auto simp: log_work_def split: option.splits)
  have "lc_closed c \<Longrightarrow> lc_done (drain ((n + 2) * (length (lc_queue c) + 1)) c) \<and>
      (\<forall>i<n. lc_outs (drain ((n + 2) * (length (lc_queue c) + 1)) c) ! i = sent_lines es)"
    using drain_done [OF inv _ work] by blast
  moreover have "\<forall>i<n. \<exists>rest. sent_lines es = lc_outs c ! i @ rest"
    using inv by (metis log_inv_def)
  ultimately show ?thesis using inv by (simp add: Let_def log_inv_def log_capacity_def)
qed

text \<open>One line below the level, one sent, then \<^verbatim>\<open>Close\<close>.\<close>

definition demo_logger :: logger where "demo_logger = SetNoColor True (new_logger LevelInfo)"

definition demo_line :: string where "demo_line = format_line demo_logger LevelInfo ''t'' ''up''"

definition demo_chan :: log_chan where
  "demo_chan = \<lparr>lc_queue = [demo_line], lc_closed = True, lc_current = None, lc_outs = [[], []],
                lc_done = False\<rparr>"

lemma demo_log_run: "log_run (new_log_chan 2) [Some Filtered, Some (Sent demo_line), None] demo_chan"
proof -
  let ?c = "(new_log_chan 2)\<lparr>lc_queue := [demo_line]\<rparr>"
  have "log_step (new_log_chan 2) (Some Filtered) (new_log_chan 2)"
    by (rule step_emit [of demo_logger LevelDebug "''t''" "''quiet''"])
      (simp add: emit_def less_Level_def demo_logger_def SetLevel_def SetNoColor_def new_logger_def)
  then have "log_run (new_log_chan 2) [Some Filtered] (new_log_chan 2)"
    using run_step [OF run_start] by simp
  moreover have "log_step (new_log_chan 2) (Some (Sent demo_line)) ?c"
    by (rule step_emit [of demo_logger LevelInfo "''t''" "''up''"])
      (simp add: emit_def less_Level_def demo_logger_def SetNoColor_def new_logger_def new_log_chan_def
        log_capacity_def demo_line_def Let_def)
  ultimately have "log_run (new_log_chan 2) [Some Filtered, Some (Sent demo_line)] ?c"
    using run_step by fastforce
  then have "log_run (new_log_chan 2) ([Some Filtered, Some (Sent demo_line)] @ [None]) (log_Close ?c)"
    by (rule run_step) (rule step_close)
  moreover have "log_Close ?c = demo_chan"
    by (simp add: log_Close_def demo_chan_def new_log_chan_def numeral_2_eq_2)
  ultimately show ?thesis by simp
qed

lemma logger_flushes_witness:
  "lc_outs (drain 8 demo_chan) = [[demo_line], [demo_line]] \<and> lc_done (drain 8 demo_chan)"
proof -
  have "lc_done (drain 8 demo_chan) \<and> (\<forall>i<2. lc_outs (drain 8 demo_chan) ! i = [demo_line])"
    using logger_flushes [OF demo_log_run] by (simp add: demo_chan_def Let_def)
  moreover have "lc_outs (drain 8 demo_chan) = [[demo_line], [demo_line]]"
    by (simp add: demo_chan_def write_step_def numeral_eq_Suc)
  ultimately show ?thesis by simp
qed

end
