(* ===== verification/TcpInfo.thy ===== *)
theory TcpInfo
  imports NetAddr Text
begin

text \<open>
  The sequence numbers the handler injects with, \<^verbatim>\<open>internal/proxy/tcpinfo_linux.go\<close>: the search
  in \<^verbatim>\<open>/proc/net/tcp\<close>, whose content is an argument, and the fallback hash. Texts are ASCII and
  addresses have no zone.
\<close>

record TCPAddr =
  ta_IP :: bytes
  ta_Port :: nat

text \<open>What \<^verbatim>\<open>LocalAddr\<close> answers: a TCP address, or another kind with its text.\<close>

datatype conn_addr = TCP TCPAddr | OtherAddr string

definition TCPAddr_String :: "TCPAddr \<Rightarrow> string" where
  "TCPAddr_String a =
     (let host = (if ta_IP a = [] then [] else IP_String (ta_IP a))
      in if CHR '':'' \<in> set host then ''['' @ host @ '']:'' @ dec (ta_Port a)
         else host @ '':'' @ dec (ta_Port a))"

fun conn_addr_String :: "conn_addr \<Rightarrow> string" where
  "conn_addr_String (TCP a) = TCPAddr_String a"
| "conn_addr_String (OtherAddr s) = s"

definition addrHex :: "TCPAddr \<Rightarrow> string" where
  "addrHex a =
     (case To4 (ta_IP a) of
        None \<Rightarrow> []
      | Some ip4 \<Rightarrow>
          hex_pad 2 (unat (ip4 ! 3)) @ hex_pad 2 (unat (ip4 ! 2)) @ hex_pad 2 (unat (ip4 ! 1)) @
          hex_pad 2 (unat (ip4 ! 0)) @ '':'' @ hex_pad 4 (ta_Port a))"

definition parseQ :: "string \<Rightarrow> uint32 \<times> uint32" where
  "parseQ s =
     (case split_first (CHR '':'') s of
        None \<Rightarrow> (0, 0)
      | Some (p0, p1) \<Rightarrow> (Sscanf_X p0 0, Sscanf_X p1 0))"

fun proc_lines :: "string \<Rightarrow> string \<Rightarrow> string list \<Rightarrow> go_error + uint32 \<times> uint32" where
  "proc_lines lh rh [] = Inl [''proc/net/tcp: not found ('' @ lh @ ''->'' @ rh @ '')'']"
| "proc_lines lh rh (line # lines) =
     (let f = go_Fields line
      in if length f < 5 then proc_lines lh rh lines
         else if f ! 1 = lh \<and> f ! 2 = rh then Inr (parseQ (f ! 4))
         else proc_lines lh rh lines)"

definition procNetTCP :: "go_error + string \<Rightarrow> TCPAddr \<Rightarrow> TCPAddr \<Rightarrow> go_error + uint32 \<times> uint32" where
  "procNetTCP file localAddr remote =
     (case file of
        Inl e \<Rightarrow> Inl (wrap_error ''proc/net/tcp'' e)
      | Inr data \<Rightarrow>
          (let lh = addrHex localAddr; rh = addrHex remote
           in proc_lines lh rh (tl (go_Split (CHR 0x0A) data))))"

text \<open>32-bit FNV-1a of the two addresses.\<close>

definition fnv_step :: "uint32 \<Rightarrow> char \<Rightarrow> uint32" where
  "fnv_step h c = xor h (of_char c) * 16777619"

definition pseudoISN :: "conn_addr \<Rightarrow> conn_addr \<Rightarrow> uint32" where
  "pseudoISN localAddr remote =
     foldl fnv_step 2166136261 (conn_addr_String localAddr @ conn_addr_String remote)"

definition getTCPSeqNums ::
  "go_error + string \<Rightarrow> int \<Rightarrow> conn_addr \<Rightarrow> conn_addr \<Rightarrow>
   uint32 \<times> uint32 \<times> int \<times> go_error option" where
  "getTCPSeqNums file synTime la ra =
     (case (la, ra) of
        (TCP localAddr, TCP remote) \<Rightarrow>
          (case procNetTCP file localAddr remote of
             Inl readErr \<Rightarrow> (pseudoISN la ra, 0, synTime, Some readErr)
           | Inr (tx, rx) \<Rightarrow> (tx, rx, synTime, None))
      | _ \<Rightarrow> (pseudoISN la ra, 0, synTime, Some [''not a TCPConn'']))"

text \<open>\<^verbatim>\<open>tcpinfo_other.go\<close>, on other systems.\<close>

definition Other_getTCPSeqNums ::
  "int \<Rightarrow> conn_addr \<Rightarrow> conn_addr \<Rightarrow> uint32 \<times> uint32 \<times> int \<times> go_error option" where
  "Other_getTCPSeqNums synTime la ra =
     (pseudoISN la ra, 0, synTime, Some [''raw socket bypass not supported on this platform''])"

section \<open>The table the kernel shows\<close>

text \<open>
  A line of \<^verbatim>\<open>/proc/net/tcp\<close> as Linux documents it: slot, local and remote address (IPv4, the
  word in the order of a little-endian machine), state, transmit and receive queue in bytes, and columns the
  code does not read.
\<close>

record tcp_sock =
  ts_slot :: nat
  ts_local :: TCPAddr
  ts_remote :: TCPAddr
  ts_state :: nat
  ts_tx_queue :: uint32
  ts_rx_queue :: uint32
  ts_rest :: string

definition kernel_addr :: "TCPAddr \<Rightarrow> string" where
  "kernel_addr a =
     hex_pad 2 (unat (ta_IP a ! 3)) @ hex_pad 2 (unat (ta_IP a ! 2)) @ hex_pad 2 (unat (ta_IP a ! 1)) @
     hex_pad 2 (unat (ta_IP a ! 0)) @ '':'' @ hex_pad 4 (ta_Port a)"

definition tcp_line :: "tcp_sock \<Rightarrow> string" where
  "tcp_line s =
     replicate (4 - length (dec (ts_slot s))) (CHR '' '') @ dec (ts_slot s) @ '': '' @
     kernel_addr (ts_local s) @ '' '' @ kernel_addr (ts_remote s) @ '' '' @ hex_pad 2 (ts_state s) @ '' '' @
     hex_pad 8 (unat (ts_tx_queue s)) @ '':'' @ hex_pad 8 (unat (ts_rx_queue s)) @ '' '' @ ts_rest s"

fun tcp_lines :: "tcp_sock list \<Rightarrow> string" where
  "tcp_lines [] = []"
| "tcp_lines (s # socks) = tcp_line s @ CHR 0x0A # tcp_lines socks"

definition tcp_table :: "string \<Rightarrow> tcp_sock list \<Rightarrow> string" where
  "tcp_table header socks = header @ CHR 0x0A # tcp_lines socks"

definition table_ok :: "string \<Rightarrow> tcp_sock list \<Rightarrow> bool" where
  "table_ok header socks \<longleftrightarrow>
     CHR 0x0A \<notin> set header \<and>
     list_all (\<lambda>s. CHR 0x0A \<notin> set (ts_rest s) \<and> length (ta_IP (ts_local s)) = 4 \<and>
                    length (ta_IP (ts_remote s)) = 4) socks"

text \<open>The socket with these two addresses.\<close>

definition same_addr :: "TCPAddr \<Rightarrow> TCPAddr \<Rightarrow> bool" where
  "same_addr a k \<longleftrightarrow> To4 (ta_IP a) = Some (ta_IP k) \<and> ta_Port a = ta_Port k"

section \<open>Reading it\<close>

lemma dec_no_space [simp]: "no_space (dec n)"
  using dec_digits [of _ n] by (force simp: no_space_def list_all_iff is_space_def)

lemma dec_no_newline [simp]: "CHR 0x0A \<notin> set (dec n)"
  using dec_digits [of "CHR 0x0A" n] by auto

lemma kernel_addr_text [simp]:
  "no_space (kernel_addr a)" "CHR 0x0A \<notin> set (kernel_addr a)" "kernel_addr a \<noteq> []"
  by (simp_all add: kernel_addr_def is_space_def)

lemma hex2_eq:
  "hex_pad 2 (unat (a :: byte)) @ xs = hex_pad 2 (unat (b :: byte)) @ ys \<longleftrightarrow> a = b \<and> xs = ys"
proof -
  have "length (hex_pad 2 (unat c)) = 2" for c :: byte
    using unsigned_less [of c, where ?'a = nat] by (intro length_hex_pad) simp_all
  then show ?thesis by (simp add: append_eq_append_conv hex_pad_inj word_unat_eq_iff)
qed

lemma addrHex_kernel:
  assumes "length (ta_IP k) = 4"
  shows "addrHex a = kernel_addr k \<longleftrightarrow> same_addr a k"
proof (cases "To4 (ta_IP a)")
  case None
  then show ?thesis
    using kernel_addr_text(3) [of k] by (simp add: addrHex_def same_addr_def eq_commute [of "[]"])
next
  case (Some ip4)
  obtain b0 b1 b2 b3 where b: "ip4 = [b0, b1, b2, b3]" by (rule list4_cases [OF To4_length [OF Some]])
  obtain k0 k1 k2 k3 where k: "ta_IP k = [k0, k1, k2, k3]" by (rule list4_cases [OF assms])
  show ?thesis
    by (auto simp: addrHex_def kernel_addr_def same_addr_def Some b k hex2_eq hex_pad_inj)
qed

lemma tcp_line_fields:
  "\<exists>more. go_Fields (tcp_line s) =
     [dec (ts_slot s) @ '':'', kernel_addr (ts_local s), kernel_addr (ts_remote s), hex_pad 2 (ts_state s),
      hex_pad 8 (unat (ts_tx_queue s)) @ '':'' @ hex_pad 8 (unat (ts_rx_queue s))] @ more"
proof -
  have sp: "is_space (CHR '' '')" and colon: "\<not> is_space (CHR '':'')" by (simp_all add: is_space_def)
  show ?thesis
    by (simp add: go_Fields_def tcp_line_def sp colon)
qed

lemma parseQ_line [simp]:
  "parseQ (hex_pad 8 (unat tx) @ CHR '':'' # hex_pad 8 (unat rx)) = (tx, rx)"
  by (simp add: parseQ_def Sscanf_X_hex_pad)

lemma proc_lines_table:
  assumes "list_all (\<lambda>s. CHR 0x0A \<notin> set (ts_rest s) \<and> length (ta_IP (ts_local s)) = 4 \<and>
      length (ta_IP (ts_remote s)) = 4) socks"
  shows "proc_lines (addrHex la) (addrHex ra) (go_Split (CHR 0x0A) (tcp_lines socks)) =
    (case find (\<lambda>s. same_addr la (ts_local s) \<and> same_addr ra (ts_remote s)) socks of
       Some s \<Rightarrow> Inr (ts_tx_queue s, ts_rx_queue s)
     | None \<Rightarrow> Inl [''proc/net/tcp: not found ('' @ addrHex la @ ''->'' @ addrHex ra @ '')''])"
  using assms
proof (induction socks)
  case Nil
  then show ?case by (simp add: go_Fields_def)
next
  case (Cons s socks)
  have nl: "CHR 0x0A \<notin> set (tcp_line s)" using Cons.prems by (simp add: tcp_line_def)
  obtain more where f: "go_Fields (tcp_line s) =
     [dec (ts_slot s) @ '':'', kernel_addr (ts_local s), kernel_addr (ts_remote s), hex_pad 2 (ts_state s),
      hex_pad 8 (unat (ts_tx_queue s)) @ '':'' @ hex_pad 8 (unat (ts_rx_queue s))] @ more"
    using tcp_line_fields by blast
  from Cons show ?case
    by (simp add: nl f Let_def addrHex_kernel eq_commute [of "kernel_addr _"])
qed

text \<open>What the handler takes for sequence numbers. When \<^verbatim>\<open>/proc/net/tcp\<close> is a table as the
  kernel writes it, \<^verbatim>\<open>getTCPSeqNums\<close> on a TCP connection answers, without an error, the sizes of the
  transmit and receive queue of the first socket with its two addresses; without such a socket it
  answers an error with the hash of the addresses and 0. An IPv6 connection is never found.\<close>

theorem getTCPSeqNums_queues:
  assumes "table_ok header socks"
  shows "getTCPSeqNums (Inr (tcp_table header socks)) synTime (TCP la) (TCP ra) =
    (case find (\<lambda>s. same_addr la (ts_local s) \<and> same_addr ra (ts_remote s)) socks of
       Some s \<Rightarrow> (ts_tx_queue s, ts_rx_queue s, synTime, None)
     | None \<Rightarrow> (pseudoISN (TCP la) (TCP ra), 0, synTime,
         Some [''proc/net/tcp: not found ('' @ addrHex la @ ''->'' @ addrHex ra @ '')'']))"
  using assms proc_lines_table [of socks la ra]
  by (simp add: getTCPSeqNums_def procNetTCP_def tcp_table_def table_ok_def Let_def split: option.splits)

definition sample_local :: TCPAddr where "sample_local = \<lparr>ta_IP = [10, 0, 0, 2], ta_Port = 50000\<rparr>"

definition sample_remote :: TCPAddr where "sample_remote = \<lparr>ta_IP = [1, 2, 3, 4], ta_Port = 443\<rparr>"

definition sample_sock :: tcp_sock where
  "sample_sock =
     \<lparr>ts_slot = 0, ts_local = sample_local, ts_remote = sample_remote, ts_state = 1,
      ts_tx_queue = 0, ts_rx_queue = 0, ts_rest = ''00:00000000''\<rparr>"

theorem getTCPSeqNums_queues_witness:
  "getTCPSeqNums (Inr (tcp_table ''sl'' [sample_sock])) 7 (TCP sample_local) (TCP sample_remote) =
     (0, 0, 7, None)"
  using getTCPSeqNums_queues [of "''sl''" "[sample_sock]" 7 sample_local sample_remote]
  by (simp add: table_ok_def sample_sock_def sample_local_def sample_remote_def same_addr_def To4_def)

end
