(* ===== verification/Injection.thy ===== *)
theory Injection
  imports Handler TcpInfo
begin

text \<open>
  From the kernel's table to the wire: \<^verbatim>\<open>Handle\<close> of \<^verbatim>\<open>internal/proxy/handler.go\<close> gives what
  \<^verbatim>\<open>getTCPSeqNums\<close> answers to the adaptive bypass, which injects a fake ClientHello.
\<close>

definition conn_local :: "server_conn \<Rightarrow> TCPAddr" where
  "conn_local conn = \<lparr>ta_IP = sv_local_ip conn, ta_Port = unat (sv_local_port conn)\<rparr>"

definition conn_remote :: "server_conn \<Rightarrow> TCPAddr" where
  "conn_remote conn = \<lparr>ta_IP = sv_remote_ip conn, ta_Port = unat (sv_remote_port conn)\<rparr>"

text \<open>The handler logs the error and goes on with the numbers.\<close>

definition handler_seq :: "go_error + string \<Rightarrow> int \<Rightarrow> server_conn \<Rightarrow> uint32 \<times> uint32 \<times> int" where
  "handler_seq file now conn =
     (case getTCPSeqNums file now (TCP (conn_local conn)) (TCP (conn_remote conn)) of
        (synSeq, synAckSeq, synTime, seqErr) \<Rightarrow> (synSeq, synAckSeq, synTime))"

definition inject_params :: "Config \<Rightarrow> go_error + string \<Rightarrow> int \<Rightarrow> server_conn \<Rightarrow> string \<Rightarrow> AdaptiveParams" where
  "inject_params cfg file now conn fakeSNI = handle_params cfg conn (handler_seq file now conn) fakeSNI"

lemma To4_go_To4: "To4 (go_To4 ip) = To4 ip"
  by (auto simp: go_To4_def To4_def split: option.splits)

lemma adaptive_run_WrongSeq:
  assumes "adaptive_run env StrategyWrongSeq p a = (None, a')"
  shows "WrongSeq_Inject (re_inject env) (wrongseq_params p) (ad_wrongSeq a) = (None, ad_wrongSeq a')"
  using assms by (auto simp: adaptive_run_def split: sum.splits prod.splits)

lemma handler_seq_table:
  assumes "table_ok header socks"
    and "find (\<lambda>s. same_addr (conn_local conn) (ts_local s) \<and> same_addr (conn_remote conn) (ts_remote s)) socks =
      Some s"
  shows "fst (handler_seq (Inr (tcp_table header socks)) now conn) = ts_tx_queue s"
  using assms proc_lines_table [of socks "conn_local conn" "conn_remote conn"]
  by (simp add: handler_seq_def getTCPSeqNums_def procNetTCP_def tcp_table_def table_ok_def Let_def)

text \<open>C11. What is injected into a live connection. When the table of the kernel lists the connection and
  the handler's wrong-sequence injection succeeds, exactly one packet goes out: a valid TCP segment
  between the connection's own addresses and ports, with a ClientHello that a filter reads as the fake
  name; but its sequence numbers end at the size of the kernel's transmit queue plus one, whatever
  the sequence numbers of the connection are.\<close>

theorem injected_hello_by_queue_size:
  assumes "table_ok header socks"
    and "find (\<lambda>s. same_addr (conn_local conn) (ts_local s) \<and> same_addr (conn_remote conn) (ts_remote s)) socks =
      Some s"
    and "adaptive_run env StrategyWrongSeq
      (inject_params cfg (Inr (tcp_table header socks)) now conn sni) a = (None, a')"
    and "sni \<noteq> []" and "length sni \<le> 15000"
  shows "\<exists>pkt. wire (ad_wrongSeq a') = wire (ad_wrongSeq a) @ [pkt] \<and> tcp_checksum_ok pkt \<and>
    (let q = decode_packet pkt in
       ExtractSNI (pk_Payload q) = Some (sni, True) \<and>
       pk_SeqNum q + word_of_nat (length (pk_Payload q)) = ts_tx_queue s + 1 \<and>
       pk_SrcPort q = sv_local_port conn \<and> pk_DstPort q = sv_remote_port conn \<and>
       Some (pk_SrcIP q) = To4 (sv_local_ip conn) \<and> Some (pk_DstIP q) = To4 (sv_remote_ip conn))"
proof -
  let ?p = "wrongseq_params (inject_params cfg (Inr (tcp_table header socks)) now conn sni)"
  have p: "wp_FakeSNI ?p = sni" "wp_SynSeq ?p = ts_tx_queue s" "wp_SrcPort ?p = sv_local_port conn"
    "wp_DstPort ?p = sv_remote_port conn" "To4 (wp_SrcIP ?p) = To4 (sv_local_ip conn)"
    "To4 (wp_DstIP ?p) = To4 (sv_remote_ip conn)"
    using handler_seq_table [OF assms(1,2), of now]
    by (auto simp: wrongseq_params_def inject_params_def handle_params_def To4_go_To4 split: prod.splits)
  from WrongSeq_Inject_sent [OF adaptive_run_WrongSeq [OF assms(3)], unfolded p, OF assms(4,5)]
  show ?thesis by (auto simp: Let_def)
qed

text \<open>A fresh connection: both queues are empty.\<close>

definition fresh_sock :: tcp_sock where
  "fresh_sock =
     \<lparr>ts_slot = 0, ts_local = conn_local sample_conn, ts_remote = conn_remote sample_conn, ts_state = 1,
      ts_tx_queue = 0, ts_rx_queue = 0, ts_rest = ''00:00000000''\<rparr>"

lemma fresh_injection:
  "\<exists>a'. adaptive_run (ae_run1 sample_adaptive_env) StrategyWrongSeq
     (inject_params Default (Inr (tcp_table ''sl'' [fresh_sock])) 0 sample_conn ''hcaptcha.com'')
     (newAdaptiveBypass None) = (None, a')"
proof -
  let ?p = "inject_params Default (Inr (tcp_table ''sl'' [fresh_sock])) 0 sample_conn ''hcaptcha.com''"
  obtain hello where hello: "Build (NewBuilder (ap_Profile ?p) 0) (ap_FakeSNI ?p) zero_entropy = Inr hello"
    using Build_zero_entropy by blast
  have "ap_SrcIP ?p = [10, 0, 0, 1]" "ap_DstIP ?p = [1, 2, 3, 4]"
    by (simp_all add: inject_params_def handle_params_def go_To4_def To4_def sample_conn_def split: prod.splits)
  with hello show ?thesis
    by (simp add: adaptive_run_def sample_adaptive_env_def Let_def WrongSeq_Inject_def wrongseq_params_def
        sample_env_def CraftPacket_def wrongseq_packet_def To4_def Send_def)
qed

theorem injected_hello_by_queue_size_witness:
  "\<exists>(a' :: lruCache adaptive) pkt. wire (ad_wrongSeq a') = [pkt] \<and>
     pk_SeqNum (decode_packet pkt) + word_of_nat (length (pk_Payload (decode_packet pkt))) = 1"
proof -
  obtain a' where run: "adaptive_run (ae_run1 sample_adaptive_env) StrategyWrongSeq
     (inject_params Default (Inr (tcp_table ''sl'' [fresh_sock])) 0 sample_conn ''hcaptcha.com'')
     (newAdaptiveBypass None) = (None, a')" using fresh_injection by blast
  have ok: "table_ok ''sl'' [fresh_sock]"
    by (simp add: table_ok_def fresh_sock_def conn_local_def conn_remote_def sample_conn_def)
  have found: "find (\<lambda>s. same_addr (conn_local sample_conn) (ts_local s) \<and>
      same_addr (conn_remote sample_conn) (ts_remote s)) [fresh_sock] = Some fresh_sock"
    by (simp add: fresh_sock_def same_addr_def To4_def conn_local_def conn_remote_def sample_conn_def)
  have none: "wire (ad_wrongSeq (newAdaptiveBypass None)) = []" "ts_tx_queue fresh_sock + 1 = 1"
    by (simp_all add: newAdaptiveBypass_def new_bypass_def fresh_sock_def)
  obtain pkt where "wire (ad_wrongSeq a') = [] @ [pkt]"
      "pk_SeqNum (decode_packet pkt) + word_of_nat (length (pk_Payload (decode_packet pkt))) = 1"
    using injected_hello_by_queue_size [OF ok found run, unfolded none Let_def] by auto
  then show ?thesis by (intro exI [of _ a'] exI [of _ pkt]) simp
qed

end
