(* ===== verification/Tuner.thy ===== *)
theory Tuner
  imports Text NetAddr
begin

text \<open>
  The kernel settings of \<^verbatim>\<open>internal/tuner/tuner.go\<close>. The system is a state \<open>'w\<close> with three
  operations, arguments of the model: reading a file, running a command (its combined output and
  whether it succeeded) and replacing a file.
\<close>

record Setting =
  st_Key :: string
  st_Value :: string
  st_Note :: string

definition settings :: "Setting list" where
  "settings =
     [\<lparr>st_Key = ''fs.file-max'', st_Value = ''2097152'',
       st_Note = ''max open file descriptors''\<rparr>,
      \<lparr>st_Key = ''fs.nr_open'', st_Value = ''2097152'',
       st_Note = ''max open files per process''\<rparr>,
      \<lparr>st_Key = ''net.core.somaxconn'', st_Value = ''65535'',
       st_Note = ''TCP accept backlog''\<rparr>,
      \<lparr>st_Key = ''net.ipv4.tcp_max_syn_backlog'', st_Value = ''65535'',
       st_Note = ''SYN queue depth''\<rparr>,
      \<lparr>st_Key = ''net.ipv4.ip_local_port_range'', st_Value = ''1024 65535'',
       st_Note = ''outbound port range''\<rparr>,
      \<lparr>st_Key = ''net.core.rmem_default'', st_Value = ''262144'',
       st_Note = ''default socket receive buffer''\<rparr>,
      \<lparr>st_Key = ''net.core.wmem_default'', st_Value = ''262144'',
       st_Note = ''default socket send buffer''\<rparr>,
      \<lparr>st_Key = ''net.core.rmem_max'', st_Value = ''134217728'',
       st_Note = ''max socket receive buffer (128MB)''\<rparr>,
      \<lparr>st_Key = ''net.core.wmem_max'', st_Value = ''134217728'',
       st_Note = ''max socket send buffer (128MB)''\<rparr>,
      \<lparr>st_Key = ''net.ipv4.tcp_rmem'', st_Value = ''4096 87380 134217728'',
       st_Note = ''TCP receive buffer min/default/max''\<rparr>,
      \<lparr>st_Key = ''net.ipv4.tcp_wmem'', st_Value = ''4096 65536 134217728'',
       st_Note = ''TCP send buffer min/default/max''\<rparr>,
      \<lparr>st_Key = ''net.ipv4.tcp_fastopen'', st_Value = ''3'',
       st_Note = ''TCP Fast Open (client+server)''\<rparr>,
      \<lparr>st_Key = ''net.ipv4.tcp_window_scaling'', st_Value = ''1'',
       st_Note = ''TCP window scaling''\<rparr>,
      \<lparr>st_Key = ''net.ipv4.tcp_tw_reuse'', st_Value = ''1'',
       st_Note = ''reuse TIME_WAIT sockets''\<rparr>,
      \<lparr>st_Key = ''net.ipv4.tcp_fin_timeout'', st_Value = ''15'',
       st_Note = ''FIN timeout in seconds''\<rparr>,
      \<lparr>st_Key = ''net.ipv4.tcp_max_tw_buckets'', st_Value = ''1440000'',
       st_Note = ''max TIME_WAIT sockets''\<rparr>,
      \<lparr>st_Key = ''net.ipv4.tcp_keepalive_time'', st_Value = ''60'',
       st_Note = ''keepalive idle time''\<rparr>,
      \<lparr>st_Key = ''net.ipv4.tcp_keepalive_intvl'', st_Value = ''10'',
       st_Note = ''keepalive probe interval''\<rparr>,
      \<lparr>st_Key = ''net.ipv4.tcp_keepalive_probes'', st_Value = ''6'',
       st_Note = ''keepalive probe count''\<rparr>,
      \<lparr>st_Key = ''net.core.netdev_max_backlog'', st_Value = ''65536'',
       st_Note = ''network device receive queue''\<rparr>,
      \<lparr>st_Key = ''net.ipv4.conf.all.rp_filter'', st_Value = ''0'',
       st_Note = ''allow injected packets (required)''\<rparr>,
      \<lparr>st_Key = ''net.ipv4.conf.default.rp_filter'', st_Value = ''0'',
       st_Note = ''allow injected packets (default)''\<rparr>,
      \<lparr>st_Key = ''vm.max_map_count'', st_Value = ''262144'',
       st_Note = ''virtual memory map count''\<rparr>]"

record tune_result =
  tr_Key :: string
  tr_Before :: string
  tr_After :: string
  tr_Changed :: bool
  tr_Error :: string

record 'w system =
  sys_read :: "'w \<Rightarrow> string \<Rightarrow> go_error + string"
  sys_exec :: "string list \<Rightarrow> 'w \<Rightarrow> (string \<times> bool) \<times> 'w"
  sys_write :: "string \<Rightarrow> string \<Rightarrow> 'w \<Rightarrow> go_error option \<times> 'w"

definition proc_sys_path :: "string \<Rightarrow> string" where
  "proc_sys_path key = ''/proc/sys/'' @ map (\<lambda>c. if c = CHR ''.'' then CHR ''/'' else c) key"

definition readSysctl :: "'w system \<Rightarrow> 'w \<Rightarrow> string \<Rightarrow> string" where
  "readSysctl sys w key =
     (case sys_read sys w (proc_sys_path key) of Inl e \<Rightarrow> [] | Inr data \<Rightarrow> trim_space data)"

text \<open>One turn of the loop of \<^verbatim>\<open>Apply\<close>.\<close>

definition apply_one :: "'w system \<Rightarrow> bool \<Rightarrow> Setting \<Rightarrow> 'w \<Rightarrow> tune_result \<times> 'w" where
  "apply_one sys dryRun s w =
     (let before = readSysctl sys w (st_Key s);
          r = \<lparr>tr_Key = st_Key s, tr_Before = before, tr_After = [], tr_Changed = False, tr_Error = []\<rparr>
      in if dryRun then (r\<lparr>tr_After := st_Value s, tr_Changed := before \<noteq> st_Value s\<rparr>, w)
         else case sys_exec sys [''sysctl'', ''-w'', st_Key s @ ''='' @ st_Value s] w of
           ((out, ok), w) \<Rightarrow>
             if \<not> ok then (r\<lparr>tr_Error := trim_space out\<rparr>, w)
             else (r\<lparr>tr_After := st_Value s, tr_Changed := before \<noteq> st_Value s\<rparr>, w))"

fun apply_loop :: "'w system \<Rightarrow> bool \<Rightarrow> Setting list \<Rightarrow> 'w \<Rightarrow> tune_result list \<times> 'w" where
  "apply_loop sys dryRun [] w = ([], w)"
| "apply_loop sys dryRun (s # ss) w =
     (case apply_one sys dryRun s w of (r, w) \<Rightarrow>
        (case apply_loop sys dryRun ss w of (rs, w) \<Rightarrow> (r # rs, w)))"

definition sysctl_conf :: string where
  "sysctl_conf =
     ''# GhostNet kernel tuning '' @ map char_of [0xE2, 0x80, 0x94 :: nat] @ '' auto-generated'' @ [CHR 0x0A] @
     concat (map (\<lambda>s. st_Key s @ '' = '' @ st_Value s @ [CHR 0x0A]) settings)"

definition persistSysctl :: "'w system \<Rightarrow> 'w \<Rightarrow> go_error option \<times> 'w" where
  "persistSysctl sys w = sys_write sys ''/etc/sysctl.d/99-ghostnet.conf'' sysctl_conf w"

definition limits_conf :: string where
  "limits_conf =
     ''# GhostNet ulimit'' @ [CHR 0x0A] @ ''*    soft nofile 1048576'' @ [CHR 0x0A] @
     ''*    hard nofile 1048576'' @ [CHR 0x0A] @ ''root soft nofile 1048576'' @ [CHR 0x0A] @
     ''root hard nofile 1048576'' @ [CHR 0x0A]"

definition applyUlimit :: "'w system \<Rightarrow> 'w \<Rightarrow> go_error option \<times> 'w" where
  "applyUlimit sys w = sys_write sys ''/etc/security/limits.d/99-ghostnet.conf'' limits_conf w"

definition loadBBR :: "'w system \<Rightarrow> 'w \<Rightarrow> 'w" where
  "loadBBR sys w =
     (let w = snd (sys_exec sys [''modprobe'', ''tcp_bbr''] w);
          w = snd (sys_exec sys [''sysctl'', ''-w'', ''net.core.default_qdisc=fq''] w)
      in snd (sys_exec sys [''sysctl'', ''-w'', ''net.ipv4.tcp_congestion_control=bbr''] w))"

definition Tuner_Apply :: "'w system \<Rightarrow> bool \<Rightarrow> 'w \<Rightarrow> (tune_result list \<times> go_error option) \<times> 'w" where
  "Tuner_Apply sys dryRun w =
     (case apply_loop sys dryRun settings w of
        (results, w) \<Rightarrow>
          if dryRun then ((results, None), w)
          else case persistSysctl sys w of
            (Some err, w) \<Rightarrow> ((results, Some (wrap_error ''persist sysctl'' err)), w)
          | (None, w) \<Rightarrow>
              (case applyUlimit sys w of
                 (Some err, w) \<Rightarrow> ((results, Some (wrap_error ''apply ulimit'' err)), w)
               | (None, w) \<Rightarrow> ((results, None), loadBBR sys w)))"

text \<open>The count that \<^verbatim>\<open>runTune\<close> and \<^verbatim>\<open>runSetup\<close> print.\<close>

definition tune_changed :: "tune_result list \<Rightarrow> nat" where
  "tune_changed results = length (filter (\<lambda>r. tr_Error r = [] \<and> tr_Changed r) results)"

text \<open>\<^verbatim>\<open>strconv.Atoi\<close>: an optional sign and digits, within 64 bits.\<close>

definition go_Atoi :: "string \<Rightarrow> int option" where
  "go_Atoi s =
     (let neg = (s \<noteq> [] \<and> hd s = CHR ''-'');
          ds = (if s \<noteq> [] \<and> (hd s = CHR ''-'' \<or> hd s = CHR ''+'') then tl s else s);
          n = (if neg then - int (undec ds) else int (undec ds))
      in if ds = [] \<or> \<not> list_all (\<lambda>c. 48 \<le> (of_char c :: nat) \<and> (of_char c :: nat) \<le> 57) ds then None
         else if - (2 ^ 63) \<le> n \<and> n < 2 ^ 63 then Some n else None)"

fun ulimit_lines :: "string list \<Rightarrow> int" where
  "ulimit_lines [] = - 1"
| "ulimit_lines (line # lines) =
     (if take 14 line = ''Max open files''
      then let fs = go_Fields line
           in if length fs \<ge> 4
              then (case go_Atoi (fs ! 3) of Some n \<Rightarrow> n | None \<Rightarrow> ulimit_lines lines)
              else ulimit_lines lines
      else ulimit_lines lines)"

definition CurrentUlimit :: "go_error + string \<Rightarrow> int" where
  "CurrentUlimit file =
     (case file of Inl e \<Rightarrow> - 1 | Inr data \<Rightarrow> ulimit_lines (go_Split (CHR 0x0A) data))"

section \<open>A dry run\<close>

lemma apply_loop_dry:
  "apply_loop sys True ss w =
     (map (\<lambda>s. \<lparr>tr_Key = st_Key s, tr_Before = readSysctl sys w (st_Key s), tr_After = st_Value s,
                tr_Changed = readSysctl sys w (st_Key s) \<noteq> st_Value s, tr_Error = []\<rparr>) ss, w)"
  by (induction ss) (simp_all add: apply_one_def Let_def)

lemma Tuner_Apply_dry:
  "Tuner_Apply sys True w =
     ((map (\<lambda>s. \<lparr>tr_Key = st_Key s, tr_Before = readSysctl sys w (st_Key s), tr_After = st_Value s,
                 tr_Changed = readSysctl sys w (st_Key s) \<noteq> st_Value s, tr_Error = []\<rparr>) settings, None), w)"
  by (simp add: Tuner_Apply_def apply_loop_dry)

text \<open>Every setting gets one result, in order, whatever the commands answer.\<close>

lemma apply_loop_keys: "map tr_Key (fst (apply_loop sys dryRun ss w)) = map st_Key ss"
proof (induction ss arbitrary: w)
  case (Cons s ss)
  have "tr_Key (fst (apply_one sys dryRun s w)) = st_Key s"
    by (simp add: apply_one_def Let_def split: prod.splits)
  then show ?case
    using Cons by (simp split: prod.splits) (metis fst_conv)
qed simp

text \<open>How the kernel shows a setting that has these values: the numbers of a vector are separated by
  tabs, and a newline follows.\<close>

definition shown :: "string \<Rightarrow> string" where
  "shown v = map (\<lambda>c. if c = CHR '' '' then CHR 0x09 else c) v @ [CHR 0x0A]"

definition tuned :: "'w system \<Rightarrow> 'w \<Rightarrow> bool" where
  "tuned sys w \<longleftrightarrow>
     list_all (\<lambda>s. sys_read sys w (proc_sys_path (st_Key s)) = Inr (shown (st_Value s))) settings"

text \<open>What \<^verbatim>\<open>readSysctl\<close> answers for a value without blanks at its ends.\<close>

lemma trim_shown:
  assumes "v \<noteq> []" "\<not> is_space (hd v)" "\<not> is_space (last v)"
  shows "trim_space (shown v) = map (\<lambda>c. if c = CHR '' '' then CHR 0x09 else c) v"
proof -
  let ?m = "map (\<lambda>c. if c = CHR '' '' then CHR 0x09 else c) v"
  have sp: "is_space (CHR '' '')" "is_space (CHR 0x0A)" by (simp_all add: is_space_def)
  have h: "\<not> is_space (hd ?m)" "\<not> is_space (last ?m)" "?m \<noteq> []"
    using assms sp by (auto simp: hd_map last_map)
  then have "dropWhile is_space (?m @ [CHR 0x0A]) = ?m @ [CHR 0x0A]" by (cases ?m) auto
  moreover have "dropWhile is_space (rev (?m @ [CHR 0x0A])) = rev ?m"
    using h sp by (cases ?m rule: rev_cases) auto
  ultimately show ?thesis by (simp add: trim_space_def shown_def)
qed

lemma settings_trimmed:
  "list_all (\<lambda>s. st_Value s \<noteq> [] \<and> \<not> is_space (hd (st_Value s)) \<and> \<not> is_space (last (st_Value s))) settings"
  by (simp add: settings_def is_space_def)

text \<open>A tuned kernel looks untuned. On a system that already has every setting, shown the way the
  kernel shows them, a dry run changes nothing, reports no error, and still announces a change for
  the three settings that hold several numbers: they are compared with blanks where the kernel
  shows tabs.\<close>

theorem tuned_kernel_changed:
  assumes "tuned sys w"
  shows "case Tuner_Apply sys True w of ((results, err), w') \<Rightarrow>
    w' = w \<and> err = None \<and> tune_changed results = 3 \<and>
    map tr_Key (filter tr_Changed results) =
      [''net.ipv4.ip_local_port_range'', ''net.ipv4.tcp_rmem'', ''net.ipv4.tcp_wmem'']"
proof -
  have read: "readSysctl sys w (st_Key s) = map (\<lambda>c. if c = CHR '' '' then CHR 0x09 else c) (st_Value s)"
    if "s \<in> set settings" for s
    using that assms settings_trimmed trim_shown [of "st_Value s"]
    by (simp add: readSysctl_def tuned_def list_all_iff)
  let ?res = "map (\<lambda>s. \<lparr>tr_Key = st_Key s,
      tr_Before = map (\<lambda>c. if c = CHR '' '' then CHR 0x09 else c) (st_Value s), tr_After = st_Value s,
      tr_Changed = map (\<lambda>c. if c = CHR '' '' then CHR 0x09 else c) (st_Value s) \<noteq> st_Value s,
      tr_Error = []\<rparr>) settings"
  have "Tuner_Apply sys True w = ((?res, None), w)"
    unfolding Tuner_Apply_dry using read by simp
  moreover have "tune_changed ?res = 3"
    by (simp add: tune_changed_def settings_def)
  moreover have "map tr_Key (filter tr_Changed ?res) =
      [''net.ipv4.ip_local_port_range'', ''net.ipv4.tcp_rmem'', ''net.ipv4.tcp_wmem'']"
    by (simp add: settings_def)
  ultimately show ?thesis by simp
qed

text \<open>A system whose files never change.\<close>

definition tuned_system :: "(string \<Rightarrow> string option) system" where
  "tuned_system =
     \<lparr>sys_read = (\<lambda>w p. case w p of None \<Rightarrow> Inl [''no such file''] | Some s \<Rightarrow> Inr s),
      sys_exec = (\<lambda>args w. (([], True), w)), sys_write = (\<lambda>p s w. (None, w(p \<mapsto> s)))\<rparr>"

definition tuned_files :: "string \<Rightarrow> string option" where
  "tuned_files = map_of (map (\<lambda>s. (proc_sys_path (st_Key s), shown (st_Value s))) settings)"

theorem tuned_kernel_changed_witness:
  "tune_changed (fst (fst (Tuner_Apply tuned_system True tuned_files))) = 3"
proof -
  have "tuned tuned_system tuned_files"
    by (simp add: tuned_def tuned_system_def tuned_files_def settings_def proc_sys_path_def)
  from tuned_kernel_changed [OF this] show ?thesis by (simp split: prod.splits)
qed

end
