(* ===== verification/Network.thy ===== *)
theory Network
  imports NetAddr
begin

text \<open>
  \<^verbatim>\<open>internal/network/interface.go\<close> and the registry of \<^verbatim>\<open>internal/bypass/plugin.go\<close>. The
  answers of the \<^verbatim>\<open>net\<close> package and of the plug-in loader are arguments.
\<close>

section \<open>Interfaces\<close>

text \<open>\<^verbatim>\<open>LocalIP\<close>: the local address of a UDP socket, as the dial answers it.\<close>

definition LocalIP :: "go_error + bytes \<Rightarrow> go_error + string" where
  "LocalIP dialled =
     (case dialled of Inl e \<Rightarrow> Inl (wrap_error ''local IP'' e) | Inr ip \<Rightarrow> Inr (IP_String ip))"

text \<open>\<^verbatim>\<open>IP.Equal\<close>: an IPv4 address and its IPv6 form are the same.\<close>

definition IP_Equal :: "bytes \<Rightarrow> bytes \<Rightarrow> bool" where
  "IP_Equal a b \<longleftrightarrow>
     (if length a = length b then a = b
      else if length a = 4 \<and> length b = 16 then To4 b = Some a
      else if length a = 16 \<and> length b = 4 then To4 a = Some b
      else False)"

text \<open>An address of an interface: of one of the two kinds the code knows, or of another.\<close>

datatype if_addr = IPNet bytes | IPAddr bytes | OtherKind

fun if_addr_ip :: "if_addr \<Rightarrow> bytes" where
  "if_addr_ip (IPNet ip) = ip"
| "if_addr_ip (IPAddr ip) = ip"
| "if_addr_ip OtherKind = []"

record net_iface =
  ni_name :: string
  ni_addrs :: "go_error + if_addr list"

fun addrs_have :: "bytes \<Rightarrow> if_addr list \<Rightarrow> bool" where
  "addrs_have target [] = False"
| "addrs_have target (a # as) =
     (let ifIP = if_addr_ip a
      in if ifIP \<noteq> [] \<and> IP_Equal ifIP target then True else addrs_have target as)"

fun find_iface :: "bytes \<Rightarrow> net_iface list \<Rightarrow> net_iface option" where
  "find_iface target [] = None"
| "find_iface target (i # is) =
     (case ni_addrs i of
        Inl e \<Rightarrow> find_iface target is
      | Inr addrs \<Rightarrow> if addrs_have target addrs then Some i else find_iface target is)"

definition InterfaceForIP ::
  "(string \<Rightarrow> bytes option) \<Rightarrow> go_error + net_iface list \<Rightarrow> string \<Rightarrow> go_error + net_iface" where
  "InterfaceForIP parse_ip ifaces ip =
     (case parse_ip ip of
        None \<Rightarrow> Inl [''invalid IP: '' @ ip]
      | Some target \<Rightarrow>
          (case ifaces of
             Inl e \<Rightarrow> Inl e
           | Inr is \<Rightarrow>
               (case find_iface target is of
                  Some i \<Rightarrow> Inr i
                | None \<Rightarrow> Inl [''no interface for IP '' @ ip])))"

definition has_ip :: "bytes \<Rightarrow> net_iface \<Rightarrow> bool" where
  "has_ip target i \<longleftrightarrow>
     (case ni_addrs i of
        Inl e \<Rightarrow> False
      | Inr addrs \<Rightarrow> list_ex (\<lambda>a. if_addr_ip a \<noteq> [] \<and> IP_Equal (if_addr_ip a) target) addrs)"

lemma addrs_have_iff: "addrs_have target as \<longleftrightarrow> list_ex (\<lambda>a. if_addr_ip a \<noteq> [] \<and> IP_Equal (if_addr_ip a) target) as"
  by (induction as) (simp_all add: Let_def)

text \<open>The interface found is the first that has the address.\<close>

lemma find_iface_first: "find_iface target is = find (has_ip target) is"
  by (induction "is") (auto simp: has_ip_def addrs_have_iff split: sum.splits)

lemma IP_Equal_sym: "IP_Equal a b \<longleftrightarrow> IP_Equal b a"
  by (auto simp: IP_Equal_def)

section \<open>The plug-in registry\<close>

text \<open>A plug-in is a value of type \<open>'p\<close>, its name a function of it; a nil map is not reachable
  from \<^verbatim>\<open>NewRegistry\<close>.\<close>

type_synonym 'p registry = "string \<rightharpoonup> 'p"

definition NewRegistry :: "'p registry" where "NewRegistry = Map.empty"

definition Register :: "('p \<Rightarrow> string) \<Rightarrow> 'p \<Rightarrow> 'p registry \<Rightarrow> 'p registry" where
  "Register pname p r = r(pname p \<mapsto> p)"

definition Registry_Get :: "string \<Rightarrow> 'p registry \<Rightarrow> 'p option" where "Registry_Get n r = r n"

text \<open>\<open>opened\<close> is the answer of \<^verbatim>\<open>plugin.Open\<close>, a look-up of \<^verbatim>\<open>NewPlugin\<close>: its error, or the
  factory's plug-in, \<open>None\<close> when the symbol has another type.\<close>

definition LoadSharedPlugin ::
  "('p \<Rightarrow> string) \<Rightarrow> string \<Rightarrow> go_error + (go_error + 'p option) \<Rightarrow> 'p registry \<Rightarrow>
   go_error option \<times> 'p registry" where
  "LoadSharedPlugin pname path opened r =
     (case opened of
        Inl e \<Rightarrow> (Some (wrap_error (''plugin: open '' @ [CHR 0x22] @ path @ [CHR 0x22]) e), r)
      | Inr (Inl e) \<Rightarrow> (Some (wrap_error (''plugin: lookup NewPlugin in '' @ [CHR 0x22] @ path @ [CHR 0x22]) e), r)
      | Inr (Inr None) \<Rightarrow> (Some [''plugin: NewPlugin in '' @ [CHR 0x22] @ path @ [CHR 0x22] @ '' has wrong type''], r)
      | Inr (Inr (Some p)) \<Rightarrow> (None, Register pname p r))"

text \<open>The names, in the order the map is visited.\<close>

definition Registry_Names :: "string list \<Rightarrow> 'p registry \<Rightarrow> string list" where
  "Registry_Names visited r = filter (\<lambda>n. r n \<noteq> None) visited"

text \<open>The registry holds, for each name, the plug-in registered last under it.\<close>

lemma Registry_Get_fold:
  "Registry_Get n (fold (Register pname) ps r) =
     (case find (\<lambda>p. pname p = n) (rev ps) of Some p \<Rightarrow> Some p | None \<Rightarrow> r n)"
  by (induction ps rule: rev_induct) (simp_all add: Registry_Get_def Register_def)

lemma LoadSharedPlugin_error:
  "LoadSharedPlugin pname path opened r = (Some e, r') \<Longrightarrow> r' = r"
  by (auto simp: LoadSharedPlugin_def split: sum.splits option.splits)

end
