(* ===== verification/HealthLoop.thy ===== *)
theory HealthLoop
  imports Router
begin

text \<open>
  \<^verbatim>\<open>healthLoop\<close> of \<^verbatim>\<open>internal/routing/router.go\<close>: one round of checks at once, then one per
  tick. An endpoint that stops answering leaves the candidates after \<open>threshold\<close> rounds, and one that
  answers again is back after the first round past its cooldown. Also \<^verbatim>\<open>Endpoints\<close> and
  \<^verbatim>\<open>Latency\<close>.
\<close>

definition Latency :: "Endpoint \<Rightarrow> int" where "Latency e = ep_ewma e"

definition Endpoints :: "router \<Rightarrow> Endpoint list" where "Endpoints r = rt_endpoints r"

text \<open>A round, by position: the clock when \<^verbatim>\<open>State\<close> reads it and after the probe, and the
  probe's answer.\<close>

record health_round =
  hr_now :: "nat \<Rightarrow> int"
  hr_after :: "nat \<Rightarrow> int"
  hr_probe :: "nat \<Rightarrow> int \<times> bool"

fun healthLoop :: "health_round list \<Rightarrow> router \<Rightarrow> router" where
  "healthLoop [] r = r"
| "healthLoop (h # hs) r = healthLoop hs (fst (checkAll (hr_now h) (hr_after h) (hr_probe h) r))"

text \<open>What the rounds do to the endpoint at position \<open>i\<close>.\<close>

definition round_on :: "router \<Rightarrow> nat \<Rightarrow> health_round \<Rightarrow> Endpoint \<Rightarrow> Endpoint" where
  "round_on r i h e =
     fst (check_one (rt_threshold r) (rt_cooldown r) (hr_now h i) (hr_after h i) (hr_probe h i) e)"

lemma checkAll_frame [simp]:
  "rt_threshold (fst (checkAll n a p r)) = rt_threshold r"
  "rt_cooldown (fst (checkAll n a p r)) = rt_cooldown r"
  "length (rt_endpoints (fst (checkAll n a p r))) = length (rt_endpoints r)"
  by (simp_all add: checkAll_def Let_def)

lemma checkAll_nth:
  "i < length (rt_endpoints r) \<Longrightarrow>
     rt_endpoints (fst (checkAll (hr_now h) (hr_after h) (hr_probe h) r)) ! i =
     round_on r i h (rt_endpoints r ! i)"
  by (simp add: checkAll_def Let_def round_on_def)

lemma healthLoop_frame [simp]:
  "rt_threshold (healthLoop hs r) = rt_threshold r"
  "rt_cooldown (healthLoop hs r) = rt_cooldown r"
  "length (rt_endpoints (healthLoop hs r)) = length (rt_endpoints r)"
  by (induction hs arbitrary: r) simp_all

lemma healthLoop_append: "healthLoop (hs @ ks) r = healthLoop ks (healthLoop hs r)"
  by (induction hs arbitrary: r) simp_all

lemma healthLoop_nth:
  "i < length (rt_endpoints r) \<Longrightarrow>
     rt_endpoints (healthLoop hs r) ! i = fold (round_on r i) hs (rt_endpoints r ! i)"
proof (induction hs arbitrary: r)
  case (Cons h hs)
  let ?r = "fst (checkAll (hr_now h) (hr_after h) (hr_probe h) r)"
  have "round_on ?r i = round_on r i" by (simp add: round_on_def fun_eq_iff)
  with Cons.IH [of ?r] Cons.prems show ?case by (simp add: checkAll_nth)
qed simp

section \<open>Down\<close>

lemma round_failing:
  assumes "ep_state e \<noteq> StateOpen" and "\<not> snd (hr_probe h i)"
  shows "ep_failures (round_on r i h e) = ep_failures e + 1"
    and "ep_failures e + 1 < rt_threshold r \<Longrightarrow> ep_state (round_on r i h e) = StateUnhealthy"
    and "rt_threshold r \<le> ep_failures e + 1 \<Longrightarrow>
      ep_state (round_on r i h e) = StateOpen \<and> ep_openUntil (round_on r i h e) = hr_after h i + rt_cooldown r"
  using assms
  by (auto simp: round_on_def check_one_def ep_State_def probe_result_def Let_def split: prod.splits if_splits)

lemma rounds_failing:
  assumes "ep_state e \<noteq> StateOpen" and "list_all (\<lambda>h. \<not> snd (hr_probe h i)) (hs @ [h])"
    and "ep_failures e + int (length hs) + 1 = rt_threshold r"
  shows "ep_state (fold (round_on r i) (hs @ [h]) e) = StateOpen \<and>
    ep_openUntil (fold (round_on r i) (hs @ [h]) e) = hr_after h i + rt_cooldown r"
  using assms
proof (induction hs arbitrary: e)
  case Nil
  then show ?case using round_failing(3) [of e h i r] by simp
next
  case (Cons k hs)
  then have "ep_state (round_on r i k e) = StateUnhealthy" "ep_failures (round_on r i k e) = ep_failures e + 1"
    using round_failing(1,2) [of e k i r] by simp_all
  with Cons.prems show ?case using Cons.IH [of "round_on r i k e"] by simp
qed

section \<open>Up\<close>

lemma round_answering:
  assumes "snd (hr_probe h i)"
  shows "ep_openUntil (round_on r i h e) = ep_openUntil e"
    and "ep_openUntil e < hr_now h i \<Longrightarrow> ep_state (round_on r i h e) = StateHealthy"
  using assms
  by (auto simp: round_on_def check_one_def ep_State_def probe_result_def updateEWMA_def Let_def
      split: prod.splits if_splits intro: EndpointState.exhaust [of "ep_state e"])

lemma rounds_answering:
  assumes "list_all (\<lambda>h. snd (hr_probe h i)) (hs @ [h])" and "ep_openUntil e < hr_now h i"
  shows "ep_state (fold (round_on r i) (hs @ [h]) e) = StateHealthy"
proof -
  have "ep_openUntil (fold (round_on r i) hs e) = ep_openUntil e"
    using assms(1) by (induction hs arbitrary: e) (simp_all add: round_answering(1))
  then show ?thesis using assms round_answering(2) [of h i "fold (round_on r i) hs e" r] by simp
qed

text \<open>The positions \<^verbatim>\<open>Pick\<close> chooses from.\<close>

lemma candidate_iff:
  "i \<in> fst ` set (pick_candidates now eps) \<longleftrightarrow>
     i < length eps \<and> (ep_state (eps ! i) = StateOpen \<longrightarrow> ep_openUntil (eps ! i) < now)"
  by (force simp: pick_candidates_def in_set_zip ep_State_def Let_def image_iff split: if_splits)

text \<open>C30. Endpoints leave and come back. Take an endpoint that is in service, whose probe fails in as
  many rounds in a row as are missing to the threshold, and answers in some rounds after that. After
  the failing rounds, and until the cooldown that starts with the last of them has passed,
  \<^verbatim>\<open>Pick\<close> does not choose from it; after the answering rounds, when the last of them began
  past the cooldown, the endpoint is healthy and \<^verbatim>\<open>Pick\<close> chooses from it at any time.\<close>

theorem health_cycle:
  assumes "i < length (rt_endpoints r)" and "e = rt_endpoints r ! i" and "ep_state e \<noteq> StateOpen"
    and "list_all (\<lambda>h. \<not> snd (hr_probe h i)) (downs @ [d])"
    and "ep_failures e + int (length downs) + 1 = rt_threshold r"
    and "list_all (\<lambda>h. snd (hr_probe h i)) (ups @ [u])"
    and "hr_after d i + rt_cooldown r < hr_now u i"
  shows "let r1 = healthLoop (downs @ [d]) r; r2 = healthLoop (ups @ [u]) r1 in
    (\<forall>t. i \<in> fst ` set (pick_candidates t (Endpoints r1)) \<longleftrightarrow> hr_after d i + rt_cooldown r < t) \<and>
    ep_state (Endpoints r2 ! i) = StateHealthy \<and>
    (\<forall>t. i \<in> fst ` set (pick_candidates t (Endpoints r2)))"
proof -
  let ?r1 = "healthLoop (downs @ [d]) r" and ?f = "fold (round_on r i) (downs @ [d]) e"
  have one: "rt_endpoints ?r1 ! i = ?f" using healthLoop_nth [OF assms(1)] assms(2) by simp
  note down = rounds_failing [OF assms(3-5)]
  have "round_on ?r1 i = round_on r i" by (simp add: round_on_def fun_eq_iff)
  then have two: "rt_endpoints (healthLoop (ups @ [u]) ?r1) ! i = fold (round_on r i) (ups @ [u]) ?f"
    using healthLoop_nth [of i ?r1 "ups @ [u]"] assms(1) one by simp
  have "ep_state (fold (round_on r i) (ups @ [u]) ?f) = StateHealthy"
    using down assms(7) by (intro rounds_answering [OF assms(6)]) simp
  then show ?thesis
    unfolding Let_def Endpoints_def candidate_iff two one using down assms(1) by simp
qed

text \<open>A threshold of two; the second round fails at 20, the cooldown is 30.\<close>

theorem health_cycle_witness:
  "\<exists>r1. healthLoop
       [\<lparr>hr_now = (\<lambda>_. 9), hr_after = (\<lambda>_. 10), hr_probe = (\<lambda>_. (0, False))\<rparr>,
        \<lparr>hr_now = (\<lambda>_. 19), hr_after = (\<lambda>_. 20), hr_probe = (\<lambda>_. (0, False))\<rparr>]
       \<lparr>rt_endpoints = [new_endpoint ''h:443''], rt_threshold = 2, rt_cooldown = 30\<rparr> = r1 \<and>
     (\<forall>t. 0 \<in> fst ` set (pick_candidates t (Endpoints r1)) \<longleftrightarrow> 50 < t) \<and>
     ep_state (Endpoints (healthLoop
       [\<lparr>hr_now = (\<lambda>_. 51), hr_after = (\<lambda>_. 52), hr_probe = (\<lambda>_. (7, True))\<rparr>] r1) ! 0) = StateHealthy"
  using health_cycle [of 0 "\<lparr>rt_endpoints = [new_endpoint ''h:443''], rt_threshold = 2, rt_cooldown = 30\<rparr>"
      "new_endpoint ''h:443''" "[\<lparr>hr_now = (\<lambda>_. 9), hr_after = (\<lambda>_. 10), hr_probe = (\<lambda>_. (0, False))\<rparr>]"
      "\<lparr>hr_now = (\<lambda>_. 19), hr_after = (\<lambda>_. 20), hr_probe = (\<lambda>_. (0, False))\<rparr>" "[]"
      "\<lparr>hr_now = (\<lambda>_. 51), hr_after = (\<lambda>_. 52), hr_probe = (\<lambda>_. (7, True))\<rparr>"]
  by (simp add: new_endpoint_def Let_def)

end
