(* ===== verification/Utf8.thy ===== *)
theory Utf8
  imports Prelude
begin

text \<open>
  UTF-8 as \<^verbatim>\<open>unicode/utf8\<close> reads and writes it, which \<^verbatim>\<open>encoding/json\<close> and the verb \<^verbatim>\<open>%q\<close>
  rely on. A text is its bytes.
\<close>

definition cont_byte :: "nat \<Rightarrow> bool" where
  "cont_byte b \<longleftrightarrow> 0x80 \<le> b \<and> b \<le> 0xBF"

definition rune_error :: nat where "rune_error = 0xFFFD"

text \<open>\<^verbatim>\<open>DecodeRune\<close> on the bytes: the code point and its width; an invalid byte is the error rune
  with width 1.\<close>

fun decode_bytes :: "nat list \<Rightarrow> nat \<times> nat" where
  "decode_bytes [] = (rune_error, 0)"
| "decode_bytes (b0 # r) =
     (if b0 < 0x80 then (b0, 1)
      else if 0xC2 \<le> b0 \<and> b0 \<le> 0xDF \<and> length r \<ge> 1 \<and> cont_byte (r ! 0)
        then ((b0 - 0xC0) * 0x40 + (r ! 0 - 0x80), 2)
      else if 0xE0 \<le> b0 \<and> b0 \<le> 0xEF \<and> length r \<ge> 2 \<and> cont_byte (r ! 0) \<and> cont_byte (r ! 1) \<and>
          (b0 = 0xE0 \<longrightarrow> r ! 0 \<ge> 0xA0) \<and> (b0 = 0xED \<longrightarrow> r ! 0 \<le> 0x9F)
        then ((b0 - 0xE0) * 0x1000 + (r ! 0 - 0x80) * 0x40 + (r ! 1 - 0x80), 3)
      else if 0xF0 \<le> b0 \<and> b0 \<le> 0xF4 \<and> length r \<ge> 3 \<and> cont_byte (r ! 0) \<and> cont_byte (r ! 1) \<and>
          cont_byte (r ! 2) \<and> (b0 = 0xF0 \<longrightarrow> r ! 0 \<ge> 0x90) \<and> (b0 = 0xF4 \<longrightarrow> r ! 0 \<le> 0x8F)
        then ((b0 - 0xF0) * 0x40000 + (r ! 0 - 0x80) * 0x1000 + (r ! 1 - 0x80) * 0x40 + (r ! 2 - 0x80), 4)
      else (rune_error, 1))"

definition utf8_rune :: "string \<Rightarrow> nat \<times> nat" where
  "utf8_rune s = decode_bytes (map of_char (take 4 s))"

text \<open>\<^verbatim>\<open>AppendRune\<close>; what is not a code point is written as the error rune.\<close>

definition utf8_encode :: "nat \<Rightarrow> string" where
  "utf8_encode r =
     (let r = (if r > 0x10FFFF \<or> (0xD800 \<le> r \<and> r \<le> 0xDFFF) then rune_error else r)
      in map char_of
        (if r < 0x80 then [r]
         else if r < 0x800 then [0xC0 + r div 0x40, 0x80 + r mod 0x40]
         else if r < 0x10000 then [0xE0 + r div 0x1000, 0x80 + r div 0x40 mod 0x40, 0x80 + r mod 0x40]
         else [0xF0 + r div 0x40000, 0x80 + r div 0x1000 mod 0x40, 0x80 + r div 0x40 mod 0x40,
               0x80 + r mod 0x40]))"

lemma decode_bytes_width: "snd (decode_bytes bs) \<le> length bs \<and> (bs \<noteq> [] \<longrightarrow> 0 < snd (decode_bytes bs))"
  by (cases bs) auto

lemma utf8_rune_width: "s \<noteq> [] \<Longrightarrow> 0 < snd (utf8_rune s) \<and> snd (utf8_rune s) \<le> length s"
  using decode_bytes_width [of "map of_char (take 4 s)"] by (auto simp: utf8_rune_def)

lemma utf8_rune_ascii [simp]: "(of_char c :: nat) < 128 \<Longrightarrow> utf8_rune (c # s) = (of_char c, 1)"
  by (simp add: utf8_rune_def)

text \<open>A multi-byte sequence holds no ASCII byte.\<close>

lemma decode_bytes_cont:
  assumes "\<not> b0 < 0x80" "Suc j < snd (decode_bytes (b0 # r))"
  shows "cont_byte (r ! j)"
proof -
  have "snd (decode_bytes (b0 # r)) \<le> 4" by simp
  with assms(2) have "j = 0 \<or> j = 1 \<or> j = 2" by linarith
  then show ?thesis
  proof (elim disjE)
    assume "j = 0" with assms show ?thesis by (simp split: if_splits)
  next
    assume "j = 1" with assms show ?thesis by (simp split: if_splits)
  next
    assume "j = 2" with assms show ?thesis by (simp split: if_splits)
  qed
qed

lemma decode_bytes_high: "\<not> b0 < 0x80 \<Longrightarrow> 0x80 \<le> fst (decode_bytes (b0 # r))"
proof -
  assume high: "\<not> b0 < 0x80"
  have two: "0x80 \<le> (b0 - 0xC0) * 0x40 + n" if "0xC2 \<le> b0" for n using that by linarith
  have three: "0x80 \<le> (b0 - 0xE0) * 0x1000 + (c - 0x80) * 0x40 + n"
    if "0xE0 \<le> b0" "b0 = 0xE0 \<longrightarrow> 0xA0 \<le> c" for c n :: nat
    using that by (cases "b0 = 0xE0") linarith+
  have four: "0x80 \<le> (b0 - 0xF0) * 0x40000 + (c - 0x80) * 0x1000 + n + k"
    if "0xF0 \<le> b0" "b0 = 0xF0 \<longrightarrow> 0x90 \<le> c" for c n k :: nat
    using that by (cases "b0 = 0xF0") linarith+
  show ?thesis using high by (simp add: two three four rune_error_def)
qed

declare decode_bytes.simps [simp del]

lemma utf8_rune_code_high:
  "\<not> (of_char c :: nat) < 0x80 \<Longrightarrow> 0x80 \<le> fst (utf8_rune (c # s))"
  using decode_bytes_high [of "of_char c" "map of_char (take 3 s)"] by (simp add: utf8_rune_def)

lemma utf8_rune_high:
  assumes "\<not> (of_char c :: nat) < 0x80" "i < snd (utf8_rune (c # s))"
  shows "0x80 \<le> (of_char ((c # s) ! i) :: nat)"
proof (cases i)
  case 0
  with assms(1) show ?thesis by simp
next
  case (Suc j)
  let ?r = "map of_char (take 3 s) :: nat list"
  have rune: "utf8_rune (c # s) = decode_bytes (of_char c # ?r)"
    by (simp add: utf8_rune_def)
  have "cont_byte (?r ! j)"
    using decode_bytes_cont [OF assms(1)] assms(2) Suc rune by simp
  moreover have "j < length ?r"
    using assms(2) Suc decode_bytes_width [of "of_char c # ?r"] unfolding rune by auto
  ultimately show ?thesis using Suc by (simp add: cont_byte_def)
qed

end
