(* ===== verification/Json.thy ===== *)
theory Json
  imports NetAddr Text Utf8 "HOL-Library.Monad_Syntax"
begin

text \<open>
  What \<^verbatim>\<open>config.Load\<close> and \<^verbatim>\<open>writeCfg\<close> use of \<^verbatim>\<open>encoding/json\<close>: the syntax a decoder
  accepts and the text \<^verbatim>\<open>MarshalIndent\<close> writes with an indent of two blanks. A text is its bytes. A
  number keeps its text; what it means for a field is the decoder's matter (\<open>ConfigJson\<close>). The limit of
  10000 on the depth of nesting is left out.
\<close>

datatype json =
    JNull
  | JBool bool
  | JNum string
  | JStr string
  | JArr "json list"
  | JObj "(string \<times> json) list"

section \<open>Reading\<close>

definition is_ws :: "char \<Rightarrow> bool" where
  "is_ws c \<longleftrightarrow> c = CHR '' '' \<or> c = CHR 0x09 \<or> c = CHR 0x0A \<or> c = CHR 0x0D"

definition skip_ws :: "string \<Rightarrow> string" where "skip_ws s = dropWhile is_ws s"

text \<open>The next character that is not blank, and what follows it.\<close>

definition next_char :: "string \<Rightarrow> (char \<times> string) option" where
  "next_char s = (case skip_ws s of [] \<Rightarrow> None | c # r \<Rightarrow> Some (c, r))"

subsection \<open>Strings\<close>

definition hex4 :: "string \<Rightarrow> (nat \<times> string) option" where
  "hex4 s =
     (if length s \<ge> 4 \<and> list_all is_hex (take 4 s) then Some (unhex (take 4 s), drop 4 s) else None)"

definition is_surrogate :: "nat \<Rightarrow> bool" where "is_surrogate r \<longleftrightarrow> 0xD800 \<le> r \<and> r \<le> 0xDFFF"

text \<open>After \<^verbatim>\<open>\u\<close>: four digits, or a pair of surrogates in two escapes.\<close>

definition read_u :: "string \<Rightarrow> (string \<times> string) option" where
  "read_u s =
     do {
       (rr, r) \<leftarrow> hex4 s;
       if is_surrogate rr
       then (case (if take 2 r = [CHR 0x5C, CHR ''u''] then hex4 (drop 2 r) else None) of
               Some (rr2, r2) \<Rightarrow>
                 if rr \<le> 0xDBFF \<and> 0xDC00 \<le> rr2 \<and> rr2 \<le> 0xDFFF
                 then Some (utf8_encode ((rr - 0xD800) * 0x400 + (rr2 - 0xDC00) + 0x10000), r2)
                 else Some (utf8_encode rune_error, r)
             | None \<Rightarrow> Some (utf8_encode rune_error, r))
       else Some (utf8_encode rr, r)
     }"

definition escapes :: "(char \<times> char) list" where
  "escapes =
     [(CHR 0x22, CHR 0x22), (CHR 0x5C, CHR 0x5C), (CHR ''/'', CHR ''/''), (CHR ''b'', CHR 0x08),
      (CHR ''f'', CHR 0x0C), (CHR ''n'', CHR 0x0A), (CHR ''r'', CHR 0x0D), (CHR ''t'', CHR 0x09)]"

text \<open>One character of a string, escaped or not. Bytes that are not UTF-8 become the error rune.\<close>

definition read_unit :: "string \<Rightarrow> (string \<times> string) option" where
  "read_unit s =
     (case s of
        [] \<Rightarrow> None
      | c # r \<Rightarrow>
          if c = CHR 0x5C
          then (case r of
                  [] \<Rightarrow> None
                | e # r \<Rightarrow>
                    if e = CHR ''u'' then read_u r
                    else map_option (\<lambda>d. ([d], r)) (map_of escapes e))
          else if (of_char c :: nat) < 0x20 then None
          else (case utf8_rune s of (rn, w) \<Rightarrow>
                  if rn = rune_error \<and> w = 1 then Some (utf8_encode rune_error, r)
                  else Some (take w s, drop w s)))"

lemma hex4_length: "hex4 s = Some (n, r) \<Longrightarrow> length r < length s"
  by (auto simp: hex4_def split: if_splits)

lemma read_u_length: "read_u s = Some (t, r) \<Longrightarrow> length r < length s"
  by (auto simp: read_u_def bind_eq_Some_conv split: if_splits option.splits prod.splits dest!: hex4_length)

lemma read_unit_length: "read_unit s = Some (t, r) \<Longrightarrow> length r < length s"
proof (cases s)
  case (Cons c s')
  assume r: "read_unit s = Some (t, r)"
  have "0 < snd (utf8_rune s)" using utf8_rune_width [of s] Cons by simp
  with r Cons show ?thesis
    by (auto simp: read_unit_def split: if_splits list.splits prod.splits dest: read_u_length)
qed (simp add: read_unit_def)

text \<open>The rest of a string after its opening quote.\<close>

function read_string :: "string \<Rightarrow> (string \<times> string) option" where
  "read_string s =
     (case s of
        [] \<Rightarrow> None
      | c # r \<Rightarrow>
          if c = CHR 0x22 then Some ([], r)
          else (case read_unit s of
                  None \<Rightarrow> None
                | Some (t, r) \<Rightarrow> map_option (\<lambda>(u, r). (t @ u, r)) (read_string r)))"
  by auto
termination
  by (relation "measure length") (auto dest: read_unit_length)

declare read_string.simps [simp del]

subsection \<open>Numbers\<close>

definition read_int :: "string \<Rightarrow> (string \<times> string) option" where
  "read_int s =
     (case s of
        [] \<Rightarrow> None
      | c # r \<Rightarrow>
          if c = CHR ''0'' then Some (''0'', r)
          else if is_digit c then Some (takeWhile is_digit s, dropWhile is_digit s)
          else None)"

definition read_digits :: "string \<Rightarrow> (string \<times> string) option" where
  "read_digits s =
     (if takeWhile is_digit s = [] then None else Some (takeWhile is_digit s, dropWhile is_digit s))"

definition read_frac :: "string \<Rightarrow> (string \<times> string) option" where
  "read_frac s =
     (case s of
        [] \<Rightarrow> Some ([], s)
      | c # r \<Rightarrow>
          if c = CHR ''.'' then map_option (\<lambda>(ds, r). (c # ds, r)) (read_digits r)
          else Some ([], s))"

definition read_sign :: "string \<Rightarrow> string \<times> string" where
  "read_sign s =
     (case s of
        [] \<Rightarrow> ([], s)
      | c # r \<Rightarrow> if c = CHR ''+'' \<or> c = CHR ''-'' then ([c], r) else ([], s))"

definition read_exp :: "string \<Rightarrow> (string \<times> string) option" where
  "read_exp s =
     (case s of
        [] \<Rightarrow> Some ([], s)
      | c # r \<Rightarrow>
          if c = CHR ''e'' \<or> c = CHR ''E''
          then (case read_sign r of (sg, r) \<Rightarrow>
                  map_option (\<lambda>(ds, r). (c # sg @ ds, r)) (read_digits r))
          else Some ([], s))"

definition read_number :: "string \<Rightarrow> (string \<times> string) option" where
  "read_number s =
     (let (sg, r) = (if s \<noteq> [] \<and> hd s = CHR ''-'' then (''-'', tl s) else ([], s))
      in do {
        (i, r) \<leftarrow> read_int r;
        (f, r) \<leftarrow> read_frac r;
        (e, r) \<leftarrow> read_exp r;
        Some (sg @ i @ f @ e, r)
      })"

subsection \<open>Values\<close>

definition read_word :: "string \<Rightarrow> json \<Rightarrow> string \<Rightarrow> (json \<times> string) option" where
  "read_word w v s = (if take (length w) s = w then Some (v, drop (length w) s) else None)"

text \<open>Two calls in a row use up at least one character, so fuel above twice the length is enough
  (\<open>read_fuel\<close>).\<close>

fun read_value :: "nat \<Rightarrow> string \<Rightarrow> (json \<times> string) option"
  and read_elems :: "nat \<Rightarrow> string \<Rightarrow> (json list \<times> string) option"
  and read_members :: "nat \<Rightarrow> string \<Rightarrow> ((string \<times> json) list \<times> string) option"
where
  "read_value 0 s = None"
| "read_value (Suc n) s =
     do {
       (c, r) \<leftarrow> next_char s;
       if c = CHR 0x22 then map_option (\<lambda>(t, r). (JStr t, r)) (read_string r)
       else if c = CHR ''{''
         then do {
           (d, r2) \<leftarrow> next_char r;
           if d = CHR ''}'' then Some (JObj [], r2)
           else map_option (\<lambda>(ms, r). (JObj ms, r)) (read_members n r)
         }
       else if c = CHR ''[''
         then do {
           (d, r2) \<leftarrow> next_char r;
           if d = CHR '']'' then Some (JArr [], r2)
           else map_option (\<lambda>(vs, r). (JArr vs, r)) (read_elems n r)
         }
       else if c = CHR ''t'' then read_word ''true'' (JBool True) (c # r)
       else if c = CHR ''f'' then read_word ''false'' (JBool False) (c # r)
       else if c = CHR ''n'' then read_word ''null'' JNull (c # r)
       else map_option (\<lambda>(t, r). (JNum t, r)) (read_number (c # r))
     }"
| "read_elems 0 s = None"
| "read_elems (Suc n) s =
     do {
       (v, r) \<leftarrow> read_value n s;
       (c, r) \<leftarrow> next_char r;
       if c = CHR '','' then map_option (\<lambda>(vs, r). (v # vs, r)) (read_elems n r)
       else if c = CHR '']'' then Some ([v], r)
       else None
     }"
| "read_members 0 s = None"
| "read_members (Suc n) s =
     do {
       (q, r) \<leftarrow> next_char s;
       if q \<noteq> CHR 0x22 then None
       else do {
         (k, r) \<leftarrow> read_string r;
         (c, r) \<leftarrow> next_char r;
         if c \<noteq> CHR '':'' then None
         else do {
           (v, r) \<leftarrow> read_value n r;
           (d, r) \<leftarrow> next_char r;
           if d = CHR '','' then map_option (\<lambda>(ms, r). ((k, v) # ms, r)) (read_members n r)
           else if d = CHR ''}'' then Some ([(k, v)], r)
           else None
         }
       }
     }"

definition json_parse :: "string \<Rightarrow> json option" where
  "json_parse s =
     (case read_value (Suc (2 * length s)) s of
        Some (v, r) \<Rightarrow> if skip_ws r = [] then Some v else None
      | None \<Rightarrow> None)"

section \<open>The fuel is enough\<close>

lemma next_char_length: "next_char s = Some (c, r) \<Longrightarrow> length r < length s"
  using length_dropWhile_le [of is_ws s] by (auto simp: next_char_def skip_ws_def split: list.splits)

lemma read_string_length: "read_string s = Some (t, r) \<Longrightarrow> length r < length s"
proof (induction s arbitrary: t r rule: read_string.induct)
  case (1 s)
  show ?case
  proof (cases s)
    case (Cons c s')
    from 1(2) consider "r = s'" | u r1 where "c \<noteq> CHR 0x22" "read_unit s = Some (u, r1)"
        "\<exists>t. read_string r1 = Some (t, r)"
      by (auto simp: read_string.simps [of "c # s'"] Cons split: if_splits option.splits)
    then show ?thesis
    proof cases
      case 2
      then show ?thesis using 1(1) [OF Cons 2(1) 2(2) refl] read_unit_length [OF 2(2)] by force
    qed (simp add: Cons)
  qed (use 1(2) in \<open>simp add: read_string.simps [of "[]"]\<close>)
qed

lemma read_digits_length: "read_digits s = Some (t, r) \<Longrightarrow> length r \<le> length s"
  using length_dropWhile_le [of is_digit s] by (auto simp: read_digits_def split: if_splits)

lemma read_number_length: "read_number s = Some (t, r) \<Longrightarrow> length r < length s"
proof -
  have i: "length r < length s" if "read_int s = Some (t, r)" for s t r
    using that length_dropWhile_le [of is_digit]
    by (auto simp: read_int_def less_Suc_eq_le split: list.splits if_splits)
  have f: "length r \<le> length s" if "read_frac s = Some (t, r)" for s t r
    using that by (fastforce simp: read_frac_def split: list.splits if_splits dest: read_digits_length)
  have sg: "length (snd (read_sign s)) \<le> length s" for s
    by (simp add: read_sign_def split: list.splits)
  have e: "length r \<le> length s" if "read_exp s = Some (t, r)" for s t r
  proof (cases s)
    case (Cons c s')
    with that sg [of s'] show ?thesis
      by (auto simp: read_exp_def split: if_splits prod.splits dest!: read_digits_length)
  qed (use that in \<open>simp add: read_exp_def\<close>)
  show "read_number s = Some (t, r) \<Longrightarrow> length r < length s"
    by (auto simp: read_number_def Let_def bind_eq_Some_conv split: if_splits dest!: i f e)
qed

lemma read_word_length: "read_word w v s = Some (u, r) \<Longrightarrow> w \<noteq> [] \<Longrightarrow> length r < length s"
  by (cases s) (auto simp: read_word_def split: if_splits)

lemmas reader_lengths = next_char_length read_string_length read_number_length

lemma read_lengths:
  "read_value n s = Some (v, r) \<Longrightarrow> length r < length s"
  "read_elems n s = Some (vs, r) \<Longrightarrow> length r < length s"
  "read_members n s = Some (ms, r) \<Longrightarrow> length r < length s"
proof (induction n arbitrary: s v vs ms r)
  case (Suc n)
  {
    case 1
    then obtain c s1 where c: "next_char s = Some (c, s1)" by (cases "next_char s") auto
    with 1 next_char_length [OF c] show ?case
      by (auto simp: bind_eq_Some_conv split: if_splits
        dest!: reader_lengths Suc.IH(2,3) read_word_length)
  next
    case 2
    then show ?case by (auto simp: bind_eq_Some_conv split: if_splits dest!: reader_lengths Suc.IH)
  next
    case 3
    then show ?case by (auto simp: bind_eq_Some_conv split: if_splits dest!: reader_lengths Suc.IH)
  }
qed simp_all

lemma next_char_None: "(\<forall>c r. next_char s \<noteq> Some (c, r)) \<longleftrightarrow> next_char s = None"
  by (cases "next_char s") auto

lemma read_fuel:
  "2 * length s < n \<Longrightarrow> 2 * length s < m \<Longrightarrow> read_value n s = read_value m s"
  "2 * length s + 1 < n \<Longrightarrow> 2 * length s + 1 < m \<Longrightarrow> read_elems n s = read_elems m s"
  "2 * length s + 1 < n \<Longrightarrow> 2 * length s + 1 < m \<Longrightarrow> read_members n s = read_members m s"
proof (induction n arbitrary: s m)
  case (Suc n)
  {
    case 1
    then obtain k where m: "m = Suc k" by (cases m) auto
    have IH: "read_elems n r = read_elems k r" "read_members n r = read_members k r"
      if "next_char s = Some (c, r)" for c r
      using next_char_length [OF that] 1 m by (intro Suc.IH(2,3); simp)+
    show ?case
    proof (cases "next_char s")
      case (Some p)
      obtain c r where p: "p = (c, r)" by (cases p)
      show ?thesis unfolding m read_value.simps Some p Option.bind.simps prod.case IH [OF Some [unfolded p]] ..
    qed (simp add: m)
  next
    case 2
    then obtain k where m: "m = Suc k" by (cases m) auto
    have v: "read_value n s = read_value k s" using 2 m by (intro Suc.IH(1)) simp_all
    have es: "read_elems n r2 = read_elems k r2"
      if "read_value k s = Some (v, r)" "next_char r = Some (c, r2)" for v r c r2
      using read_lengths(1) [OF that(1)] next_char_length [OF that(2)] 2 m by (intro Suc.IH(2)) simp_all
    show ?case
    proof (cases "read_value k s")
      case (Some p)
      obtain v r where p: "p = (v, r)" by (cases p)
      show ?thesis
      proof (cases "next_char r")
        case (Some q)
        obtain c r2 where q: "q = (c, r2)" by (cases q)
        show ?thesis
          unfolding m read_elems.simps v \<open>read_value k s = Some p\<close> p Option.bind.simps prod.case Some q
            es [OF \<open>read_value k s = Some p\<close> [unfolded p] Some [unfolded q]] ..
      qed (simp add: m v Some p)
    qed (simp add: m v)
  next
    case 3
    then obtain k where m: "m = Suc k" by (cases m) auto
    have v: "read_value n r3 = read_value k r3"
      if "next_char s = Some (c, r)" "read_string r = Some (q, r2)" "next_char r2 = Some (d, r3)" for c r q r2 d r3
      using next_char_length [OF that(1)] next_char_length [OF that(3)]
        read_string_length [OF that(2)] 3 m by (intro Suc.IH(1)) simp_all
    have ms: "read_members n r5 = read_members k r5"
      if "next_char s = Some (c, r)" "read_string r = Some (q, r2)" "next_char r2 = Some (d, r3)"
        "read_value k r3 = Some (v, r4)" "next_char r4 = Some (e, r5)" for c r q r2 d r3 v r4 e r5
      using next_char_length [OF that(1)] next_char_length [OF that(3)]
        read_string_length [OF that(2)] read_lengths(1) [OF that(4)] next_char_length [OF that(5)] 3 m
      by (intro Suc.IH(3)) simp_all
    show ?case
    proof (cases "\<exists>c r q r2 d r3. next_char s = Some (c, r) \<and> read_string r = Some (q, r2) \<and>
        next_char r2 = Some (d, r3)")
      case True
      then obtain c r q r2 d r3 where h: "next_char s = Some (c, r)" "read_string r = Some (q, r2)"
        "next_char r2 = Some (d, r3)" by blast
      show ?thesis
      proof (cases "\<exists>v r4 e r5. read_value k r3 = Some (v, r4) \<and> next_char r4 = Some (e, r5)")
        case True
        then obtain v r4 e r5 where t: "read_value k r3 = Some (v, r4)" "next_char r4 = Some (e, r5)" by blast
        show ?thesis
          unfolding m read_members.simps h Option.bind.simps prod.case v [OF h] t ms [OF h t] ..
      next
        case False
        then have "Option.bind (read_value k r3) (\<lambda>(v, r4). Option.bind (next_char r4) (f v)) = None"
          for f :: "json \<Rightarrow> char \<times> string \<Rightarrow> ((string \<times> json) list \<times> string) option"
          by (cases "read_value k r3") (auto simp: next_char_None)
        then show ?thesis
          unfolding m read_members.simps h Option.bind.simps prod.case v [OF h] by (simp only:)
      qed
    next
      case False
      have "Option.bind (next_char s) (\<lambda>(c, r). if c \<noteq> CHR 0x22 then None
          else Option.bind (read_string r) (\<lambda>(q, r2). Option.bind (next_char r2) (f q))) = None"
        for f :: "string \<Rightarrow> char \<times> string \<Rightarrow> ((string \<times> json) list \<times> string) option"
        using False
        by (cases "next_char s"; cases "read_string (snd (the (next_char s)))") (auto simp: next_char_None)
      then show ?thesis unfolding m read_members.simps by (simp only:)
    qed
  }
qed simp_all

section \<open>Writing\<close>

text \<open>A character below 128. \<^verbatim>\<open>Marshal\<close> also escapes what HTML treats specially.\<close>

definition write_char :: "char \<Rightarrow> string" where
  "write_char c =
     (let n = of_char c :: nat
      in if c = CHR 0x22 \<or> c = CHR 0x5C then [CHR 0x5C, c]
         else if c = CHR 0x08 then [CHR 0x5C, CHR ''b'']
         else if c = CHR 0x0C then [CHR 0x5C, CHR ''f'']
         else if c = CHR 0x0A then [CHR 0x5C, CHR ''n'']
         else if c = CHR 0x0D then [CHR 0x5C, CHR ''r'']
         else if c = CHR 0x09 then [CHR 0x5C, CHR ''t'']
         else if n < 0x20 \<or> c = CHR ''<'' \<or> c = CHR ''>'' \<or> c = CHR ''&''
           then [CHR 0x5C, CHR ''u'', CHR ''0'', CHR ''0'', hex_digit (n div 16), hex_digit (n mod 16)]
         else [c])"

lemma utf8_rune_pos: "(rn, w) = utf8_rune (c # r) \<Longrightarrow> 0 < w"
  using utf8_rune_width [of "c # r"] by (metis list.distinct(2) snd_conv)

function write_string :: "string \<Rightarrow> string" where
  "write_string s =
     (case s of
        [] \<Rightarrow> []
      | c # r \<Rightarrow>
          if (of_char c :: nat) < 0x80 then write_char c @ write_string r
          else (case utf8_rune s of (rn, w) \<Rightarrow>
                  if rn = rune_error \<and> w = 1 then CHR 0x5C # ''ufffd'' @ write_string r
                  else if rn = 0x2028 \<or> rn = 0x2029
                    then CHR 0x5C # ''u202'' @ [hex_digit (rn mod 16)] @ write_string (drop w s)
                  else take w s @ write_string (drop w s)))"
  by auto
termination
  by (relation "measure length") (auto dest!: utf8_rune_pos)

declare write_string.simps [simp del]

definition json_quote :: "string \<Rightarrow> string" where
  "json_quote s = CHR 0x22 # write_string s @ [CHR 0x22]"

text \<open>A new line at depth \<open>d\<close>.\<close>

definition new_line :: "nat \<Rightarrow> string" where
  "new_line d = CHR 0x0A # replicate (2 * d) (CHR '' '')"

fun print_json :: "nat \<Rightarrow> json \<Rightarrow> string"
  and print_elems :: "nat \<Rightarrow> json list \<Rightarrow> string"
  and print_members :: "nat \<Rightarrow> (string \<times> json) list \<Rightarrow> string"
where
  "print_json d JNull = ''null''"
| "print_json d (JBool b) = (if b then ''true'' else ''false'')"
| "print_json d (JNum t) = t"
| "print_json d (JStr s) = json_quote s"
| "print_json d (JArr vs) =
     (if vs = [] then ''[]'' else ''['' @ print_elems (Suc d) vs @ new_line d @ '']'')"
| "print_json d (JObj ms) =
     (if ms = [] then ''{}'' else ''{'' @ print_members (Suc d) ms @ new_line d @ ''}'')"
| "print_elems d [] = []"
| "print_elems d (v # vs) =
     new_line d @ print_json d v @ (if vs = [] then [] else '','' @ print_elems d vs)"
| "print_members d [] = []"
| "print_members d ((k, v) # ms) =
     new_line d @ json_quote k @ '': '' @ print_json d v @ (if ms = [] then [] else '','' @ print_members d ms)"

section \<open>What is written is read back\<close>

definition ascii :: "string \<Rightarrow> bool" where
  "ascii s \<longleftrightarrow> list_all (\<lambda>c. (of_char c :: nat) < 0x80) s"

text \<open>The texts of numbers.\<close>

definition number_text :: "string \<Rightarrow> bool" where
  "number_text t \<longleftrightarrow> read_number t = Some (t, [])"

fun json_ok :: "json \<Rightarrow> bool" where
  "json_ok (JNum t) = number_text t"
| "json_ok (JStr s) = ascii s"
| "json_ok (JArr vs) = list_all json_ok vs"
| "json_ok (JObj ms) = list_all (\<lambda>(k, v). ascii k \<and> json_ok v) ms"
| "json_ok _ = True"

text \<open>What may follow a number.\<close>

definition ends_number :: "string \<Rightarrow> bool" where
  "ends_number s \<longleftrightarrow>
     s = [] \<or> (\<not> is_digit (hd s) \<and> hd s \<notin> {CHR ''.'', CHR ''e'', CHR ''E'', CHR ''+'', CHR ''-''})"

lemma hex_digit_value:
  "n < 16 \<Longrightarrow> is_hex (hex_digit n) \<and> hex_value (hex_digit n) = n"
  by (auto simp: hex_digit_def is_hex_def hex_value_def Let_def)

lemma hex4_Cons:
  "hex4 (a # b # c # d # r) =
     (if is_hex a \<and> is_hex b \<and> is_hex c \<and> is_hex d then Some (unhex [a, b, c, d], r) else None)"
  by (simp add: hex4_def)

lemma read_unit_write_char:
  assumes "(of_char c :: nat) < 0x80"
  shows "read_unit (write_char c @ r) = Some ([c], r)"
    and "\<exists>d w. write_char c = d # w \<and> d \<noteq> CHR 0x22"
proof -
  let ?n = "of_char c :: nat"
  have u: "read_u (CHR ''0'' # CHR ''0'' # hex_digit (?n div 16) # hex_digit (?n mod 16) # r) = Some ([c], r)"
  proof -
    have "?n div 16 < 16" "?n mod 16 < 16" using assms by simp_all
    note h = this [THEN hex_digit_value]
    have "unhex [CHR ''0'', CHR ''0'', hex_digit (?n div 16), hex_digit (?n mod 16)] = ?n"
      using h by (simp add: unhex_def hex_value_def)
    moreover have "\<not> is_surrogate ?n" "utf8_encode ?n = [c]"
      using assms by (simp_all add: is_surrogate_def utf8_encode_def)
    moreover have "is_hex (CHR ''0'')" by (simp add: is_hex_def)
    ultimately show ?thesis using h by (simp add: read_u_def hex4_Cons)
  qed
  show "read_unit (write_char c @ r) = Some ([c], r)"
    using assms u
    by (simp add: write_char_def Let_def read_unit_def escapes_def rune_error_def)
  show "\<exists>d w. write_char c = d # w \<and> d \<noteq> CHR 0x22"
    by (simp add: write_char_def Let_def)
qed

lemma read_string_json_quote:
  "ascii t \<Longrightarrow> read_string (write_string t @ CHR 0x22 # r) = Some (t, r)"
proof (induction t)
  case Nil
  show ?case by (simp add: write_string.simps [of "[]"] read_string.simps [of "CHR 0x22 # r"])
next
  case (Cons c t)
  then have c: "(of_char c :: nat) < 0x80" and IH: "read_string (write_string t @ CHR 0x22 # r) = Some (t, r)"
    by (simp_all add: ascii_def)
  obtain d w where d: "write_char c = d # w" "d \<noteq> CHR 0x22"
    using read_unit_write_char(2) [OF c] by blast
  have "write_string (c # t) = write_char c @ write_string t"
    using c by (simp add: write_string.simps [of "c # t"])
  then show ?case
    using read_unit_write_char(1) [OF c, of "write_string t @ CHR 0x22 # r"] IH d
    by (simp add: read_string.simps [of "d # _"])
qed

lemma ends_number_digits:
  "ends_number r \<Longrightarrow> takeWhile is_digit (s @ r) = takeWhile is_digit s"
  "ends_number r \<Longrightarrow> dropWhile is_digit (s @ r) = dropWhile is_digit s @ r"
  by (induction s; cases r; simp add: ends_number_def)+

lemma read_digits_append:
  "read_digits s = Some (t, r) \<Longrightarrow> ends_number e \<Longrightarrow> read_digits (s @ e) = Some (t, r @ e)"
  by (auto simp: read_digits_def ends_number_digits split: if_splits)

lemma read_int_append:
  assumes "read_int s = Some (t, r)" "ends_number e"
  shows "read_int (s @ e) = Some (t, r @ e)"
proof (cases s)
  case (Cons c s')
  show ?thesis
    using assms(1) ends_number_digits [OF assms(2), of s'] by (simp add: read_int_def Cons split: if_splits)
qed (use assms(1) in \<open>simp add: read_int_def\<close>)

lemma read_frac_append:
  assumes "read_frac s = Some (t, r)" and e: "ends_number e"
  shows "read_frac (s @ e) = Some (t, r @ e)"
proof (cases s)
  case Nil
  with assms show ?thesis by (cases e) (auto simp: read_frac_def ends_number_def)
next
  case (Cons c s')
  show ?thesis
  proof (cases "c = CHR ''.''")
    case True
    then obtain ds where "read_digits s' = Some (ds, r)" "t = c # ds"
      using assms(1) by (auto simp: read_frac_def Cons)
    with True show ?thesis using read_digits_append [OF _ e] by (simp add: read_frac_def Cons)
  qed (use assms(1) in \<open>auto simp: read_frac_def Cons\<close>)
qed

lemma read_sign_append:
  "read_sign s = (t, r) \<Longrightarrow> ends_number e \<Longrightarrow> read_sign (s @ e) = (t, r @ e)"
  by (cases s; cases e) (auto simp: read_sign_def ends_number_def split: if_splits)

lemma read_exp_append:
  assumes "read_exp s = Some (t, r)" and e: "ends_number e"
  shows "read_exp (s @ e) = Some (t, r @ e)"
proof (cases s)
  case Nil
  with assms show ?thesis by (cases e) (auto simp: read_exp_def ends_number_def)
next
  case (Cons c s')
  obtain sg r1 where sg: "read_sign s' = (sg, r1)" by fastforce
  show ?thesis
  proof (cases "c = CHR ''e'' \<or> c = CHR ''E''")
    case True
    then obtain ds where "read_digits r1 = Some (ds, r)" "t = c # sg @ ds"
      using assms(1) by (auto simp: read_exp_def Cons sg)
    with True show ?thesis
      using read_digits_append [OF _ e] read_sign_append [OF sg e] by (auto simp: read_exp_def Cons)
  qed (use assms(1) in \<open>auto simp: read_exp_def Cons\<close>)
qed

lemma read_number_append:
  assumes "number_text t" "ends_number r"
  shows "read_number (t @ r) = Some (t, r)"
proof -
  obtain sg t1 where sg: "(if t \<noteq> [] \<and> hd t = CHR ''-'' then (''-'', tl t) else ([], t)) = (sg, t1)"
    by fastforce
  obtain i r1 f r2 x where h: "read_int t1 = Some (i, r1)" "read_frac r1 = Some (f, r2)"
      "read_exp r2 = Some (x, [])" "t = sg @ i @ f @ x"
    using assms(1) unfolding number_text_def read_number_def sg Let_def by (auto simp: bind_eq_Some_conv)
  have "t \<noteq> []" using h(1) sg by (auto simp: read_int_def split: if_splits)
  then have "(if t @ r \<noteq> [] \<and> hd (t @ r) = CHR ''-'' then (''-'', tl (t @ r)) else ([], t @ r)) = (sg, t1 @ r)"
    using sg by (auto split: if_splits)
  then show ?thesis
    using h read_int_append [OF h(1) assms(2)] read_frac_append [OF h(2) assms(2)]
      read_exp_append [OF h(3) assms(2)]
    unfolding read_number_def by (simp add: Let_def)
qed

lemma next_char_simps [simp]:
  "next_char (new_line d @ s) = next_char s"
  "next_char (CHR '' '' # s) = next_char s"
  "\<not> is_ws c \<Longrightarrow> next_char (c # s) = Some (c, s)"
proof -
  have "dropWhile is_ws (replicate k (CHR '' '') @ s) = dropWhile is_ws s" for k
    by (induction k) (simp_all add: is_ws_def)
  then show "next_char (new_line d @ s) = next_char s"
    by (simp add: next_char_def skip_ws_def new_line_def is_ws_def)
qed (simp_all add: next_char_def skip_ws_def is_ws_def)

lemma read_blank:
  assumes "next_char s = next_char s'"
  shows "read_value n s = read_value n s'" "read_elems n s = read_elems n s'"
    "read_members n s = read_members n s'"
proof -
  show v: "read_value n s = read_value n s'" for n by (cases n) (simp_all add: assms)
  show "read_elems n s = read_elems n s'" by (cases n) (simp_all add: v)
  show "read_members n s = read_members n s'" by (cases n) (simp_all add: assms)
qed

lemma number_first:
  assumes "number_text t"
  obtains c t' where "t = c # t'" "is_digit c \<or> c = CHR ''-''"
proof (cases t)
  case Nil
  with assms show ?thesis by (simp add: number_text_def read_number_def read_int_def)
next
  case (Cons c t')
  with assms have "is_digit c \<or> c = CHR ''-''"
    by (auto simp: number_text_def read_number_def read_int_def bind_eq_Some_conv is_digit_def split: if_splits)
  with Cons that show ?thesis by blast
qed

lemma digit_others:
  "is_digit c \<or> c = CHR ''-'' \<Longrightarrow>
     \<not> is_ws c \<and> c \<notin> {CHR 0x22, CHR ''{'', CHR ''['', CHR ''}'', CHR '']'', CHR ''t'', CHR ''f'', CHR ''n''}"
  by (auto simp: is_digit_def is_ws_def)

lemma print_first:
  assumes "json_ok v"
  shows "\<exists>c t. print_json d v = c # t \<and> \<not> is_ws c \<and> c \<noteq> CHR '']''"
proof (cases v)
  case (JNum t)
  with assms have "number_text t" by simp
  from number_first [OF this] obtain c t' where "t = c # t'" "is_digit c \<or> c = CHR ''-''" by blast
  with JNum digit_others [of c] show ?thesis by auto
qed (auto simp: json_quote_def is_ws_def)

lemma next_char_print:
  assumes "json_ok v"
  shows "\<exists>c y. next_char (print_json d v @ r) = Some (c, y) \<and> c \<noteq> CHR '']''"
  using print_first [OF assms, of d] by auto

lemma ends_number_simps [simp]:
  "ends_number (new_line d @ s)" "ends_number (CHR '','' # s)" "ends_number []"
  by (simp_all add: ends_number_def new_line_def is_digit_def)

lemma read_json_quote:
  "ascii k \<Longrightarrow> next_char (json_quote k @ r) = Some (CHR 0x22, write_string k @ CHR 0x22 # r)"
  by (simp add: json_quote_def is_ws_def)

lemma read_print:
  "json_ok v \<Longrightarrow> ends_number r \<Longrightarrow> 2 * length (print_json d v @ r) < n \<Longrightarrow>
     read_value n (print_json d v @ r) = Some (v, r)"
  "list_all json_ok vs \<Longrightarrow> vs \<noteq> [] \<Longrightarrow> 2 * length (print_elems d vs @ new_line e @ CHR '']'' # r) + 1 < n \<Longrightarrow>
     read_elems n (print_elems d vs @ new_line e @ CHR '']'' # r) = Some (vs, r)"
  "list_all (\<lambda>(k, v). ascii k \<and> json_ok v) ms \<Longrightarrow> ms \<noteq> [] \<Longrightarrow>
     2 * length (print_members d ms @ new_line e @ CHR ''}'' # r) + 1 < n \<Longrightarrow>
     read_members n (print_members d ms @ new_line e @ CHR ''}'' # r) = Some (ms, r)"
proof (induction d v and d vs and d ms arbitrary: n r and e n r and e n r
    rule: print_json_print_elems_print_members.induct)
  case (3 d t)
  then obtain k where n: "n = Suc k" by (cases n) auto
  from 3 have t: "number_text t" by simp
  obtain c t' where c: "t = c # t'" "is_digit c \<or> c = CHR ''-''" by (rule number_first [OF t])
  show ?case
    using read_number_append [OF t 3(2)] digit_others [OF c(2)] by (simp add: n c(1))
next
  case (4 d t)
  then obtain k where n: "n = Suc k" by (cases n) auto
  from 4 show ?case by (simp add: n json_quote_def is_ws_def read_string_json_quote)
next
  case (5 d vs)
  then obtain k where n: "n = Suc k" by (cases n) auto
  show ?case
  proof (cases vs)
    case Nil
    then show ?thesis by (simp add: n is_ws_def)
  next
    case (Cons v vs')
    let ?x = "print_elems (Suc d) vs @ new_line d @ CHR '']'' # r"
    have v: "json_ok v" using 5(2) Cons by simp
    obtain t where "?x = new_line (Suc d) @ print_json (Suc d) v @ t" by (simp add: Cons)
    with next_char_print [OF v, of "Suc d" t] obtain c y
      where "next_char ?x = Some (c, y)" "c \<noteq> CHR '']''" by auto
    moreover have "read_elems k ?x = Some (vs, r)"
      using 5 Cons n by (intro 5(1)) simp_all
    ultimately show ?thesis using Cons by (simp add: n is_ws_def)
  qed
next
  case (6 d ms)
  then obtain k where n: "n = Suc k" by (cases n) auto
  show ?case
  proof (cases ms)
    case Nil
    then show ?thesis by (simp add: n is_ws_def)
  next
    case (Cons m ms')
    obtain key v where m: "m = (key, v)" by (cases m)
    let ?x = "print_members (Suc d) ms @ new_line d @ CHR ''}'' # r"
    have "ascii key" using 6(2) Cons m by simp
    moreover obtain t where "?x = new_line (Suc d) @ json_quote key @ t" by (simp add: Cons m)
    ultimately obtain y where "next_char ?x = Some (CHR 0x22, y)" using read_json_quote [of key t] by simp
    moreover have "read_members k ?x = Some (ms, r)"
      using 6 Cons n by (intro 6(1)) simp_all
    ultimately show ?thesis using Cons by (simp add: n is_ws_def)
  qed
next
  case (8 d v vs)
  then obtain k where n: "n = Suc k" by (cases n) auto
  let ?x = "(if vs = [] then [] else CHR '','' # print_elems d vs) @ new_line e @ CHR '']'' # r"
  have "read_value k (print_json d v @ ?x) = Some (v, ?x)"
    using 8(3,5) by (intro 8(1)) (auto simp: n)
  then have v: "read_value k (new_line d @ print_json d v @ ?x) = Some (v, ?x)"
    using read_blank(1) [of "new_line d @ print_json d v @ ?x" "print_json d v @ ?x"] by simp
  show ?case
  proof (cases "vs = []")
    case True
    with v show ?thesis by (simp add: n is_ws_def)
  next
    case False
    then have "read_elems k (print_elems d vs @ new_line e @ CHR '']'' # r) = Some (vs, r)"
      using 8(3,5) by (intro 8(2)) (simp_all add: n)
    with v False show ?thesis by (simp add: n is_ws_def)
  qed
next
  case (10 d key v ms)
  then obtain k where n: "n = Suc k" by (cases n) auto
  let ?x = "(if ms = [] then [] else CHR '','' # print_members d ms) @ new_line e @ CHR ''}'' # r"
  have "read_value k (print_json d v @ ?x) = Some (v, ?x)"
    using 10(3,5) by (intro 10(1)) (auto simp: n)
  then have v: "read_value k (CHR '' '' # print_json d v @ ?x) = Some (v, ?x)"
    using read_blank(1) [of "CHR '' '' # print_json d v @ ?x" "print_json d v @ ?x"] by simp
  have key: "ascii key" using 10(3) by simp
  note q = read_json_quote [OF key] read_string_json_quote [OF key]
  show ?case
  proof (cases "ms = []")
    case True
    with v show ?thesis by (simp add: n is_ws_def q)
  next
    case False
    then have "read_members k (print_members d ms @ new_line e @ CHR ''}'' # r) = Some (ms, r)"
      using 10(3,5) by (intro 10(2)) (simp_all add: n)
    with v False show ?thesis by (simp add: n is_ws_def q)
  qed
next
  case (1 d)
  then show ?case by (cases n) (simp_all add: is_ws_def read_word_def)
next
  case (2 d b)
  then show ?case by (cases n) (simp_all add: is_ws_def read_word_def)
qed simp_all

text \<open>What \<^verbatim>\<open>MarshalIndent\<close> writes, the decoder's parser reads back. For every JSON value
  whose strings are ASCII and whose numbers have the syntax of JSON, whatever quotes, control or HTML
  characters the strings hold and however deep it is nested, parsing the indented text gives the
  value.\<close>

lemma json_parse_print: "json_ok v \<Longrightarrow> json_parse (print_json 0 v) = Some v"
  using read_print(1) [of v "[]" 0 "Suc (2 * length (print_json 0 v))"]
  by (simp add: json_parse_def skip_ws_def)

lemma json_parse_print_example:
  "json_parse (print_json 0 (JObj [(''a<b'', JArr [JNum ''-1.5e3'', JNull, JStr [CHR 0x22, CHR 0x0A]]), (''c'', JObj [])])) =
     Some (JObj [(''a<b'', JArr [JNum ''-1.5e3'', JNull, JStr [CHR 0x22, CHR 0x0A]]), (''c'', JObj [])])"
  by (rule json_parse_print)
    (simp add: ascii_def number_text_def read_number_def read_int_def read_frac_def read_exp_def
      read_digits_def read_sign_def is_digit_def)

end
