(* ===== verification/ConfigJson.thy ===== *)
theory ConfigJson
  imports Cli Json "HOL-Library.AList" "HOL-Library.Char_ord" "HOL-Library.List_Lexorder"
begin

text \<open>
  The JSON of a configuration: the tags of \<^verbatim>\<open>Config\<close>, \<^verbatim>\<open>Endpoint\<close> and
  \<^verbatim>\<open>PluginConfig\<close> in \<^verbatim>\<open>internal/config/config.go\<close> with what \<^verbatim>\<open>json.Unmarshal\<close> does for
  each type, and the struct \<^verbatim>\<open>writeCfg\<close> marshals. A \<^verbatim>\<open>float64\<close> is a real, so decoding does
  not round; an error message leaves out what was found where.
\<close>

section \<open>Decoding\<close>

type_synonym 'a decoder = "json \<Rightarrow> 'a \<Rightarrow> go_error + 'a"

definition type_error :: go_error where "type_error = [''json: cannot unmarshal'']"

text \<open>Null leaves a value as it is.\<close>

definition dec_string :: "string decoder" where
  "dec_string v old = (case v of JStr s \<Rightarrow> Inr s | JNull \<Rightarrow> Inr old | _ \<Rightarrow> Inl type_error)"

definition dec_bool :: "bool decoder" where
  "dec_bool v old = (case v of JBool b \<Rightarrow> Inr b | JNull \<Rightarrow> Inr old | _ \<Rightarrow> Inl type_error)"

text \<open>\<^verbatim>\<open>strconv.ParseInt(t, 10, 64)\<close>: no fraction, no exponent.\<close>

definition ParseInt :: "string \<Rightarrow> int option" where
  "ParseInt t =
     (let neg = (t \<noteq> [] \<and> hd t = CHR ''-'');
          ds = (if neg then tl t else t);
          n = (if neg then - digits_value ds else digits_value ds)
      in if ds = [] \<or> \<not> list_all is_digit ds \<or> n < - (2 ^ 63) \<or> n \<ge> 2 ^ 63 then None else Some n)"

definition dec_int64 :: "int decoder" where
  "dec_int64 v old =
     (case v of
        JNum t \<Rightarrow> (case ParseInt t of Some n \<Rightarrow> Inr n | None \<Rightarrow> Inl type_error)
      | JNull \<Rightarrow> Inr old
      | _ \<Rightarrow> Inl type_error)"

text \<open>The value of a number, and \<^verbatim>\<open>ParseFloat\<close>, which refuses what rounds to infinity.\<close>

definition json_real :: "string \<Rightarrow> real option" where
  "json_real t =
     (let (neg, r) = (if t \<noteq> [] \<and> hd t = CHR ''-'' then (True, tl t) else (False, t))
      in do {
        (i, r) \<leftarrow> read_int r;
        (f, r) \<leftarrow> read_frac r;
        (e, r) \<leftarrow> read_exp r;
        let m = real (undec (i @ drop 1 f)) / 10 ^ length (drop 1 f);
            (sg, ds) = read_sign (drop 1 e);
            x = (if sg = ''-'' then m / 10 ^ undec ds else m * 10 ^ undec ds)
        in Some (if neg then - x else x)
      })"

definition dec_float :: "real decoder" where
  "dec_float v old =
     (case v of
        JNum t \<Rightarrow>
          (case json_real t of
             Some x \<Rightarrow> if \<bar>x\<bar> \<ge> 2 ^ 1024 - 2 ^ 970 then Inl type_error else Inr x
           | None \<Rightarrow> Inl type_error)
      | JNull \<Rightarrow> Inr old
      | _ \<Rightarrow> Inl type_error)"

text \<open>The elements of an array go into the elements the slice has; past its length they start from the
  zero value \<open>z\<close>. (What a longer array left behind in the backing array is not kept.)\<close>

fun dec_elems :: "'a decoder \<Rightarrow> 'a \<Rightarrow> 'a list \<Rightarrow> json list \<Rightarrow> go_error + 'a list" where
  "dec_elems d z old [] = Inr []"
| "dec_elems d z old (v # vs) =
     (case d v (case old of [] \<Rightarrow> z | x # _ \<Rightarrow> x) of
        Inl e \<Rightarrow> Inl e
      | Inr x \<Rightarrow>
          (case dec_elems d z (drop 1 old) vs of Inl e \<Rightarrow> Inl e | Inr xs \<Rightarrow> Inr (x # xs)))"

definition dec_slice :: "'a decoder \<Rightarrow> 'a \<Rightarrow> 'a list decoder" where
  "dec_slice d z v old =
     (case v of JNull \<Rightarrow> Inr [] | JArr vs \<Rightarrow> dec_elems d z old vs | _ \<Rightarrow> Inl type_error)"

text \<open>A \<^verbatim>\<open>map[string]string\<close>: the entries are added to those it has.\<close>

fun dec_entries :: "(string \<times> json) list \<Rightarrow> (string \<times> string) list \<Rightarrow> go_error + (string \<times> string) list"
where
  "dec_entries [] m = Inr m"
| "dec_entries ((k, v) # ms) m =
     (case dec_string v [] of
        Inl e \<Rightarrow> Inl e
      | Inr s \<Rightarrow> dec_entries ms (AList.update k s m))"

definition dec_options :: "(string \<times> string) list decoder" where
  "dec_options v old =
     (case v of JNull \<Rightarrow> Inr [] | JObj ms \<Rightarrow> dec_entries ms old | _ \<Rightarrow> Inl type_error)"

subsection \<open>Structs\<close>

type_synonym 'a fields_of = "(string \<times> 'a decoder) list"

definition fld :: "('a \<Rightarrow> 'b) \<Rightarrow> (('b \<Rightarrow> 'b) \<Rightarrow> 'a \<Rightarrow> 'a) \<Rightarrow> 'b decoder \<Rightarrow> 'a decoder" where
  "fld get upd d v c =
     (case d v (get c) of Inl e \<Rightarrow> Inl e | Inr x \<Rightarrow> Inr (upd (\<lambda>_. x) c))"

text \<open>Names are compared without case; the long s and the Kelvin sign fold to letters too.\<close>

fun fold_name :: "string \<Rightarrow> string" where
  "fold_name (a # b # r) =
     (if a = CHR 0xC5 \<and> b = CHR 0xBF then CHR ''s'' # fold_name r
      else if a = CHR 0xE2 \<and> b = CHR 0x84 \<and> r \<noteq> [] \<and> hd r = CHR 0xAA
        then CHR ''k'' # fold_name (tl r)
      else lower_char a # fold_name (b # r))"
| "fold_name s = map lower_char s"

definition find_field :: "'a fields_of \<Rightarrow> string \<Rightarrow> 'a decoder option" where
  "find_field fs k =
     (case map_of fs k of
        Some d \<Rightarrow> Some d
      | None \<Rightarrow> map_option snd (find (\<lambda>(n, _). fold_name n = fold_name k) fs))"

text \<open>A key that names no field is skipped. The code stops reading the result at an error, so what is
  decoded after the first does not matter.\<close>

fun dec_fields :: "'a fields_of \<Rightarrow> (string \<times> json) list \<Rightarrow> 'a \<Rightarrow> go_error + 'a" where
  "dec_fields fs [] c = Inr c"
| "dec_fields fs ((k, v) # ms) c =
     (case find_field fs k of
        None \<Rightarrow> dec_fields fs ms c
      | Some d \<Rightarrow> (case d v c of Inl e \<Rightarrow> Inl e | Inr c \<Rightarrow> dec_fields fs ms c))"

definition dec_struct :: "'a fields_of \<Rightarrow> 'a decoder" where
  "dec_struct fs v c =
     (case v of JNull \<Rightarrow> Inr c | JObj ms \<Rightarrow> dec_fields fs ms c | _ \<Rightarrow> Inl type_error)"

definition Endpoint_fields :: "config_endpoint fields_of" where
  "Endpoint_fields =
     [(''ip'', fld ce_IP ce_IP_update dec_string),
      (''port'', fld ce_Port ce_Port_update dec_int64),
      (''weight'', fld ce_Weight ce_Weight_update dec_int64)]"

definition PluginConfig_fields :: "PluginConfig fields_of" where
  "PluginConfig_fields =
     [(''name'', fld pc_Name pc_Name_update dec_string),
      (''path'', fld pc_Path pc_Path_update dec_string),
      (''options'', fld pc_Options pc_Options_update dec_options)]"

definition dec_strings :: "string list decoder" where "dec_strings = dec_slice dec_string []"

definition dec_endpoints :: "config_endpoint list decoder" where
  "dec_endpoints =
     dec_slice (dec_struct Endpoint_fields) \<lparr>ce_IP = [], ce_Port = 0, ce_Weight = 0\<rparr>"

definition dec_plugins :: "PluginConfig list decoder" where
  "dec_plugins =
     dec_slice (dec_struct PluginConfig_fields) \<lparr>pc_Name = [], pc_Path = [], pc_Options = []\<rparr>"

definition Config_fields :: "Config fields_of" where
  "Config_fields =
     [(''listen_host'', fld cf_ListenHost cf_ListenHost_update dec_string),
      (''listen_port'', fld cf_ListenPort cf_ListenPort_update dec_int64),
      (''connect_ip'', fld cf_ConnectIP cf_ConnectIP_update dec_string),
      (''connect_port'', fld cf_ConnectPort cf_ConnectPort_update dec_int64),
      (''endpoints'', fld cf_Endpoints cf_Endpoints_update dec_endpoints),
      (''bypass_method'', fld cf_BypassMethod cf_BypassMethod_update dec_string),
      (''fake_sni'', fld cf_FakeSNI cf_FakeSNI_update dec_string),
      (''fake_sni_pool'', fld cf_FakeSNIPool cf_FakeSNIPool_update dec_strings),
      (''browser_profile'', fld cf_BrowserProfile cf_BrowserProfile_update dec_string),
      (''ttl_spoof'', fld cf_TTLSpoof cf_TTLSpoof_update dec_bool),
      (''fragment_size'', fld cf_FragmentSize cf_FragmentSize_update dec_int64),
      (''fake_delay_ms'', fld cf_FakeDelayMs cf_FakeDelayMs_update dec_float),
      (''min_delay_ms'', fld cf_MinDelayMs cf_MinDelayMs_update dec_float),
      (''max_delay_ms'', fld cf_MaxDelayMs cf_MaxDelayMs_update dec_float),
      (''bypass_timeout'', fld cf_BypassTimeout cf_BypassTimeout_update dec_float),
      (''connect_timeout'', fld cf_ConnectTimeout cf_ConnectTimeout_update dec_float),
      (''read_timeout'', fld cf_ReadTimeout cf_ReadTimeout_update dec_float),
      (''write_timeout'', fld cf_WriteTimeout cf_WriteTimeout_update dec_float),
      (''jitter_ms'', fld cf_JitterMs cf_JitterMs_update dec_float),
      (''retry_limit'', fld cf_RetryLimit cf_RetryLimit_update dec_int64),
      (''retry_base_ms'', fld cf_RetryBaseMs cf_RetryBaseMs_update dec_float),
      (''retry_max_ms'', fld cf_RetryMaxMs cf_RetryMaxMs_update dec_float),
      (''circuit_breaker_threshold'',
        fld cf_CircuitBreakerThreshold cf_CircuitBreakerThreshold_update dec_int64),
      (''circuit_breaker_cooldown'',
        fld cf_CircuitBreakerCooldownS cf_CircuitBreakerCooldownS_update dec_float),
      (''recv_buffer'', fld cf_RecvBuffer cf_RecvBuffer_update dec_int64),
      (''max_connections'', fld cf_MaxConnections cf_MaxConnections_update dec_int64),
      (''idle_timeout'', fld cf_IdleTimeout cf_IdleTimeout_update dec_int64),
      (''rate_limit'', fld cf_RateLimit cf_RateLimit_update dec_int64),
      (''worker_pool_size'', fld cf_WorkerPoolSize cf_WorkerPoolSize_update dec_int64),
      (''log_level'', fld cf_LogLevel cf_LogLevel_update dec_string),
      (''log_client_sni'', fld cf_LogClientSNI cf_LogClientSNI_update dec_bool),
      (''log_file'', fld cf_LogFile cf_LogFile_update dec_string),
      (''log_no_color'', fld cf_LogNoColor cf_LogNoColor_update dec_bool),
      (''stats_interval'', fld cf_StatsInterval cf_StatsInterval_update dec_int64),
      (''prometheus_enabled'', fld cf_PrometheusEnabled cf_PrometheusEnabled_update dec_bool),
      (''prometheus_addr'', fld cf_PrometheusAddr cf_PrometheusAddr_update dec_string),
      (''pprof_enabled'', fld cf_PprofEnabled cf_PprofEnabled_update dec_bool),
      (''pprof_addr'', fld cf_PprofAddr cf_PprofAddr_update dec_string),
      (''interface_ip'', fld cf_InterfaceIP cf_InterfaceIP_update dec_string),
      (''domain_probe_enabled'', fld cf_DomainProbeEnabled cf_DomainProbeEnabled_update dec_bool),
      (''domain_probe_interval'', fld cf_DomainProbeInterval cf_DomainProbeInterval_update dec_int64),
      (''domain_pool'', fld cf_DomainPool cf_DomainPool_update dec_strings),
      (''plugins'', fld cf_Plugins cf_Plugins_update dec_plugins)]"

definition json_unmarshal :: "bytes \<Rightarrow> Config \<Rightarrow> go_error + Config" where
  "json_unmarshal data c =
     (case json_parse (bytes_str data) of
        None \<Rightarrow> Inl [''json: syntax error'']
      | Some v \<Rightarrow> dec_struct Config_fields v c)"

section \<open>Encoding\<close>

text \<open>\<open>isnil\<close> says which empty slices and maps are nil: those are written as null. \<open>ff\<close> is how
  \<^verbatim>\<open>strconv\<close> writes a \<^verbatim>\<open>float64\<close>, the shortest text that reads back as the same value.\<close>

definition enc_strings :: "bool \<Rightarrow> string list \<Rightarrow> json" where
  "enc_strings isnil xs = (if xs = [] \<and> isnil then JNull else JArr (map JStr xs))"

definition enc_options :: "bool \<Rightarrow> (string \<times> string) list \<Rightarrow> json" where
  "enc_options isnil opts =
     (if opts = [] \<and> isnil then JNull
      else JObj (map (\<lambda>(k, v). (k, JStr v)) (sort_key fst opts)))"

fun enc_plugins :: "(nat \<Rightarrow> bool) \<Rightarrow> PluginConfig list \<Rightarrow> json list" where
  "enc_plugins isnil [] = []"
| "enc_plugins isnil (p # ps) =
     JObj [(''name'', JStr (pc_Name p)), (''path'', JStr (pc_Path p)),
       (''options'', enc_options (isnil 0) (pc_Options p))] # enc_plugins (\<lambda>i. isnil (Suc i)) ps"

definition enc_int :: "int \<Rightarrow> json" where "enc_int n = JNum (dec_int n)"

definition cfg_members ::
  "(real \<Rightarrow> string) \<Rightarrow> (string \<Rightarrow> nat \<Rightarrow> bool) \<Rightarrow> cfgOut \<Rightarrow> (string \<times> json) list" where
  "cfg_members ff isnil out =
     [(''listen_host'', JStr (co_ListenHost out)),
      (''listen_port'', enc_int (co_ListenPort out)),
      (''connect_ip'', JStr (co_ConnectIP out)),
      (''connect_port'', enc_int (co_ConnectPort out)),
      (''bypass_method'', JStr (co_BypassMethod out)),
      (''fake_sni'', JStr (co_FakeSNI out)),
      (''fake_sni_pool'', enc_strings (isnil ''fake_sni_pool'' 0) (co_FakeSNIPool out)),
      (''browser_profile'', JStr (co_BrowserProfile out)),
      (''ttl_spoof'', JBool (co_TTLSpoof out)),
      (''fragment_size'', enc_int (co_FragmentSize out)),
      (''fake_delay_ms'', JNum (ff (co_FakeDelayMs out))),
      (''min_delay_ms'', JNum (ff (co_MinDelayMs out))),
      (''max_delay_ms'', JNum (ff (co_MaxDelayMs out))),
      (''bypass_timeout'', JNum (ff (co_BypassTimeout out))),
      (''connect_timeout'', JNum (ff (co_ConnectTimeout out))),
      (''read_timeout'', JNum (ff (co_ReadTimeout out))),
      (''write_timeout'', JNum (ff (co_WriteTimeout out))),
      (''jitter_ms'', JNum (ff (co_JitterMs out))),
      (''retry_limit'', enc_int (co_RetryLimit out)),
      (''retry_base_ms'', JNum (ff (co_RetryBaseMs out))),
      (''retry_max_ms'', JNum (ff (co_RetryMaxMs out))),
      (''circuit_breaker_threshold'', enc_int (co_CircuitBreakerThreshold out)),
      (''circuit_breaker_cooldown'', JNum (ff (co_CircuitBreakerCooldown out))),
      (''recv_buffer'', enc_int (co_RecvBuffer out)),
      (''max_connections'', enc_int (co_MaxConnections out)),
      (''idle_timeout'', enc_int (co_IdleTimeout out)),
      (''rate_limit'', enc_int (co_RateLimit out)),
      (''worker_pool_size'', enc_int (co_WorkerPoolSize out)),
      (''log_level'', JStr (co_LogLevel out)),
      (''log_client_sni'', JBool (co_LogClientSNI out)),
      (''log_file'', JStr (co_LogFile out)),
      (''log_no_color'', JBool (co_LogNoColor out)),
      (''stats_interval'', enc_int (co_StatsInterval out)),
      (''prometheus_enabled'', JBool (co_PrometheusEnabled out)),
      (''prometheus_addr'', JStr (co_PrometheusAddr out)),
      (''pprof_enabled'', JBool (co_PprofEnabled out)),
      (''pprof_addr'', JStr (co_PprofAddr out)),
      (''domain_probe_enabled'', JBool (co_DomainProbeEnabled out)),
      (''domain_probe_interval'', enc_int (co_DomainProbeInterval out)),
      (''domain_pool'', enc_strings (isnil ''domain_pool'' 0) (co_DomainPool out)),
      (''plugins'', JArr (enc_plugins (isnil ''options'') (co_Plugins out)))]"

definition json_marshal ::
  "(real \<Rightarrow> string) \<Rightarrow> (string \<Rightarrow> nat \<Rightarrow> bool) \<Rightarrow> cfgOut \<Rightarrow> go_error + bytes" where
  "json_marshal ff isnil out =
     Inr (str_bytes (print_json 0 (JObj (cfg_members ff isnil out))))"

section \<open>What can be written and read back\<close>

definition int64 :: "int \<Rightarrow> bool" where "int64 n \<longleftrightarrow> - (2 ^ 63) \<le> n \<and> n < 2 ^ 63"

definition float_ok :: "(real \<Rightarrow> string) \<Rightarrow> real \<Rightarrow> bool" where
  "float_ok ff x \<longleftrightarrow>
     number_text (ff x) \<and> json_real (ff x) = Some x \<and> \<bar>x\<bar> < 2 ^ 1024 - 2 ^ 970"

text \<open>The keys of a map are in the order \<^verbatim>\<open>Marshal\<close> writes them in.\<close>

definition plugin_ok :: "PluginConfig \<Rightarrow> bool" where
  "plugin_ok p \<longleftrightarrow>
     ascii (pc_Name p) \<and> ascii (pc_Path p) \<and> sorted (map fst (pc_Options p)) \<and>
     distinct (map fst (pc_Options p)) \<and> list_all (\<lambda>(k, v). ascii k \<and> ascii v) (pc_Options p)"

definition out_ok :: "(real \<Rightarrow> string) \<Rightarrow> cfgOut \<Rightarrow> bool" where
  "out_ok ff out \<longleftrightarrow>
     list_all ascii [co_ListenHost out, co_ConnectIP out, co_BypassMethod out, co_FakeSNI out,
       co_BrowserProfile out, co_LogLevel out, co_LogFile out, co_PrometheusAddr out, co_PprofAddr out] \<and>
     list_all ascii (co_FakeSNIPool out) \<and> list_all ascii (co_DomainPool out) \<and>
     list_all int64 [co_ListenPort out, co_ConnectPort out, co_FragmentSize out, co_RetryLimit out,
       co_CircuitBreakerThreshold out, co_RecvBuffer out, co_MaxConnections out, co_IdleTimeout out,
       co_RateLimit out, co_WorkerPoolSize out, co_StatsInterval out, co_DomainProbeInterval out] \<and>
     list_all (float_ok ff) [co_FakeDelayMs out, co_MinDelayMs out, co_MaxDelayMs out,
       co_BypassTimeout out, co_ConnectTimeout out, co_ReadTimeout out, co_WriteTimeout out,
       co_JitterMs out, co_RetryBaseMs out, co_RetryMaxMs out, co_CircuitBreakerCooldown out] \<and>
     list_all plugin_ok (co_Plugins out)"

subsection \<open>Integers\<close>

lemma is_digit_dec: "c \<in> set (dec n) \<Longrightarrow> is_digit c"
  using dec_digits [of c n] by (simp add: is_digit_def)

lemma dec_digits_all: "list_all is_digit (dec n)"
  by (simp add: list_all_iff is_digit_dec)

lemma dec_nonempty: "dec n \<noteq> []"
  by (subst dec.simps) simp

lemma dec_first: "dec n = c # t \<Longrightarrow> c = CHR ''0'' \<Longrightarrow> t = []"
proof (induction n arbitrary: t rule: dec.induct)
  case (1 n)
  show ?case
  proof (cases "n < 10")
    case True
    then show ?thesis using 1(2) by (simp add: dec.simps [of n])
  next
    case False
    obtain u where u: "dec (n div 10) = c # u" "t = u @ [char_of (48 + n mod 10)]"
      using 1(2) dec_nonempty [of "n div 10"] False by (cases "dec (n div 10)") (auto simp: dec.simps [of n])
    then have "u = []" using 1 False by blast
    then have "undec (dec (n div 10)) = 0" using u(1) 1(3) by (simp add: undec_def)
    then show ?thesis using False by simp
  qed
qed

lemma takeWhile_digits [simp]: "takeWhile is_digit (dec n) = dec n"
  by (simp add: takeWhile_eq_all_conv is_digit_dec)

lemma dropWhile_digits [simp]: "dropWhile is_digit (dec n) = []"
  by (simp add: is_digit_dec)

lemma read_int_dec: "read_int (dec n) = Some (dec n, [])"
proof -
  obtain c t where c: "dec n = c # t" using dec_nonempty [of n] by (cases "dec n") auto
  have "is_digit c" using is_digit_dec [of c n] c by simp
  then show ?thesis
    using dec_first [OF c] takeWhile_digits [of n] dropWhile_digits [of n] by (simp add: read_int_def c)
qed

lemma dec_not_minus: "hd (dec n) \<noteq> CHR ''-''"
  using is_digit_dec [of "hd (dec n)" n] dec_nonempty [of n] by (auto simp: is_digit_def)

lemma number_text_dec_int: "number_text (dec_int n)"
  using dec_not_minus [of "nat n"]
  by (simp add: number_text_def read_number_def dec_int_def read_int_dec read_frac_def read_exp_def dec_nonempty)

lemma ParseInt_dec_int:
  assumes "int64 n" shows "ParseInt (dec_int n) = Some n"
  using assms dec_not_minus [of "nat n"] dec_digits_all [of "nat n"] dec_digits_all [of "nat (- n)"]
  by (auto simp: ParseInt_def dec_int_def Let_def digits_value_def int64_def dec_nonempty)

subsection \<open>Values\<close>

lemma dec_scalars [simp]:
  "dec_string (JStr s) so = Inr s" "dec_bool (JBool b) bo = Inr b"
  "int64 n \<Longrightarrow> dec_int64 (enc_int n) no = Inr n"
  "float_ok ff x \<Longrightarrow> dec_float (JNum (ff x)) xo = Inr x"
  by (simp_all add: dec_string_def dec_bool_def dec_int64_def enc_int_def ParseInt_dec_int
      dec_float_def float_ok_def)

lemma dec_strings_enc [simp]: "dec_strings (enc_strings b xs) old = Inr xs"
proof -
  have "dec_elems dec_string z old (map JStr xs) = Inr xs" for z
    by (induction xs arbitrary: old) simp_all
  then show ?thesis by (simp add: dec_strings_def enc_strings_def dec_slice_def)
qed

lemma AList_update_new: "k \<notin> fst ` set m \<Longrightarrow> AList.update k v m = m @ [(k, v)]"
  by (induction m) auto

lemma dec_entries_enc:
  "distinct (map fst (m @ opts)) \<Longrightarrow>
     dec_entries (map (\<lambda>(k, v). (k, JStr v)) opts) m = Inr (m @ opts)"
  by (induction opts arbitrary: m) (auto simp: AList_update_new)

lemma dec_options_enc [simp]:
  "sorted (map fst opts) \<Longrightarrow> distinct (map fst opts) \<Longrightarrow> dec_options (enc_options b opts) [] = Inr opts"
  using dec_entries_enc [of "[]" opts] by (simp add: dec_options_def enc_options_def sorted_sort_id sort_key_id_if_sorted)

lemma dec_plugins_enc [simp]:
  "list_all plugin_ok ps \<Longrightarrow> dec_plugins (JArr (enc_plugins b ps)) [] = Inr ps"
proof -
  have one: "dec_struct PluginConfig_fields (JObj [(''name'', JStr (pc_Name p)), (''path'', JStr (pc_Path p)),
       (''options'', enc_options b (pc_Options p))]) \<lparr>pc_Name = [], pc_Path = [], pc_Options = []\<rparr> = Inr p"
    if "plugin_ok p" for p b
    using that
    by (simp add: plugin_ok_def dec_struct_def PluginConfig_fields_def find_field_def fld_def)
  have "dec_elems (dec_struct PluginConfig_fields) \<lparr>pc_Name = [], pc_Path = [], pc_Options = []\<rparr> []
      (enc_plugins b ps) = Inr ps" if "list_all plugin_ok ps" for b
    using that by (induction ps arbitrary: b) (simp_all add: one)
  then show "list_all plugin_ok ps \<Longrightarrow> dec_plugins (JArr (enc_plugins b ps)) [] = Inr ps"
    by (simp add: dec_plugins_def dec_slice_def)
qed

subsection \<open>The configuration\<close>

lemma dec_fields_append:
  "dec_fields fs (ms @ ns) c =
     (case dec_fields fs ms c of Inl e \<Rightarrow> Inl e | Inr c \<Rightarrow> dec_fields fs ns c)"
  by (induction fs ms c rule: dec_fields.induct) (auto split: option.splits sum.splits)

text \<open>The fields written are looked up one by one in the table.\<close>

lemma find_Config_field:
  "(k, d) \<in> set Config_fields \<Longrightarrow> find_field Config_fields k = Some d"
proof -
  have "distinct (map fst Config_fields)" by (simp add: Config_fields_def)
  then show "(k, d) \<in> set Config_fields \<Longrightarrow> find_field Config_fields k = Some d"
    by (simp add: find_field_def map_of_is_SomeI)
qed

lemma Config_field_names:
  "find_field Config_fields ''listen_host'' = Some (fld cf_ListenHost cf_ListenHost_update dec_string)"
  "find_field Config_fields ''listen_port'' = Some (fld cf_ListenPort cf_ListenPort_update dec_int64)"
  "find_field Config_fields ''connect_ip'' = Some (fld cf_ConnectIP cf_ConnectIP_update dec_string)"
  "find_field Config_fields ''connect_port'' = Some (fld cf_ConnectPort cf_ConnectPort_update dec_int64)"
  "find_field Config_fields ''bypass_method'' = Some (fld cf_BypassMethod cf_BypassMethod_update dec_string)"
  "find_field Config_fields ''fake_sni'' = Some (fld cf_FakeSNI cf_FakeSNI_update dec_string)"
  "find_field Config_fields ''fake_sni_pool'' = Some (fld cf_FakeSNIPool cf_FakeSNIPool_update dec_strings)"
  "find_field Config_fields ''browser_profile'' = Some (fld cf_BrowserProfile cf_BrowserProfile_update dec_string)"
  "find_field Config_fields ''ttl_spoof'' = Some (fld cf_TTLSpoof cf_TTLSpoof_update dec_bool)"
  "find_field Config_fields ''fragment_size'' = Some (fld cf_FragmentSize cf_FragmentSize_update dec_int64)"
  "find_field Config_fields ''fake_delay_ms'' = Some (fld cf_FakeDelayMs cf_FakeDelayMs_update dec_float)"
  "find_field Config_fields ''min_delay_ms'' = Some (fld cf_MinDelayMs cf_MinDelayMs_update dec_float)"
  "find_field Config_fields ''max_delay_ms'' = Some (fld cf_MaxDelayMs cf_MaxDelayMs_update dec_float)"
  "find_field Config_fields ''bypass_timeout'' = Some (fld cf_BypassTimeout cf_BypassTimeout_update dec_float)"
  "find_field Config_fields ''connect_timeout'' = Some (fld cf_ConnectTimeout cf_ConnectTimeout_update dec_float)"
  "find_field Config_fields ''read_timeout'' = Some (fld cf_ReadTimeout cf_ReadTimeout_update dec_float)"
  "find_field Config_fields ''write_timeout'' = Some (fld cf_WriteTimeout cf_WriteTimeout_update dec_float)"
  "find_field Config_fields ''jitter_ms'' = Some (fld cf_JitterMs cf_JitterMs_update dec_float)"
  "find_field Config_fields ''retry_limit'' = Some (fld cf_RetryLimit cf_RetryLimit_update dec_int64)"
  "find_field Config_fields ''retry_base_ms'' = Some (fld cf_RetryBaseMs cf_RetryBaseMs_update dec_float)"
  "find_field Config_fields ''retry_max_ms'' = Some (fld cf_RetryMaxMs cf_RetryMaxMs_update dec_float)"
  "find_field Config_fields ''circuit_breaker_threshold'' = Some (fld cf_CircuitBreakerThreshold cf_CircuitBreakerThreshold_update dec_int64)"
  "find_field Config_fields ''circuit_breaker_cooldown'' = Some (fld cf_CircuitBreakerCooldownS cf_CircuitBreakerCooldownS_update dec_float)"
  "find_field Config_fields ''recv_buffer'' = Some (fld cf_RecvBuffer cf_RecvBuffer_update dec_int64)"
  "find_field Config_fields ''max_connections'' = Some (fld cf_MaxConnections cf_MaxConnections_update dec_int64)"
  "find_field Config_fields ''idle_timeout'' = Some (fld cf_IdleTimeout cf_IdleTimeout_update dec_int64)"
  "find_field Config_fields ''rate_limit'' = Some (fld cf_RateLimit cf_RateLimit_update dec_int64)"
  "find_field Config_fields ''worker_pool_size'' = Some (fld cf_WorkerPoolSize cf_WorkerPoolSize_update dec_int64)"
  "find_field Config_fields ''log_level'' = Some (fld cf_LogLevel cf_LogLevel_update dec_string)"
  "find_field Config_fields ''log_client_sni'' = Some (fld cf_LogClientSNI cf_LogClientSNI_update dec_bool)"
  "find_field Config_fields ''log_file'' = Some (fld cf_LogFile cf_LogFile_update dec_string)"
  "find_field Config_fields ''log_no_color'' = Some (fld cf_LogNoColor cf_LogNoColor_update dec_bool)"
  "find_field Config_fields ''stats_interval'' = Some (fld cf_StatsInterval cf_StatsInterval_update dec_int64)"
  "find_field Config_fields ''prometheus_enabled'' = Some (fld cf_PrometheusEnabled cf_PrometheusEnabled_update dec_bool)"
  "find_field Config_fields ''prometheus_addr'' = Some (fld cf_PrometheusAddr cf_PrometheusAddr_update dec_string)"
  "find_field Config_fields ''pprof_enabled'' = Some (fld cf_PprofEnabled cf_PprofEnabled_update dec_bool)"
  "find_field Config_fields ''pprof_addr'' = Some (fld cf_PprofAddr cf_PprofAddr_update dec_string)"
  "find_field Config_fields ''domain_probe_enabled'' = Some (fld cf_DomainProbeEnabled cf_DomainProbeEnabled_update dec_bool)"
  "find_field Config_fields ''domain_probe_interval'' = Some (fld cf_DomainProbeInterval cf_DomainProbeInterval_update dec_int64)"
  "find_field Config_fields ''domain_pool'' = Some (fld cf_DomainPool cf_DomainPool_update dec_strings)"
  "find_field Config_fields ''plugins'' = Some (fld cf_Plugins cf_Plugins_update dec_plugins)"
  by (rule find_Config_field, simp add: Config_fields_def)+

lemma dec_cfg_members:
  assumes "out_ok ff out" and "cf_Plugins c = []"
  shows "dec_fields Config_fields (cfg_members ff isnil out) c = Inr (read_back out c)"
  using assms unfolding cfg_members_def out_ok_def
  by (simp add: Config_field_names fld_def read_back_def)

lemma ascii_Nil [simp]: "ascii []"
  and ascii_Cons [simp]: "ascii (c # s) \<longleftrightarrow> (of_char c :: nat) < 128 \<and> ascii s"
  by (simp_all add: ascii_def)

lemma enc_ok [simp]:
  "list_all ascii xs \<Longrightarrow> json_ok (enc_strings b xs)"
  "json_ok (enc_int n)"
  "float_ok ff x \<Longrightarrow> number_text (ff x)"
  by (simp_all add: enc_strings_def enc_int_def number_text_dec_int float_ok_def list_all_iff)

lemma enc_plugins_ok: "list_all plugin_ok ps \<Longrightarrow> list_all json_ok (enc_plugins b ps)"
  by (induction ps arbitrary: b) (auto simp: plugin_ok_def enc_options_def list_all_iff)

lemma cfg_members_ok:
  assumes "out_ok ff out"
  shows "json_ok (JObj (cfg_members ff isnil out))"
  using assms by (simp add: out_ok_def cfg_members_def enc_plugins_ok)

subsection \<open>No carriage return\<close>

lemma read_number_chars:
  assumes "read_number s = Some (t, r)"
  shows "CHR 0x0D \<notin> set t"
proof -
  have d: "CHR 0x0D \<notin> set (takeWhile is_digit u)" for u
    using set_takeWhileD [of "CHR 0x0D" is_digit u] by (auto simp: is_digit_def)
  have i: "CHR 0x0D \<notin> set t" if "read_int s = Some (t, r)" for s t r
    using that d [of s] by (auto simp: read_int_def split: list.splits if_splits)
  have ds: "CHR 0x0D \<notin> set t" if "read_digits s = Some (t, r)" for s t r
    using that d [of s] by (auto simp: read_digits_def split: if_splits)
  have f: "CHR 0x0D \<notin> set t" if "read_frac s = Some (t, r)" for s t r
    using that by (auto simp: read_frac_def split: list.splits if_splits dest: ds)
  have e: "CHR 0x0D \<notin> set t" if "read_exp s = Some (t, r)" for s t r
    using that
    by (auto simp: read_exp_def read_sign_def split: list.splits if_splits prod.splits dest: ds)
  from assms show ?thesis
    by (auto simp: read_number_def Let_def bind_eq_Some_conv split: if_splits dest: i f e)
qed

lemma write_char_no_CR: "(of_char c :: nat) < 128 \<Longrightarrow> CHR 0x0D \<notin> set (write_char c)"
proof -
  have "CHR 0x0D \<noteq> hex_digit n" if "n < 16" for n
  proof
    assume "CHR 0x0D = hex_digit n"
    then have "is_hex (CHR 0x0D)" using hex_digit_value [OF that] by simp
    then show False by (simp add: is_hex_def)
  qed
  then show "(of_char c :: nat) < 128 \<Longrightarrow> CHR 0x0D \<notin> set (write_char c)"
    by (auto simp: write_char_def Let_def)
qed

lemma write_string_no_CR: "ascii s \<Longrightarrow> CHR 0x0D \<notin> set (write_string s)"
proof (induction s)
  case (Cons c s)
  then show ?case using write_char_no_CR [of c] by (simp add: write_string.simps [of "c # s"])
qed (simp add: write_string.simps [of "[]"])

lemma print_no_CR:
  "json_ok v \<Longrightarrow> CHR 0x0D \<notin> set (print_json d v)"
  "list_all json_ok vs \<Longrightarrow> CHR 0x0D \<notin> set (print_elems d vs)"
  "list_all (\<lambda>(k, v). ascii k \<and> json_ok v) ms \<Longrightarrow> CHR 0x0D \<notin> set (print_members d ms)"
  by (induction d v and d vs and d ms rule: print_json_print_elems_print_members.induct)
    (auto simp: json_quote_def new_line_def write_string_no_CR number_text_def dest: read_number_chars)

lemma byte_13: "(13 :: byte) = word_of_nat (of_char c) \<longleftrightarrow> CHR 0x0D = c"
proof -
  have "unat (13 :: byte) = of_char (CHR 0x0D)" by simp
  then have "(13 :: byte) = word_of_nat (of_char c) \<longleftrightarrow> of_char (CHR 0x0D) = (of_char c :: nat)"
    unfolding word_unat_eq_iff unat_byte_of_char by (simp only:)
  then show ?thesis by (simp only: of_char_eq_iff)
qed

lemma str_bytes_CR: "13 \<in> set (str_bytes s) \<longleftrightarrow> CHR 0x0D \<in> set s"
  unfolding str_bytes_def by (induction s) (simp_all only: list.map list.set insert_iff empty_iff byte_13)

lemma json_codec:
  assumes "out_ok ff out"
  shows "json_law (json_marshal ff isnil) json_unmarshal out"
proof -
  define v where "v = JObj (cfg_members ff isnil out)"
  have "json_ok v" unfolding v_def by (rule cfg_members_ok [OF assms])
  then have p: "json_parse (print_json 0 v) = Some v" "13 \<notin> set (str_bytes (print_json 0 v))"
    by (simp_all add: json_parse_print print_no_CR(1) str_bytes_CR)
  have "cf_Plugins Default = []" by (simp add: Default_def)
  then have "dec_struct Config_fields v Default = Inr (read_back out Default)"
    unfolding v_def dec_struct_def by (simp add: dec_cfg_members [OF assms])
  with p show ?thesis
    unfolding json_law_def json_marshal_def json_unmarshal_def v_def [symmetric] by simp
qed

section \<open>Writing a configuration and loading it\<close>

text \<open>A configuration the codec can carry: ASCII strings, integers and floats in range.\<close>

definition writable :: "(real \<Rightarrow> string) \<Rightarrow> Config \<Rightarrow> bool" where
  "writable ff c \<longleftrightarrow> out_ok ff (cfg_out c)"

text \<open>C16. What is lost between writing a configuration and loading it. \<^verbatim>\<open>writeCfg\<close> marshals
  its 41 fields to indented JSON; \<^verbatim>\<open>Load\<close> parses those bytes and decodes them over the defaults.
  For a valid configuration of ASCII strings the result is the same configuration but for the two
  fields \<^verbatim>\<open>writeCfg\<close> does not write: the local interface is gone, and the list of endpoints becomes
  the single endpoint \<open>connect_ip:connect_port\<close>. A valid configuration without \<open>connect_ip\<close>, one
  that lists its endpoints, is written without an error and can then not be loaded at all. (\<open>ff\<close> is
  the text of a float, of which only is asked that it reads back as the float.)\<close>

theorem written_config_loads:
  assumes "writeCfg (json_marshal ff isnil) wr c = (None, Some data)" and "writable ff c"
    and "le_json env = json_unmarshal"
    and "le_read env path = Inr data" and "\<not> is_yaml path" and "\<forall>v. le_getenv env v = []"
    and "config_ok (le_parse_ip env) c"
  shows "Load env path =
    (if cf_ConnectIP c = []
     then (Some [''config: connect_ip or endpoints required''],
           Some (c\<lparr>cf_Endpoints := [], cf_InterfaceIP := []\<rparr>))
     else (None, Some (c\<lparr>cf_InterfaceIP := [],
       cf_Endpoints := [\<lparr>ce_IP = cf_ConnectIP c, ce_Port = cf_ConnectPort c, ce_Weight = 1\<rparr>]\<rparr>)))"
  using assms(2) json_codec [of ff "cfg_out c" isnil]
  by (intro Load_of_written [OF assms(1) _ assms(4-7)]) (simp_all add: writable_def assms(3))

text \<open>The floats of the defaults as \<^verbatim>\<open>strconv\<close> writes them.\<close>

definition sample_ff :: "real \<Rightarrow> string" where
  "sample_ff x = (if x = 1 / 2 then ''0.5'' else dec (nat \<lfloor>x\<rfloor>))"

lemma json_real_dec: "json_real (dec n) = Some (real n)"
  using dec_not_minus [of n] dec_nonempty [of n]
  by (simp add: json_real_def read_int_dec read_frac_def read_exp_def read_sign_def Let_def undec_def
      [of "[]"])

lemma sample_float: "real n < 2 ^ 1024 - 2 ^ 970 \<Longrightarrow> float_ok sample_ff (real n)"
proof -
  have "real n \<noteq> 1 / 2"
  proof
    assume "real n = 1 / 2"
    then have "real (2 * n) = real 1" by simp
    then have "2 * n = 1" unfolding of_nat_eq_iff .
    then show False by presburger
  qed
  moreover have "number_text (dec n)" using number_text_dec_int [of "int n"] by simp
  ultimately show "real n < 2 ^ 1024 - 2 ^ 970 \<Longrightarrow> float_ok sample_ff (real n)"
    unfolding float_ok_def sample_ff_def by (simp add: json_real_dec)
qed

lemma sample_half: "float_ok sample_ff (1 / 2)"
  by (simp add: float_ok_def sample_ff_def number_text_def read_number_def json_real_def read_int_def
      read_frac_def read_exp_def read_digits_def read_sign_def is_digit_def undec_def)

text \<open>Two endpoints and no \<open>connect_ip\<close>.\<close>

definition two_endpoints :: Config where
  "two_endpoints = Default\<lparr>cf_Endpoints :=
     [\<lparr>ce_IP = ''1.2.3.4'', ce_Port = 443, ce_Weight = 1\<rparr>, \<lparr>ce_IP = ''1.2.3.4'', ce_Port = 444, ce_Weight = 2\<rparr>]\<rparr>"

lemma two_endpoints_ok: "config_ok sample_parse_ip two_endpoints"
  by (simp add: config_ok_def two_endpoints_def fields_ok_def Default_def endpoint_ok_def
      sample_parse_ip_def)

lemma sample_floats:
  "float_ok sample_ff 1" "(numeral k :: real) < 5001 \<Longrightarrow> float_ok sample_ff (numeral k)"
proof -
  show "float_ok sample_ff 1" using sample_float [of 1] by simp
  assume k: "(numeral k :: real) < 5001"
  have "(numeral k :: real) < 2 ^ 1024 - 2 ^ 970" by (rule less_trans [OF k]) simp
  then show "float_ok sample_ff (numeral k)" using sample_float [of "numeral k"] by simp
qed

lemma two_endpoints_writable: "writable sample_ff two_endpoints"
  using sample_half
  by (simp add: writable_def out_ok_def cfg_out_def two_endpoints_def Default_def int64_def sample_floats)

definition written_env :: "bytes \<Rightarrow> load_env" where
  "written_env data = (toy_env (cfg_out Default))\<lparr>le_read := (\<lambda>_. Inr data), le_json := json_unmarshal\<rparr>"

theorem written_config_loads_witness:
  "\<exists>data c'. writeCfg (json_marshal sample_ff (\<lambda>_ _. True)) (\<lambda>_. None) two_endpoints = (None, Some data) \<and>
     Load (written_env data) ''config.json'' =
       (Some [''config: connect_ip or endpoints required''], Some c')"
proof -
  let ?m = "json_marshal sample_ff (\<lambda>_ _. True)"
  obtain data where w: "writeCfg ?m (\<lambda>_. None) two_endpoints = (None, Some data)"
    by (auto simp: writeCfg_def json_marshal_def Let_def simp del: print_json.simps)
  have env: "le_json (written_env data) = json_unmarshal"
    "le_read (written_env data) ''config.json'' = Inr data"
    "\<forall>v. le_getenv (written_env data) v = []"
    "config_ok (le_parse_ip (written_env data)) two_endpoints"
    by (simp_all add: written_env_def toy_env_def two_endpoints_ok)
  have "cf_ConnectIP two_endpoints = []" by (simp add: two_endpoints_def Default_def)
  then show ?thesis
    using written_config_loads [OF w two_endpoints_writable env(1,2) json_path env(3,4)] w by simp
qed

end
