(* ===== verification/LoadTypes.thy ===== *)
theory LoadTypes
  imports ConfigJson
begin

text \<open>
  The machine types of a loaded configuration. \<open>Config\<close> has unbounded integers and reals where the
  code has \<^verbatim>\<open>int\<close> and \<^verbatim>\<open>float64\<close>; here it is shown that nothing \<^verbatim>\<open>Load\<close> does, with a
  JSON file and any environment, leaves their ranges.
\<close>

definition endpoint_typed :: "config_endpoint \<Rightarrow> bool" where
  "endpoint_typed e \<longleftrightarrow> int64 (ce_Port e) \<and> int64 (ce_Weight e)"

definition float64 :: "real \<Rightarrow> bool" where "float64 x \<longleftrightarrow> \<bar>x\<bar> < 2 ^ 1024 - 2 ^ 970"

definition config_typed :: "Config \<Rightarrow> bool" where
  "config_typed c \<longleftrightarrow>
     list_all int64 [cf_ListenPort c, cf_ConnectPort c, cf_FragmentSize c, cf_RetryLimit c,
       cf_CircuitBreakerThreshold c, cf_RecvBuffer c, cf_MaxConnections c, cf_IdleTimeout c,
       cf_RateLimit c, cf_WorkerPoolSize c, cf_StatsInterval c, cf_DomainProbeInterval c] \<and>
     list_all float64 [cf_FakeDelayMs c, cf_MinDelayMs c, cf_MaxDelayMs c, cf_BypassTimeout c,
       cf_ConnectTimeout c, cf_ReadTimeout c, cf_WriteTimeout c, cf_JitterMs c, cf_RetryBaseMs c,
       cf_RetryMaxMs c, cf_CircuitBreakerCooldownS c] \<and>
     list_all endpoint_typed (cf_Endpoints c)"

section \<open>Decoding\<close>

text \<open>A decoder keeps a property of its values.\<close>

definition keeps :: "('a \<Rightarrow> bool) \<Rightarrow> 'a decoder \<Rightarrow> bool" where
  "keeps P d \<longleftrightarrow> (\<forall>v x y. P x \<longrightarrow> d v x = Inr y \<longrightarrow> P y)"

lemma keepsI: "(\<And>v x y. P x \<Longrightarrow> d v x = Inr y \<Longrightarrow> P y) \<Longrightarrow> keeps P d"
  by (auto simp: keeps_def)

lemma keepsD: "keeps P d \<Longrightarrow> P x \<Longrightarrow> d v x = Inr y \<Longrightarrow> P y"
  by (auto simp: keeps_def)

lemma keeps_int64: "keeps int64 dec_int64"
proof (rule keepsI)
  fix v x y assume "int64 x" "dec_int64 v x = Inr y"
  then show "int64 y"
    by (auto simp: dec_int64_def ParseInt_def Let_def int64_def split: json.splits option.splits if_splits)
qed

lemma keeps_float: "keeps float64 dec_float"
proof (rule keepsI)
  fix v x y assume "float64 x" "dec_float v x = Inr y"
  then show "float64 y"
    unfolding dec_float_def float64_def
    by (cases v) (auto simp: type_error_def not_le split: option.splits if_splits)
qed

lemma keeps_any: "keeps (\<lambda>_. True) d"
  by (simp add: keeps_def)

lemma keeps_elems:
  assumes "keeps P d" "P z"
  shows "list_all P old \<Longrightarrow> dec_elems d z old vs = Inr xs \<Longrightarrow> list_all P xs"
proof (induction vs arbitrary: old xs)
  case (Cons v vs)
  have first: "P (case old of [] \<Rightarrow> z | x # _ \<Rightarrow> x)" using Cons.prems(1) assms(2) by (cases old) simp_all
  obtain x ys where x: "d v (case old of [] \<Rightarrow> z | x # _ \<Rightarrow> x) = Inr x"
      "dec_elems d z (drop 1 old) vs = Inr ys" "xs = x # ys"
    using Cons.prems(2) by (auto split: sum.splits)
  have "list_all P (drop 1 old)" using Cons.prems(1) by (cases old) simp_all
  then show ?case using Cons.IH [OF _ x(2)] keepsD [OF assms(1) first x(1)] x(3) by simp
qed simp

lemma keeps_slice:
  assumes "keeps P d" "P z"
  shows "keeps (list_all P) (dec_slice d z)"
  by (rule keepsI) (auto simp: dec_slice_def type_error_def split: json.splits dest: keeps_elems [OF assms])

text \<open>A field whose decoder keeps \<open>Q\<close>, when \<open>P\<close> says no more of the field than \<open>Q\<close>.\<close>

lemma keeps_fld:
  assumes "keeps Q d" "\<And>c. P c \<Longrightarrow> Q (get c)" "\<And>c x. P c \<Longrightarrow> Q x \<Longrightarrow> P (upd (\<lambda>_. x) c)"
  shows "keeps P (fld get upd d)"
  by (rule keepsI) (auto simp: fld_def split: sum.splits intro: assms(3) dest: keepsD [OF assms(1)] assms(2))

lemma list_all_mem: "list_all P xs \<Longrightarrow> x \<in> set xs \<Longrightarrow> P x"
  by (simp add: list_all_iff)

lemma keeps_fields:
  "list_all (\<lambda>(k, d). keeps P d) fs \<Longrightarrow> P c \<Longrightarrow> dec_fields fs ms c = Inr c' \<Longrightarrow> P c'"
proof (induction fs ms c rule: dec_fields.induct)
  case (2 fs k v ms c)
  show ?case
  proof (cases "find_field fs k")
    case None
    then show ?thesis using 2 by simp
  next
    case (Some d)
    obtain j where j: "(j, d) \<in> set fs"
      using Some unfolding find_field_def
      by (auto simp: find_Some_iff split: option.splits dest: map_of_SomeD intro: that) (metis nth_mem that)
    from list_all_mem [OF 2(3) j] have d: "keeps P d" by simp
    obtain c1 where c1: "d v c = Inr c1" "dec_fields fs ms c1 = Inr c'"
      using 2(5) Some by (auto split: sum.splits)
    show ?thesis using 2(2) [OF Some c1(1) 2(3) keepsD [OF d 2(4) c1(1)] c1(2)] .
  qed
qed simp

lemma keeps_struct:
  assumes "list_all (\<lambda>(k, d). keeps P d) fs"
  shows "keeps P (dec_struct fs)"
  by (rule keepsI)
    (auto simp: dec_struct_def type_error_def split: json.splits intro: keeps_fields [OF assms])

lemmas keep_fields = keeps_fld [OF keeps_any [of dec_string]] keeps_fld [OF keeps_any [of dec_bool]]
  keeps_fld [OF keeps_any [of dec_strings]] keeps_fld [OF keeps_any [of dec_plugins]]
  keeps_fld [OF keeps_int64] keeps_fld [OF keeps_float]

lemma keeps_endpoints: "keeps (list_all endpoint_typed) dec_endpoints"
  unfolding dec_endpoints_def
proof (rule keeps_slice, rule keeps_struct)
  show "list_all (\<lambda>(k, d). keeps endpoint_typed d) Endpoint_fields"
    unfolding Endpoint_fields_def list.pred_inject(2) prod.case
    by (intro conjI list.pred_inject(1);
        (rule keep_fields; simp add: endpoint_typed_def))
qed (simp add: endpoint_typed_def int64_def)

lemma keeps_config: "keeps config_typed (dec_struct Config_fields)"
proof (rule keeps_struct)
  show "list_all (\<lambda>(k, d). keeps config_typed d) Config_fields"
    unfolding Config_fields_def list.pred_inject(2) prod.case
    by (intro conjI list.pred_inject(1);
        (rule keep_fields keeps_fld [OF keeps_endpoints]; simp add: config_typed_def))
qed

lemma float64_small: "\<bar>x\<bar> < 5001 \<Longrightarrow> float64 x"
proof -
  have "(5001 :: real) < 2 ^ 1024 - 2 ^ 970" by simp
  then show "\<bar>x\<bar> < 5001 \<Longrightarrow> float64 x" unfolding float64_def by (rule less_trans [rotated])
qed

lemma Default_typed: "config_typed Default"
  by (simp add: config_typed_def Default_def int64_def float64_small)

lemma json_unmarshal_typed: "json_unmarshal data Default = Inr c \<Longrightarrow> config_typed c"
  unfolding json_unmarshal_def
  by (auto split: option.splits dest: keepsD [OF keeps_config Default_typed])

section \<open>Environment and validation\<close>

lemma scan_into_int64: "int64 x \<Longrightarrow> int64 (scan_into v x)"
  by (auto simp: scan_into_def Sscanf_d_def Let_def int64_def split: option.splits if_splits)

lemma applyEnvOverrides_typed: "config_typed c \<Longrightarrow> config_typed (applyEnvOverrides getenv c)"
  by (simp add: applyEnvOverrides_def Let_def config_typed_def scan_into_int64)

lemma validate_endpoints_typed:
  "list_all endpoint_typed eps \<Longrightarrow> list_all endpoint_typed (snd (validate_endpoints parse_ip lookup i eps))"
proof (induction parse_ip lookup i eps rule: validate_endpoints.induct)
  case (2 parse_ip lookup i ep eps)
  then show ?case
    by (auto simp: endpoint_typed_def int64_def Let_def split: option.splits prod.splits)
qed simp

lemma repair_fields_typed: "config_typed c \<Longrightarrow> config_typed (repair_fields c)"
  by (simp add: config_typed_def repair_fields_def Let_def float64_small int64_def)

lemma Validate_typed:
  assumes "config_typed c" shows "config_typed (snd (Validate parse_ip lookup c))"
proof -
  have eps: "config_typed (c\<lparr>cf_Endpoints := eps\<rparr>) \<longleftrightarrow> config_typed c"
    if "list_all endpoint_typed eps" "list_all endpoint_typed (cf_Endpoints c)" for eps and c :: Config
    using that by (simp add: config_typed_def)
  have ip: "config_typed (c\<lparr>cf_ConnectIP := ip\<rparr>) \<longleftrightarrow> config_typed c" for ip and c :: Config
    by (simp add: config_typed_def)
  have c: "list_all endpoint_typed (cf_Endpoints c)" if "config_typed c" for c
    using that by (simp add: config_typed_def)
  have one: "endpoint_typed \<lparr>ce_IP = i, ce_Port = cf_ConnectPort c, ce_Weight = 1\<rparr>"
    if "config_typed c" for i c
    using that by (simp add: config_typed_def endpoint_typed_def int64_def)
  define ce where "ce ip = (if cf_ConnectIP c = [] then c else c\<lparr>cf_ConnectIP := ip\<rparr>)" for ip
  have ce: "config_typed (ce ip)" for ip using assms by (simp add: ce_def ip)
  have v: "list_all endpoint_typed eps" if "validate_endpoints parse_ip lookup 0 (cf_Endpoints (ce ip)) = (e, eps)" for ip e eps
    using validate_endpoints_typed [OF c [OF ce], of parse_ip lookup 0 ip] that by simp
  have e: "config_typed ((ce ip)\<lparr>cf_Endpoints := eps\<rparr>)"
    if "validate_endpoints parse_ip lookup 0 (cf_Endpoints (ce ip)) = (e, eps)" for ip e eps
    using eps [OF v [OF that] c [OF ce]] ce by simp
  have r: "config_typed ((repair_fields x)\<lparr>cf_Endpoints := [\<lparr>ce_IP = i, ce_Port = cf_ConnectPort (repair_fields x), ce_Weight = 1\<rparr>]\<rparr>)"
    if "config_typed x" for x i
    using eps [OF _ c [OF repair_fields_typed [OF that]]] one [OF repair_fields_typed [OF that]]
      repair_fields_typed [OF that] by simp
  show ?thesis
    using assms unfolding Validate_def ce_def [symmetric] Let_def
    by (auto split: option.splits prod.splits simp: e r repair_fields_typed)
qed


text \<open>A file with a port and nothing else.\<close>

definition port_file :: bytes where
  "port_file = str_bytes (print_json 0 (JObj [(''listen_port'', JNum ''81'')]))"

lemma port_file_decodes: "json_unmarshal port_file Default = Inr (Default\<lparr>cf_ListenPort := 81\<rparr>)"
proof -
  have "json_ok (JObj [(''listen_port'', JNum ''81'')])"
    by (simp add: number_text_def read_number_def read_int_def read_frac_def read_exp_def is_digit_def)
  from json_parse_print [OF this]
  have "json_parse (bytes_str port_file) = Some (JObj [(''listen_port'', JNum ''81'')])"
    unfolding port_file_def bytes_str_str_bytes .
  then show ?thesis
    by (simp add: json_unmarshal_def dec_struct_def Config_field_names fld_def dec_int64_def
        ParseInt_def is_digit_def digits_value_def undec_def)
qed

lemma port_file_no_CR: "13 \<notin> set port_file"
  by (simp add: port_file_def str_bytes_CR json_quote_def new_line_def write_string_no_CR)


end
