(* ===== verification/Sockets.thy ===== *)
theory Sockets
  imports Adaptive
begin

text \<open>
  The raw sockets: \<^verbatim>\<open>NewRawInjector\<close> and \<^verbatim>\<open>Close\<close> of
  \<^verbatim>\<open>internal/bypass/packet_linux.go\<close>, the constructors of the three strategies and of the
  adaptive bypass (\<^verbatim>\<open>wrongseq.go\<close>, \<^verbatim>\<open>fragment.go\<close>, \<^verbatim>\<open>desync.go\<close>,
  \<^verbatim>\<open>adaptive.go\<close>), and the stubs of \<^verbatim>\<open>packet_other.go\<close>. The state is the list of the
  descriptors that are open; the kernel's answers are arguments.
\<close>

record sock_env =
  se_socket :: "nat \<Rightarrow> int list \<Rightarrow> go_error + int"
  se_setsockopt :: "nat \<Rightarrow> go_error option"

text \<open>\<open>so_calls\<close> counts the calls of \<^verbatim>\<open>Socket\<close>; the answer to a call may depend on what is open.\<close>

record sock_state =
  so_calls :: nat
  so_open :: "int list"

record RawInjector =
  ri_fd :: int

definition sys_close :: "int \<Rightarrow> sock_state \<Rightarrow> go_error option \<times> sock_state" where
  "sys_close fd st =
     (if fd \<in> set (so_open st) then (None, st\<lparr>so_open := remove1 fd (so_open st)\<rparr>)
      else (Some [''bad file descriptor''], st))"

section \<open>The injector\<close>

definition NewRawInjector :: "sock_env \<Rightarrow> sock_state \<Rightarrow> (go_error + RawInjector) \<times> sock_state" where
  "NewRawInjector env st =
     (let k = so_calls st; st = st\<lparr>so_calls := Suc k\<rparr>
      in case se_socket env k (so_open st) of
           Inl e \<Rightarrow> (Inl (wrap_error ''raw socket'' (e @ [''need CAP_NET_RAW or root''])), st)
         | Inr fd \<Rightarrow>
             (let st = st\<lparr>so_open := so_open st @ [fd]\<rparr>
              in case se_setsockopt env k of
                   Some e \<Rightarrow>
                     (let st = snd (sys_close fd st)
                      in (Inl (wrap_error ''raw socket IP_HDRINCL'' e), st))
                 | None \<Rightarrow> (Inr \<lparr>ri_fd = fd\<rparr>, st)))"

definition Injector_Close :: "RawInjector \<Rightarrow> sock_state \<Rightarrow> go_error option \<times> sock_state" where
  "Injector_Close r st = sys_close (ri_fd r) st"

section \<open>The strategies\<close>

text \<open>The three structs are the same: an injector and the two counters. \<^verbatim>\<open>NewRawInjector\<close> is the
  one of the build, an argument of the constructors.\<close>

type_synonym new_injector = "sock_state \<Rightarrow> (go_error + RawInjector) \<times> sock_state"

record strategy_obj =
  sb_injector :: RawInjector
  sb_stats :: bypass

definition NewWrongSeqBypass :: "new_injector \<Rightarrow> sock_state \<Rightarrow> (go_error + strategy_obj) \<times> sock_state" where
  "NewWrongSeqBypass new_inj st =
     (case new_inj st of
        (Inl e, st) \<Rightarrow> (Inl (wrap_error ''wrong_seq'' e), st)
      | (Inr ri, st) \<Rightarrow> (Inr \<lparr>sb_injector = ri, sb_stats = new_bypass\<rparr>, st))"

definition NewFragmentBypass :: "new_injector \<Rightarrow> sock_state \<Rightarrow> (go_error + strategy_obj) \<times> sock_state" where
  "NewFragmentBypass new_inj st =
     (case new_inj st of
        (Inl e, st) \<Rightarrow> (Inl (wrap_error ''fragment'' e), st)
      | (Inr ri, st) \<Rightarrow> (Inr \<lparr>sb_injector = ri, sb_stats = new_bypass\<rparr>, st))"

definition NewDesyncBypass :: "new_injector \<Rightarrow> sock_state \<Rightarrow> (go_error + strategy_obj) \<times> sock_state" where
  "NewDesyncBypass new_inj st =
     (case new_inj st of
        (Inl e, st) \<Rightarrow> (Inl (wrap_error ''desync'' e), st)
      | (Inr ri, st) \<Rightarrow> (Inr \<lparr>sb_injector = ri, sb_stats = new_bypass\<rparr>, st))"

text \<open>\<^verbatim>\<open>Close\<close> of each of the three.\<close>

definition WrongSeq_Close :: "strategy_obj \<Rightarrow> sock_state \<Rightarrow> go_error option \<times> sock_state" where
  "WrongSeq_Close b st = Injector_Close (sb_injector b) st"

definition Fragment_Close :: "strategy_obj \<Rightarrow> sock_state \<Rightarrow> go_error option \<times> sock_state" where
  "Fragment_Close b st = Injector_Close (sb_injector b) st"

definition Desync_Close :: "strategy_obj \<Rightarrow> sock_state \<Rightarrow> go_error option \<times> sock_state" where
  "Desync_Close b st = Injector_Close (sb_injector b) st"

section \<open>The adaptive bypass\<close>

text \<open>The sockets beside the state \<open>Adaptive\<close> works on.\<close>

record adaptive_obj =
  ao_wrongSeq :: strategy_obj
  ao_fragment :: strategy_obj
  ao_desync :: strategy_obj
  ao_cache :: lruCache
  ao_recorder :: "(string \<times> bool) list option"

definition NewAdaptiveBypass :: "new_injector \<Rightarrow> sock_state \<Rightarrow> (go_error + adaptive_obj) \<times> sock_state" where
  "NewAdaptiveBypass new_inj st =
     (case NewWrongSeqBypass new_inj st of
        (Inl e, st) \<Rightarrow> (Inl (wrap_error ''adaptive: wrong_seq'' e), st)
      | (Inr ws, st) \<Rightarrow>
          (case NewFragmentBypass new_inj st of
             (Inl e, st) \<Rightarrow>
               (let st = snd (WrongSeq_Close ws st)
                in (Inl (wrap_error ''adaptive: fragment'' e), st))
           | (Inr frag, st) \<Rightarrow>
               (case NewDesyncBypass new_inj st of
                  (Inl e, st) \<Rightarrow>
                    (let st = snd (WrongSeq_Close ws st);
                         st = snd (Fragment_Close frag st)
                     in (Inl (wrap_error ''adaptive: desync'' e), st))
                | (Inr desync, st) \<Rightarrow>
                    (Inr \<lparr>ao_wrongSeq = ws, ao_fragment = frag, ao_desync = desync,
                       ao_cache = newLRUCache 4096 (10 * 60 * Second), ao_recorder = None\<rparr>, st))))"

definition SetRecorder :: "(string \<times> bool) list \<Rightarrow> adaptive_obj \<Rightarrow> adaptive_obj" where
  "SetRecorder r a = a\<lparr>ao_recorder := Some r\<rparr>"

definition Adaptive_Close :: "adaptive_obj \<Rightarrow> sock_state \<Rightarrow> sock_state" where
  "Adaptive_Close a st =
     (let st = snd (WrongSeq_Close (ao_wrongSeq a) st);
          st = snd (Fragment_Close (ao_fragment a) st);
          st = snd (Desync_Close (ao_desync a) st)
      in st)"

text \<open>What the calls of \<open>Adaptive\<close> see of the object.\<close>

definition adaptive_view :: "adaptive_obj \<Rightarrow> lruCache adaptive" where
  "adaptive_view a =
     \<lparr>ad_wrongSeq = sb_stats (ao_wrongSeq a), ad_fragment = sb_stats (ao_fragment a),
      ad_desync = sb_stats (ao_desync a), ad_cache = ao_cache a, ad_recorder = ao_recorder a\<rparr>"

section \<open>Other systems\<close>

definition ErrNotSupported :: go_error where
  "ErrNotSupported = [''raw socket injection not supported on this platform (Linux only)'']"

definition Other_CraftPacket :: "PacketParams \<Rightarrow> go_error + bytes" where
  "Other_CraftPacket p = Inl ErrNotSupported"

definition Other_NewRawInjector :: "sock_state \<Rightarrow> (go_error + RawInjector) \<times> sock_state" where
  "Other_NewRawInjector st = (Inl ErrNotSupported, st)"

definition Other_Send :: "bytes \<Rightarrow> bytes \<Rightarrow> uint16 \<Rightarrow> go_error option" where
  "Other_Send packet dstIP dstPort = Some ErrNotSupported"

definition Other_Close :: "go_error option" where "Other_Close = None"

definition Other_RandomTTL :: "nat \<Rightarrow> nat \<Rightarrow> byte" where
  "Other_RandomTTL r1 r2 =
     (let bases = [64, 128 :: byte];
          base = bases ! (r1 mod length bases);
          hops = word_of_nat (r2 mod 8 + 1);
          hops = (if hops \<ge> base then base - 1 else hops)
      in base - hops)"

definition Other_RandomIPID :: "uint32 \<Rightarrow> uint16" where
  "Other_RandomIPID r = ucast r"

text \<open>Both are the draws of Linux.\<close>

lemma Other_draws: "Other_RandomTTL = RandomTTL" "Other_RandomIPID = RandomIPID"
  by (simp_all add: fun_eq_iff Other_RandomTTL_def RandomTTL_def commonTTLs_def Other_RandomIPID_def
      RandomIPID_def Let_def)

section \<open>No socket is lost\<close>

text \<open>What the kernel promises: a new descriptor is not open already.\<close>

definition fresh_fds :: "sock_env \<Rightarrow> bool" where
  "fresh_fds env \<longleftrightarrow> (\<forall>k opened fd. se_socket env k opened = Inr fd \<longrightarrow> fd \<notin> set opened)"

text \<open>A call of \<open>NewRawInjector\<close> gives an injector.\<close>

definition socket_ok :: "sock_env \<Rightarrow> sock_state \<Rightarrow> bool" where
  "socket_ok env st \<longleftrightarrow>
     \<not> isl (se_socket env (so_calls st) (so_open st)) \<and> se_setsockopt env (so_calls st) = None"

text \<open>The state after a call that succeeds, and after one that fails.\<close>

definition opened :: "int \<Rightarrow> sock_state \<Rightarrow> sock_state" where
  "opened fd st = st\<lparr>so_calls := Suc (so_calls st), so_open := so_open st @ [fd]\<rparr>"

definition missed :: "sock_state \<Rightarrow> sock_state" where
  "missed st = st\<lparr>so_calls := Suc (so_calls st)\<rparr>"

lemma opened_simps [simp]:
  "so_open (opened fd st) = so_open st @ [fd]" "so_open (missed st) = so_open st"
  by (simp_all add: opened_def missed_def)

text \<open>\<open>n\<close> calls in a row.\<close>

definition next_fd :: "sock_env \<Rightarrow> sock_state \<Rightarrow> int" where
  "next_fd env st = projr (se_socket env (so_calls st) (so_open st))"

fun sockets_ok :: "sock_env \<Rightarrow> nat \<Rightarrow> sock_state \<Rightarrow> bool" where
  "sockets_ok env 0 st = True"
| "sockets_ok env (Suc n) st \<longleftrightarrow>
     socket_ok env st \<and> sockets_ok env n (opened (next_fd env st) st)"

lemma NewRawInjector_fails:
  assumes "fresh_fds env" "\<not> socket_ok env st"
  shows "\<exists>e. NewRawInjector env st = (Inl e, missed st)"
proof (cases "se_socket env (so_calls st) (so_open st)")
  case (Inl e)
  then show ?thesis by (simp add: NewRawInjector_def Let_def missed_def)
next
  case (Inr fd)
  then have "fd \<notin> set (so_open st)" using assms(1) by (simp add: fresh_fds_def)
  with Inr assms(2) show ?thesis
    by (auto simp: NewRawInjector_def Let_def missed_def socket_ok_def sys_close_def remove1_append)
qed

lemma NewRawInjector_opens:
  assumes "fresh_fds env" "socket_ok env st"
  shows "next_fd env st \<notin> set (so_open st)"
    and "NewRawInjector env st = (Inr \<lparr>ri_fd = next_fd env st\<rparr>, opened (next_fd env st) st)"
proof -
  obtain fd where fd: "se_socket env (so_calls st) (so_open st) = Inr fd"
    using assms(2) by (cases "se_socket env (so_calls st) (so_open st)") (auto simp: socket_ok_def)
  then show "next_fd env st \<notin> set (so_open st)"
    using assms(1) by (simp add: fresh_fds_def next_fd_def)
  show "NewRawInjector env st = (Inr \<lparr>ri_fd = next_fd env st\<rparr>, opened (next_fd env st) st)"
    using fd assms(2) by (simp add: NewRawInjector_def Let_def opened_def socket_ok_def next_fd_def)
qed

lemmas constructors = NewWrongSeqBypass_def NewFragmentBypass_def NewDesyncBypass_def
lemmas closers = WrongSeq_Close_def Fragment_Close_def Desync_Close_def Injector_Close_def

lemma so_open_sys_close: "so_open (snd (sys_close fd st)) = remove1 fd (so_open st)"
  by (simp add: sys_close_def remove1_idem)

lemma adaptive_sockets_lemma:
  assumes "fresh_fds env"
  shows "case NewAdaptiveBypass (NewRawInjector env) st of
      (Inl e, st') \<Rightarrow> \<not> sockets_ok env 3 st \<and> so_open st' = so_open st
    | (Inr a, st') \<Rightarrow>
        sockets_ok env 3 st \<and>
        (\<exists>x y z. so_open st' = so_open st @ [x, y, z] \<and> distinct [x, y, z] \<and>
           {x, y, z} \<inter> set (so_open st) = {}) \<and>
        so_open (Adaptive_Close a st') = so_open st \<and>
        adaptive_view (SetRecorder r a) = newAdaptiveBypass (Some r)"
proof -
  let ?x = "next_fd env st" let ?s1 = "opened ?x st"
  let ?y = "next_fd env ?s1" let ?s2 = "opened ?y ?s1"
  note fails = NewRawInjector_fails [OF assms] and opens = NewRawInjector_opens [OF assms]
  note defs = NewAdaptiveBypass_def constructors closers Let_def so_open_sys_close numeral_3_eq_3
  show ?thesis
  proof (cases "socket_ok env st")
    case False
    then show ?thesis using fails [of st] by (auto simp: defs)
  next
    case s0: True
    note x = opens [OF s0]
    show ?thesis
    proof (cases "socket_ok env ?s1")
      case False
      then show ?thesis using fails [of ?s1] x s0 by (auto simp: defs remove1_append)
    next
      case s1: True
      note y = opens [OF s1]
      show ?thesis
      proof (cases "socket_ok env ?s2")
        case False
        then show ?thesis using fails [of ?s2] x y s0 s1 by (auto simp: defs remove1_append)
      next
        case s2: True
        note z = opens [OF s2]
        show ?thesis
          using x y z s0 s1 s2
          by (auto simp: defs remove1_append Adaptive_Close_def adaptive_view_def SetRecorder_def
              newAdaptiveBypass_def)
      qed
    qed
  qed
qed

text \<open>C21. No raw socket is lost. When the kernel gives descriptors that are not open already,
  \<^verbatim>\<open>NewAdaptiveBypass\<close> fails exactly when one of its three injectors cannot be opened, and
  then every socket it opened before, the one whose option was refused included, is closed again: the
  open descriptors are those of before the call. When it succeeds three different new descriptors are
  open, the strategies start from the state the other properties start from, and \<^verbatim>\<open>Close\<close> gives
  all three back.\<close>

theorem adaptive_sockets:
  assumes "fresh_fds env"
  shows "case NewAdaptiveBypass (NewRawInjector env) st of
      (Inl e, st') \<Rightarrow> \<not> sockets_ok env 3 st \<and> so_open st' = so_open st
    | (Inr a, st') \<Rightarrow>
        sockets_ok env 3 st \<and>
        (\<exists>x y z. so_open st' = so_open st @ [x, y, z] \<and> distinct [x, y, z] \<and>
           {x, y, z} \<inter> set (so_open st) = {}) \<and>
        so_open (Adaptive_Close a st') = so_open st \<and>
        adaptive_view (SetRecorder r a) = newAdaptiveBypass (Some r)"
  by (rule adaptive_sockets_lemma [OF assms])

text \<open>A kernel that gives the next number each time, and refuses the option of the third socket.\<close>

definition sample_sockets :: sock_env where
  "sample_sockets =
     \<lparr>se_socket = (\<lambda>k opened. Inr (fold max opened 2 + 1)),
      se_setsockopt = (\<lambda>k. if k = 2 then Some [''operation not permitted''] else None)\<rparr>"

lemma sample_sockets_fresh: "fresh_fds sample_sockets"
proof -
  have "fold max l m \<ge> m \<and> (\<forall>x \<in> set l. x \<le> fold max l m)" for l and m :: int
    by (induction l arbitrary: m) (auto, meson max.bounded_iff order_trans, metis max.bounded_iff)
  then have "fold max l m + 1 \<notin> set l" for l and m :: int by (meson zle_add1_eq_le less_irrefl)
  then show ?thesis by (simp add: fresh_fds_def sample_sockets_def)
qed

theorem adaptive_sockets_witness:
  "\<exists>e st'. NewAdaptiveBypass (NewRawInjector sample_sockets) \<lparr>so_calls = 0, so_open = [7]\<rparr> = (Inl e, st') \<and>
     so_open st' = [7]"
proof -
  let ?st = "\<lparr>so_calls = 0, so_open = [7]\<rparr>"
  have "\<not> sockets_ok sample_sockets 3 ?st"
    by (simp add: numeral_3_eq_3 socket_ok_def sample_sockets_def opened_def)
  then show ?thesis
    using adaptive_sockets [OF sample_sockets_fresh, of ?st]
    by (cases "NewAdaptiveBypass (NewRawInjector sample_sockets) ?st"; cases "fst (NewAdaptiveBypass (NewRawInjector sample_sockets) ?st)") auto
qed

section \<open>Relay only on other systems\<close>

lemma Other_never_injects:
  "NewAdaptiveBypass Other_NewRawInjector st =
     (Inl (''adaptive: wrong_seq'' # ''wrong_seq'' # ErrNotSupported), st)"
  by (simp add: NewAdaptiveBypass_def NewWrongSeqBypass_def Other_NewRawInjector_def wrap_error_def)

end
