(* ===== verification/Prometheus.thy ===== *)
theory Prometheus
  imports Metrics Utf8 NetAddr
begin

text \<open>
  The metrics page of \<^verbatim>\<open>internal/metrics/collector.go\<close>, \<^verbatim>\<open>promHandler\<close>, and
  \<^verbatim>\<open>StartPrometheus\<close>. Names are written with \<^verbatim>\<open>%q\<close>; which code points from 128 on
  are printable (\<^verbatim>\<open>strconv.IsPrint\<close>, a table) is an argument.
\<close>

section \<open>Quoting\<close>

fun hex_digits :: "nat \<Rightarrow> nat \<Rightarrow> string" where
  "hex_digits 0 n = []"
| "hex_digits (Suc k) n = hex_digits k (n div 16) @ [hex_digit (n mod 16)]"

definition IsPrint :: "(nat \<Rightarrow> bool) \<Rightarrow> nat \<Rightarrow> bool" where
  "IsPrint print rn = (if rn < 0x80 then 0x20 \<le> rn \<and> rn < 0x7F else print rn)"

definition quote_escapes :: "(nat \<times> char) list" where
  "quote_escapes =
     [(7, CHR ''a''), (8, CHR ''b''), (12, CHR ''f''), (10, CHR ''n''), (13, CHR ''r''),
      (9, CHR ''t''), (11, CHR ''v'')]"

text \<open>The code point \<open>rn\<close>, whose bytes are \<open>bs\<close>.\<close>

definition quote_rune :: "(nat \<Rightarrow> bool) \<Rightarrow> nat \<Rightarrow> string \<Rightarrow> string" where
  "quote_rune print rn bs =
     (if rn = 0x22 \<or> rn = 0x5C then CHR 0x5C # bs
      else if IsPrint print rn then bs
      else case map_of quote_escapes rn of
             Some e \<Rightarrow> [CHR 0x5C, e]
           | None \<Rightarrow>
               if rn < 0x20 \<or> rn = 0x7F then CHR 0x5C # CHR ''x'' # hex_digits 2 rn
               else if rn < 0x10000 then CHR 0x5C # CHR ''u'' # hex_digits 4 rn
               else CHR 0x5C # CHR ''U'' # hex_digits 8 rn)"

lemma rune_width_pos: "(rn, w) = utf8_rune (c # r) \<Longrightarrow> 0 < w"
  using utf8_rune_width [of "c # r"] by (metis list.distinct(2) snd_conv)

function quote_body :: "(nat \<Rightarrow> bool) \<Rightarrow> string \<Rightarrow> string" where
  "quote_body print s =
     (case s of
        [] \<Rightarrow> []
      | c # r \<Rightarrow>
          (case utf8_rune s of (rn, w) \<Rightarrow>
             if w = 1 \<and> rn = rune_error
             then CHR 0x5C # CHR ''x'' # hex_digits 2 (of_char c) @ quote_body print r
             else quote_rune print rn (take w s) @ quote_body print (drop w s)))"
  by auto
termination
  by (relation "measure (length \<circ> snd)") (auto dest!: rune_width_pos)

declare quote_body.simps [simp del]

definition go_quote :: "(nat \<Rightarrow> bool) \<Rightarrow> string \<Rightarrow> string" where
  "go_quote print s = CHR 0x22 # quote_body print s @ [CHR 0x22]"

section \<open>The page\<close>

text \<open>\<^verbatim>\<open>%.2f\<close> of a whole number, and \<^verbatim>\<open>%.0f\<close> of a duration in seconds: the nearest, of two
  the even one.\<close>

definition whole2 :: "int \<Rightarrow> string" where "whole2 n = dec_int n @ ''.00''"

definition round_seconds :: "nat \<Rightarrow> nat" where
  "round_seconds d =
     (let q = d div nat Second; r = d mod nat Second
      in if 2 * r < nat Second then q
         else if 2 * r > nat Second then q + 1
         else if even q then q else q + 1)"

definition sni_line :: "(nat \<Rightarrow> bool) \<Rightarrow> string \<times> int \<Rightarrow> string" where
  "sni_line print sc =
     ''ghostnet_sni_connections_total{sni='' @ go_quote print (fst sc) @ ''} '' @ dec_int (snd sc)"

definition strategy_lines :: "(nat \<Rightarrow> bool) \<Rightarrow> StrategyStats \<Rightarrow> string list" where
  "strategy_lines print st =
     [''ghostnet_bypass_strategy_ok_total{strategy='' @ go_quote print (st_Name st) @ ''} '' @
        dec_int (st_OK st),
      ''ghostnet_bypass_strategy_fail_total{strategy='' @ go_quote print (st_Name st) @ ''} '' @
        dec_int (st_Fail st)]"

text \<open>The formats of the handler, each without its \<^verbatim>\<open>\n\<close>.\<close>

definition prom_lines :: "(nat \<Rightarrow> bool) \<Rightarrow> Snapshot \<Rightarrow> string list" where
  "prom_lines print s =
     [''ghostnet_active_connections '' @ dec_int (sn_ActiveConns s),
      ''ghostnet_total_connections_total '' @ dec_int (sn_TotalConns s),
      ''ghostnet_failed_connections_total '' @ dec_int (sn_FailedConns s),
      ''ghostnet_bypass_ok_total '' @ dec_int (sn_BypassOK s),
      ''ghostnet_bypass_fail_total '' @ dec_int (sn_BypassFail s),
      ''ghostnet_bytes_in_total '' @ dec_int (sn_BytesIn s),
      ''ghostnet_bytes_out_total '' @ dec_int (sn_BytesOut s),
      ''ghostnet_latency_p50_ms '' @ whole2 (sn_LatP50Ms s),
      ''ghostnet_latency_p95_ms '' @ whole2 (sn_LatP95Ms s),
      ''ghostnet_latency_p99_ms '' @ whole2 (sn_LatP99Ms s),
      ''ghostnet_uptime_seconds '' @ dec (round_seconds (nat (sn_Uptime s)))] @
     map (sni_line print) (sn_TopSNIs s) @
     concat (map (strategy_lines print) (sn_Strategies s))"

text \<open>The content type and the body.\<close>

definition promHandler :: "(nat \<Rightarrow> bool) \<Rightarrow> Snapshot \<Rightarrow> string \<times> string" where
  "promHandler print s =
     (''text/plain; version=0.0.4'', concat (map (\<lambda>l. l @ [CHR 0x0A]) (prom_lines print s)))"

text \<open>The error, and the address a server was started on. What \<^verbatim>\<open>ListenAndServe\<close> answers is
  dropped by the goroutine.\<close>

definition StartPrometheus :: "Collector \<Rightarrow> go_error option \<times> string option" where
  "StartPrometheus c = (if \<not> mc_promEnabled c then (None, None) else (None, Some (mc_promAddr c)))"

section \<open>Reading the page\<close>

text \<open>The text format ends a label at the first quote that is not escaped.\<close>

fun label_end :: "string \<Rightarrow> string option" where
  "label_end [] = None"
| "label_end (c # s) =
     (if c = CHR 0x22 then Some s
      else if c = CHR 0x5C then label_end (drop 1 s)
      else label_end s)"

text \<open>A text that neither ends a label nor leaves an escape open, on one line.\<close>

definition inert :: "string \<Rightarrow> bool" where
  "inert w \<longleftrightarrow> CHR 0x0A \<notin> set w \<and> (\<forall>t. label_end (w @ t) = label_end t)"

lemma inert_simps [simp]:
  "inert []" "inert v \<Longrightarrow> inert w \<Longrightarrow> inert (v @ w)"
  "c \<noteq> CHR 0x0A \<Longrightarrow> inert w \<Longrightarrow> inert (CHR 0x5C # c # w)"
  "c \<notin> {CHR 0x22, CHR 0x5C, CHR 0x0A} \<Longrightarrow> inert w \<Longrightarrow> inert (c # w)"
  by (auto simp: inert_def)

lemma inert_plain:
  "list_all (\<lambda>c. c \<notin> {CHR 0x22, CHR 0x5C, CHR 0x0A}) w \<Longrightarrow> inert w"
  by (induction w) simp_all

lemma hex_digit_plain: "n < 16 \<Longrightarrow> hex_digit n \<notin> {CHR 0x22, CHR 0x5C, CHR 0x0A}"
proof
  assume n: "n < 16" and h: "hex_digit n \<in> {CHR 0x22, CHR 0x5C, CHR 0x0A}"
  have "(of_char (hex_digit n) :: nat) = (if n < 10 then 48 + n else 87 + n)"
    using n by (simp add: hex_digit_def)
  with h n show False by (auto split: if_splits)
qed

lemma hex_digits_inert [simp]: "inert (hex_digits k n)"
proof -
  have "list_all (\<lambda>c. c \<notin> {CHR 0x22, CHR 0x5C, CHR 0x0A}) (hex_digits k n)"
  proof (induction k arbitrary: n)
    case (Suc k)
    then show ?case using hex_digit_plain [of "n mod 16"] by simp
  qed simp
  then show ?thesis by (rule inert_plain)
qed

lemma rune_byte_high: "128 \<le> (of_char c :: nat) \<Longrightarrow> c \<notin> {CHR 0x22, CHR 0x5C, CHR 0x0A}"
  by auto

text \<open>The bytes of one rune: one ASCII character, or bytes from 128 on.\<close>

lemma rune_bytes:
  assumes "utf8_rune (c # s) = (rn, w)"
  shows "(of_char c :: nat) < 128 \<and> rn = of_char c \<and> take w (c # s) = [c] \<or>
    (\<not> (of_char c :: nat) < 128 \<and> inert (take w (c # s)))"
proof (cases "(of_char c :: nat) < 128")
  case True
  then show ?thesis using assms by auto
next
  case False
  have "x \<notin> {CHR 0x22, CHR 0x5C, CHR 0x0A}" if x: "x \<in> set (take w (c # s))" for x
  proof -
    obtain i where "i < w" "x = (c # s) ! i"
      using x by (auto simp: in_set_conv_nth)
    then show ?thesis
      using utf8_rune_high [of c i s] False assms rune_byte_high [of x] by (simp add: not_less)
  qed
  then have "inert (take w (c # s))" by (intro inert_plain) (simp add: list_all_iff)
  then show ?thesis using False by simp
qed

lemma escape_plain:
  assumes "map_of quote_escapes rn = Some e"
  shows "e \<noteq> CHR 0x0A"
  using map_of_SomeD [OF assms] by (auto simp: quote_escapes_def)

lemma ascii_rune_code: "rn = of_char c \<Longrightarrow> c = CHR 0x0A \<longleftrightarrow> rn = (10 :: nat)"
  and ascii_rune_quote: "rn = of_char c \<Longrightarrow> c = CHR 0x22 \<longleftrightarrow> rn = (34 :: nat)"
  and ascii_rune_slash: "rn = of_char c \<Longrightarrow> c = CHR 0x5C \<longleftrightarrow> rn = (92 :: nat)"
proof -
  have "(10 :: nat) = of_char (CHR 0x0A)" "(34 :: nat) = of_char (CHR 0x22)" "(92 :: nat) = of_char (CHR 0x5C)"
    by simp_all
  note codes = this
  show "rn = of_char c \<Longrightarrow> c = CHR 0x0A \<longleftrightarrow> rn = (10 :: nat)"
    unfolding codes by (simp only: of_char_eq_iff)
  show "rn = of_char c \<Longrightarrow> c = CHR 0x22 \<longleftrightarrow> rn = (34 :: nat)"
    unfolding codes by (simp only: of_char_eq_iff)
  show "rn = of_char c \<Longrightarrow> c = CHR 0x5C \<longleftrightarrow> rn = (92 :: nat)"
    unfolding codes by (simp only: of_char_eq_iff)
qed

lemma quote_rune_inert:
  assumes "utf8_rune (c # s) = (rn, w)"
  shows "inert (quote_rune print rn (take w (c # s)))"
proof (cases "(of_char c :: nat) < 128")
  case True
  then have b: "rn = of_char c" "take w (c # s) = [c]" using assms by auto
  note codes = ascii_rune_code [OF b(1)] ascii_rune_quote [OF b(1)] ascii_rune_slash [OF b(1)]
  show ?thesis
    unfolding quote_rune_def b(2)
    by (auto simp: codes IsPrint_def split: option.split dest: escape_plain)
next
  case False
  then have "inert (take w (c # s))" "\<not> rn < 0x80"
    using rune_bytes [OF assms] utf8_rune_code_high [of c s] assms by auto
  then show ?thesis
    unfolding quote_rune_def by (auto split: option.split dest: escape_plain)
qed

lemma quote_body_inert: "inert (quote_body print s)"
proof (induction print s rule: quote_body.induct)
  case (1 print s)
  show ?case
  proof (cases s)
    case (Cons c r)
    obtain rn w where rn: "utf8_rune s = (rn, w)" by fastforce
    have body: "quote_body print s = (if w = 1 \<and> rn = rune_error
        then CHR 0x5C # CHR ''x'' # hex_digits 2 (of_char c) @ quote_body print r
        else quote_rune print rn (take w s) @ quote_body print (drop w s))"
      unfolding quote_body.simps [of print s] rn by (simp add: Cons)
    show ?thesis
    proof (cases "w = 1 \<and> rn = rune_error")
      case True
      then show ?thesis using 1(1) [OF Cons rn [symmetric]] by (simp add: body)
    next
      case False
      moreover have "inert (quote_rune print rn (take w s))"
        using quote_rune_inert [of c r rn w print] rn by (simp add: Cons)
      ultimately show ?thesis using 1(2) [OF Cons rn [symmetric]] unfolding body by auto
    qed
  qed (simp add: quote_body.simps [of print "[]"])
qed

lemma label_end_quote: "label_end (quote_body print s @ CHR 0x22 # t) = Some t"
  using quote_body_inert [of print s] by (simp add: inert_def)

section \<open>The lines\<close>

lemma go_quote_no_newline [simp]: "CHR 0x0A \<notin> set (go_quote print s)"
  using quote_body_inert [of print s] by (simp add: go_quote_def inert_def)

lemma decimal_no_newline [simp]: "CHR 0x0A \<notin> set (dec n)" "CHR 0x0A \<notin> set (dec_int i)"
  using dec_digits [of "CHR 0x0A" n] dec_digits [of "CHR 0x0A" "nat (- i)"]
    dec_digits [of "CHR 0x0A" "nat i"] by (auto simp: dec_int_def)

lemma prom_lines_single: "l \<in> set (prom_lines print s) \<Longrightarrow> CHR 0x0A \<notin> set l"
  by (auto simp: prom_lines_def whole2_def sni_line_def strategy_lines_def)

lemma Split_lines:
  "(\<And>l. l \<in> set ls \<Longrightarrow> sep \<notin> set l) \<Longrightarrow>
     go_Split sep (concat (map (\<lambda>l. l @ [sep]) ls)) = ls @ [[]]"
  by (induction ls) simp_all

text \<open>What a reader has left of a line after its label, the text between the first quote and the next
  one that is not escaped.\<close>

definition after_label :: "string \<Rightarrow> string option" where
  "after_label l = (case dropWhile (\<lambda>c. c \<noteq> CHR 0x22) l of [] \<Rightarrow> None | _ # r \<Rightarrow> label_end r)"

lemma after_label_quote:
  "CHR 0x22 \<notin> set w \<Longrightarrow> after_label (w @ go_quote print s @ t) = Some t"
  by (simp add: after_label_def go_quote_def label_end_quote dropWhile_append3 dropWhile_append)

text \<open>C18. A server name cannot forge a metric. The names on the metrics page come from the bytes of
  clients' hellos. Whatever bytes they hold, quotes, backslashes, line ends and broken UTF-8
  included, and whatever counts as printable: splitting the body at line ends gives eleven samples,
  one line per listed name and two per strategy, and nothing else; and in each of those lines, a
  reader that ends the label at the first quote that is not escaped is left with the closing brace
  and the count of that name or strategy.\<close>

theorem prom_page_lines:
  "go_Split (CHR 0x0A) (snd (promHandler print s)) = prom_lines print s @ [[]] \<and>
   length (prom_lines print s) = 11 + length (sn_TopSNIs s) + 2 * length (sn_Strategies s) \<and>
   map after_label (drop 11 (prom_lines print s)) =
     map (\<lambda>sc. Some (''} '' @ dec_int (snd sc))) (sn_TopSNIs s) @
     concat (map (\<lambda>st. [Some (''} '' @ dec_int (st_OK st)), Some (''} '' @ dec_int (st_Fail st))])
       (sn_Strategies s))"
proof (intro conjI)
  show "go_Split (CHR 0x0A) (snd (promHandler print s)) = prom_lines print s @ [[]]"
    unfolding promHandler_def snd_conv by (rule Split_lines, rule prom_lines_single)
  have two: "length (concat (map (strategy_lines print) sts)) = 2 * length sts" for sts
    by (induction sts) (simp_all add: strategy_lines_def)
  show "length (prom_lines print s) = 11 + length (sn_TopSNIs s) + 2 * length (sn_Strategies s)"
    by (simp add: prom_lines_def two)
  have sni: "after_label (sni_line print sc) = Some (''} '' @ dec_int (snd sc))" for sc
    unfolding sni_line_def by (rule after_label_quote) simp
  have st: "map after_label (strategy_lines print st) =
      [Some (''} '' @ dec_int (st_OK st)), Some (''} '' @ dec_int (st_Fail st))]" for st
  proof -
    have "after_label (''ghostnet_bypass_strategy_ok_total{strategy='' @ go_quote print (st_Name st) @
        ''} '' @ dec_int (st_OK st)) = Some (''} '' @ dec_int (st_OK st))"
      by (rule after_label_quote) simp
    moreover have "after_label (''ghostnet_bypass_strategy_fail_total{strategy='' @
        go_quote print (st_Name st) @ ''} '' @ dec_int (st_Fail st)) = Some (''} '' @ dec_int (st_Fail st))"
      by (rule after_label_quote) simp
    ultimately show ?thesis unfolding strategy_lines_def list.map by (simp only:)
  qed
  have "drop 11 (prom_lines print s) =
      map (sni_line print) (sn_TopSNIs s) @ concat (map (strategy_lines print) (sn_Strategies s))"
    by (simp add: prom_lines_def)
  then show "map after_label (drop 11 (prom_lines print s)) =
     map (\<lambda>sc. Some (''} '' @ dec_int (snd sc))) (sn_TopSNIs s) @
     concat (map (\<lambda>st. [Some (''} '' @ dec_int (st_OK st)), Some (''} '' @ dec_int (st_Fail st))])
       (sn_Strategies s))"
    by (simp only: map_append map_map comp_def sni map_concat st)
qed

end
