(* ===== verification/Startup.thy ===== *)
theory Startup
  imports ConfigJson Sockets Prometheus Server Logger Handler Network
begin

text \<open>
  \<^verbatim>\<open>startProxy\<close> of \<^verbatim>\<open>cmd/ghostnet/main.go\<close>: what it builds from the configuration,
  in which order it opens and starts things, what it gives back on every way out, and the reports of
  \<^verbatim>\<open>statsLoop\<close>. The banner is left out; the handler of signals is \<open>Reload\<close> and \<open>Server\<close>.
\<close>

section \<open>Starting\<close>

text \<open>What is opened, started and closed, in order, with the lines of \<^verbatim>\<open>logger.Startup\<close>.\<close>

datatype start_event =
    LoggerOpened
  | LoggerClosed
  | StartLine string string
  | PreflightRun
  | PrometheusStarted string
  | PprofStarted string
  | ProbingStarted
  | HealthChecksStarted
  | BypassOpened
  | BypassClosed
  | BypassUnavailable go_error
  | StatsStarted int
  | SignalsWatched
  | Served
  | ContextCancelled

text \<open>The answers of the system. \<open>sp_status\<close> is the text of the router's state, which the health checks
  may have changed by the time it is read.\<close>

record start_env =
  sp_load :: load_env
  sp_path :: string
  sp_dbg :: bool
  sp_stealth :: bool
  sp_dialled :: "go_error + bytes"
  sp_logfile :: "go_error option"
  sp_goversion :: string
  sp_osarch :: string
  sp_cpus :: nat
  sp_sort :: "preflight_result slice_sort"
  sp_probes :: "nat \<Rightarrow> probe_env"
  sp_now :: int
  sp_sock :: sock_env
  sp_status :: string
  sp_listen :: "string \<Rightarrow> go_error option"

text \<open>What \<^verbatim>\<open>NewServer\<close> is given.\<close>

record running =
  rn_cfg :: Config
  rn_logger :: logger
  rn_metrics :: Collector
  rn_pool :: Pool
  rn_router :: router
  rn_adaptive :: "adaptive_obj option"

text \<open>\<^verbatim>\<open>NewHandler\<close>: what the handlers of the connections share.\<close>

definition NewHandler :: "running \<Rightarrow> proxy_state" where
  "NewHandler r =
     \<lparr>px_metrics = rn_metrics r, px_router = rn_router r,
      px_adaptive = map_option adaptive_view (rn_adaptive r), px_domains = rn_pool r\<rparr>"

definition needs_preflight :: "bool \<Rightarrow> Config \<Rightarrow> bool" where
  "needs_preflight withPreFlight cfg \<longleftrightarrow>
     withPreFlight \<and> (cf_ConnectIP cfg = [] \<or> cf_FakeSNI cfg = [] \<or> cf_FakeSNI cfg = ''hcaptcha.com'')"

definition start_lines :: "start_env \<Rightarrow> start_event list" where
  "start_lines env =
     [StartLine ''server'' ''GhostNet v2.1.0'', StartLine ''go'' (sp_goversion env),
      StartLine ''os/arch'' (sp_osarch env), StartLine ''cpus'' (dec (sp_cpus env))]"

definition config_lines :: "Config \<Rightarrow> start_event list" where
  "config_lines cfg =
     [StartLine ''listen'' (cf_ListenHost cfg @ CHR '':'' # dec_int (cf_ListenPort cfg)),
      StartLine ''connect'' (cf_ConnectIP cfg @ CHR '':'' # dec_int (cf_ConnectPort cfg)),
      StartLine ''fake_sni'' (cf_FakeSNI cfg), StartLine ''bypass'' (cf_BypassMethod cfg),
      StartLine ''profile'' (cf_BrowserProfile cfg)]"

definition prometheus_events :: "Config \<Rightarrow> Collector \<Rightarrow> start_event list" where
  "prometheus_events cfg m =
     (if cf_PrometheusEnabled cfg
      then (case StartPrometheus m of
              (Some e, _) \<Rightarrow> []
            | (None, started) \<Rightarrow>
                (case started of Some a \<Rightarrow> [PrometheusStarted a] | None \<Rightarrow> []) @
                [StartLine ''prometheus'' (cf_PrometheusAddr cfg @ ''/metrics'')])
      else [])"

definition pprof_events :: "Config \<Rightarrow> start_event list" where
  "pprof_events cfg =
     (if cf_PprofEnabled cfg
      then [StartLine ''pprof'' (cf_PprofAddr cfg @ ''/debug/pprof''), PprofStarted (cf_PprofAddr cfg)]
      else [])"

definition pool_events :: "Config \<Rightarrow> start_event list" where
  "pool_events cfg =
     (if cf_DomainProbeEnabled cfg
      then [ProbingStarted, StartLine ''domain_pool'' (dec (length (cf_DomainPool cfg)) @ '' domains'')]
      else [])"

text \<open>\<^verbatim>\<open>routing.New\<close> on the configuration.\<close>

definition router_of :: "Config \<Rightarrow> router" where
  "router_of cfg =
     Router_New (map (\<lambda>ep. (ce_IP ep, ce_Port ep)) (cf_Endpoints cfg))
       (cf_CircuitBreakerThreshold cfg) (CircuitBreakerCooldown cfg)"

text \<open>\<^verbatim>\<open>ListenAndServe\<close> returns when the port cannot be opened, or after a signal.\<close>

definition serve :: "(string \<Rightarrow> go_error option) \<Rightarrow> Config \<Rightarrow> go_error option" where
  "serve listen cfg =
     (let addr = cf_ListenHost cfg @ CHR '':'' # dec_int (cf_ListenPort cfg)
      in map_option (wrap_error (''server: listen '' @ addr)) (listen addr))"

definition bypass_events :: "go_error + adaptive_obj \<Rightarrow> start_event list" where
  "bypass_events made =
     (case made of
        Inl e \<Rightarrow> [BypassUnavailable e]
      | Inr _ \<Rightarrow> [BypassOpened, StartLine ''bypass_engine'' ''adaptive (wrong_seq/fragment/desync)''])"

text \<open>Between the opening of the logger and the server.\<close>

definition starting_events ::
  "start_env \<Rightarrow> bool \<Rightarrow> Config \<Rightarrow> Collector \<Rightarrow> go_error + adaptive_obj \<Rightarrow> start_event list" where
  "starting_events env scan cfg m made =
     start_lines env @ (if scan then [PreflightRun] else []) @ config_lines cfg @
     prometheus_events cfg m @ pprof_events cfg @ pool_events cfg @
     [HealthChecksStarted, StartLine ''router'' (sp_status env)] @ bypass_events made @
     (if cf_StatsInterval cfg > 0 then [StatsStarted (cf_StatsInterval cfg * Second)] else []) @
     [SignalsWatched]"

text \<open>The error, the events, what was running, and the sockets that are open afterwards. The deferred
  calls run last in, first out.\<close>

definition startProxy ::
  "start_env \<Rightarrow> bool \<Rightarrow> sock_state \<Rightarrow> (go_error option \<times> start_event list \<times> running option) \<times> sock_state"
where
  "startProxy env withPreFlight st =
     (case Load (sp_load env) (sp_path env) of
        (Some e, _) \<Rightarrow> ((Some (wrap_error ''config'' e), [], None), st)
      | (None, loaded) \<Rightarrow>
          (let localIP = (case LocalIP (sp_dialled env) of Inr ip \<Rightarrow> Some ip | Inl _ \<Rightarrow> None);
               cfg = start_config (sp_dbg env) (sp_stealth env) localIP (the loaded)
           in case Log_New (ParseLevel (cf_LogLevel cfg)) (cf_LogFile cfg) (sp_logfile env) of
                Inl e \<Rightarrow> ((Some (wrap_error ''logger'' e), [], None), st)
              | Inr (logger, _) \<Rightarrow>
                  (let logger = SetNoColor (cf_LogNoColor cfg) logger;
                       scan = needs_preflight withPreFlight cfg;
                       cfg = preflight_config withPreFlight
                               (Preflight_Run (sp_sort env) (sp_probes env) (3 * Second)) cfg;
                       m = Metrics_New (cf_PrometheusEnabled cfg) (cf_PrometheusAddr cfg) (sp_now env);
                       pool = NewPool (cf_DomainPool cfg) (cf_ConnectPort cfg) (cf_DomainProbeInterval cfg);
                       router = router_of cfg;
                       (made, st) = NewAdaptiveBypass (NewRawInjector (sp_sock env)) st;
                       adaptive = (case made of Inl _ \<Rightarrow> None | Inr a \<Rightarrow> Some (SetRecorder [] a));
                       events = [LoggerOpened] @ starting_events env scan cfg m made @ [Served];
                       err = serve (sp_listen env) cfg;
                       (closing, st) = (case adaptive of
                           None \<Rightarrow> ([], st) | Some a \<Rightarrow> ([BypassClosed], Adaptive_Close a st));
                       closing = closing @ [ContextCancelled, LoggerClosed]
                   in ((err, events @ closing,
                        Some \<lparr>rn_cfg = cfg, rn_logger = logger, rn_metrics = m, rn_pool = pool,
                              rn_router = router, rn_adaptive = adaptive\<rparr>), st))))"

section \<open>The reports\<close>

datatype stats_line =
    StatsText string
  | StrategyText string int int real
  | RouterText string
  | TopText string

text \<open>The names in the report: at most five, two blanks between them.\<close>

fun top_names :: "nat \<Rightarrow> (string \<times> int) list \<Rightarrow> string" where
  "top_names i [] = []"
| "top_names i (sc # scs) =
     (if i \<ge> 5 then []
      else (if i > 0 then ''  '' else []) @ fst sc @ ''('' @ dec_int (snd sc) @ '')'' @ top_names (Suc i) scs)"

text \<open>One tick of \<^verbatim>\<open>statsLoop\<close>: the lines it logs for a snapshot and the router's status.\<close>

definition stats_tick :: "Snapshot \<Rightarrow> string \<Rightarrow> stats_line list" where
  "stats_tick s status =
     [StatsText (Snapshot_String s)] @
     concat (map (\<lambda>st.
       let total = st_OK st + st_Fail st
       in if total = 0 then []
          else [StrategyText (st_Name st) (st_OK st) (st_Fail st) (of_int (st_OK st) / of_int total * 100)])
       (sn_Strategies s)) @
     [RouterText status] @
     (if sn_TopSNIs s \<noteq> [] then [TopText (top_names 0 (sn_TopSNIs s))] else [])"

section \<open>What is opened is closed\<close>

lemma adaptive_sockets_cases:
  assumes "fresh_fds env"
  obtains e st' where "NewAdaptiveBypass (NewRawInjector env) st = (Inl e, st')"
      "so_open st' = so_open st" "\<not> sockets_ok env 3 st"
    | a st' where "NewAdaptiveBypass (NewRawInjector env) st = (Inr a, st')"
      "so_open (Adaptive_Close a st') = so_open st" "sockets_ok env 3 st"
      "adaptive_view (SetRecorder [] a) = newAdaptiveBypass (Some [])"
proof -
  obtain made st' where made: "NewAdaptiveBypass (NewRawInjector env) st = (made, st')" by fastforce
  from adaptive_sockets_lemma [OF assms, of st "[]"] made show ?thesis
    by (cases made) (auto intro: that)
qed

lemma Adaptive_Close_SetRecorder [simp]: "Adaptive_Close (SetRecorder r a) st = Adaptive_Close a st"
  by (simp add: Adaptive_Close_def SetRecorder_def)

text \<open>The three ways out: no configuration, no logger, or a server that returned.\<close>

fun minor :: "start_event \<Rightarrow> bool" where
  "minor LoggerOpened = False"
| "minor LoggerClosed = False"
| "minor BypassOpened = False"
| "minor BypassClosed = False"
| "minor ContextCancelled = False"
| "minor Served = False"
| "minor ev = True"

lemma minor_events:
  "list_all minor (prometheus_events cfg m)" "list_all minor (pprof_events cfg)"
  "list_all minor (pool_events cfg)" "list_all minor (config_lines cfg)" "list_all minor (start_lines env)"
  unfolding prometheus_events_def StartPrometheus_def pprof_events_def pool_events_def
    config_lines_def start_lines_def
  by simp_all

lemma starting_events_set:
  "filter (\<lambda>e. \<not> minor e) (starting_events env scan cfg m made) = (if isl made then [] else [BypassOpened])"
proof -
  have f: "filter (\<lambda>e. \<not> minor e) xs = []" if "list_all minor xs" for xs
    using that by (induction xs) simp_all
  show ?thesis
    unfolding starting_events_def filter_append minor_events [THEN f]
    by (cases made) (simp_all add: bypass_events_def)
qed

lemma startProxy_exits:
  assumes "fresh_fds (sp_sock env)"
  shows "(\<exists>e. startProxy env scan st = ((Some e, [], None), st)) \<or>
    (\<exists>starting r st'.
       startProxy env scan st =
         ((serve (sp_listen env) (rn_cfg r),
           [LoggerOpened] @ starting @ [Served] @
             (if rn_adaptive r \<noteq> None then [BypassClosed] else []) @ [ContextCancelled, LoggerClosed],
           Some r), st') \<and>
       so_open st' = so_open st \<and>
       filter (\<lambda>e. \<not> minor e) starting = (if rn_adaptive r \<noteq> None then [BypassOpened] else []) \<and>
       (rn_adaptive r \<noteq> None \<longleftrightarrow> sockets_ok (sp_sock env) 3 st) \<and>
       px_adaptive (NewHandler r) =
         (if rn_adaptive r \<noteq> None then Some (newAdaptiveBypass (Some [])) else None))"
proof -
  obtain e c where l: "Load (sp_load env) (sp_path env) = (e, c)" by fastforce
  show ?thesis
  proof (cases e)
    case (Some err)
    then show ?thesis by (simp add: startProxy_def l)
  next
    case None
    define cfg where "cfg = start_config (sp_dbg env) (sp_stealth env)
      (case LocalIP (sp_dialled env) of Inr ip \<Rightarrow> Some ip | Inl _ \<Rightarrow> None) (the c)"
    show ?thesis
    proof (cases "Log_New (ParseLevel (cf_LogLevel cfg)) (cf_LogFile cfg) (sp_logfile env)")
      case (Inl err)
      then show ?thesis by (simp add: startProxy_def l None cfg_def Let_def)
    next
      case (Inr p)
      obtain lg ch where p: "p = (lg, ch)" by (cases p)
      define cfg2 where "cfg2 = preflight_config scan
        (Preflight_Run (sp_sort env) (sp_probes env) (3 * Second)) cfg"
      define m where "m = Metrics_New (cf_PrometheusEnabled cfg2) (cf_PrometheusAddr cfg2) (sp_now env)"
      define r where "r ad = \<lparr>rn_cfg = cfg2, rn_logger = SetNoColor (cf_LogNoColor cfg) lg, rn_metrics = m,
        rn_pool = NewPool (cf_DomainPool cfg2) (cf_ConnectPort cfg2) (cf_DomainProbeInterval cfg2),
        rn_router = router_of cfg2, rn_adaptive = ad\<rparr>" for ad
      define starting where "starting made = starting_events env (needs_preflight scan cfg) cfg2 m made" for made
      have r: "rn_cfg (r ad) = cfg2" "rn_adaptive (r ad) = ad" for ad by (simp_all add: r_def)
      note start = startProxy_def [of env scan st] l None Inr p cfg_def [symmetric] cfg2_def [symmetric]
        m_def [symmetric] starting_def [symmetric] Let_def
      note events = starting_events_set [of env "needs_preflight scan cfg" cfg2 m, folded starting_def]
      show ?thesis
      proof (rule adaptive_sockets_cases [OF assms, of st])
        fix err st' assume made: "NewAdaptiveBypass (NewRawInjector (sp_sock env)) st = (Inl err, st')"
          "so_open st' = so_open st" "\<not> sockets_ok (sp_sock env) 3 st"
        show ?thesis
          using events [of "Inl err"] made
          by (intro disjI2 exI [of _ "starting (Inl err)"] exI [of _ "r None"] exI [of _ st'])
            (simp add: start r NewHandler_def, simp add: r_def)
      next
        fix a st' assume made: "NewAdaptiveBypass (NewRawInjector (sp_sock env)) st = (Inr a, st')"
          "so_open (Adaptive_Close a st') = so_open st" "sockets_ok (sp_sock env) 3 st"
          "adaptive_view (SetRecorder [] a) = newAdaptiveBypass (Some [])"
        show ?thesis
          using events [of "Inr a"] made
          by (intro disjI2 exI [of _ "starting (Inr a)"] exI [of _ "r (Some (SetRecorder [] a))"]
              exI [of _ "Adaptive_Close a st'"])
            (simp add: start r NewHandler_def, simp add: r_def)
      qed
    qed
  qed
qed


text \<open>A configuration that loads, a kernel that refuses the third socket, a port that is taken.\<close>

definition sample_start :: start_env where
  "sample_start =
     \<lparr>sp_load = toy_env (cfg_out (Default\<lparr>cf_ConnectIP := ''1.2.3.4''\<rparr>)), sp_path = ''config.json'',
      sp_dbg = False, sp_stealth = False, sp_dialled = Inr [10, 0, 0, 1], sp_logfile = None,
      sp_goversion = ''go1.22'', sp_osarch = ''linux/amd64'', sp_cpus = 4, sp_sort = insertion_sort,
      sp_probes = sample_probes, sp_now = 0, sp_sock = sample_sockets, sp_status = [],
      sp_listen = (\<lambda>_. Some [''address already in use''])\<rparr>"

lemma sample_start_loads: "\<exists>c. Load (sp_load sample_start) (sp_path sample_start) = (None, Some c) \<and> cf_LogFile c = []"
proof -
  let ?c = "Default\<lparr>cf_ConnectIP := ''1.2.3.4''\<rparr>"
  have env: "le_read (toy_env (cfg_out ?c)) ''config.json'' = Inr [1]" "\<forall>v. le_getenv (toy_env (cfg_out ?c)) v = []"
    "le_parse_ip (toy_env (cfg_out ?c)) = sample_parse_ip"
    by (simp_all add: toy_env_def)
  have "toy_marshal (cfg_out ?c) = Inr [1]" by (simp add: toy_marshal_def)
  note load = Load_written [OF this toy_json_law env(1) json_path env(2)]
  have "fields_ok ?c" by (simp add: fields_ok_def Default_def)
  then have "Validate sample_parse_ip (le_lookup (toy_env (cfg_out ?c))) (endpoints_lost ?c) =
     (None, (endpoints_lost ?c)\<lparr>cf_Endpoints := [\<lparr>ce_IP = cf_ConnectIP (endpoints_lost ?c),
        ce_Port = cf_ConnectPort (endpoints_lost ?c), ce_Weight = 1\<rparr>]\<rparr>)"
    by (intro Validate_no_endpoints) (simp_all add: Default_def sample_parse_ip_def)
  with load env(3) show ?thesis by (simp add: sample_start_def endpoints_lost_def Default_def)
qed


section \<open>Set up, then run\<close>

lemma known_domains_ascii: "list_all ascii KnownSNIDomains"
  by (simp add: KnownSNIDomains_def)

lemma reachable_known:
  assumes "slice_sorter srt" and "report = Preflight_Run srt probes timeout"
  shows "list_all ascii (reachable_pool report)"
    and "rp_Reachable report \<noteq> [] \<Longrightarrow> ascii (pf_Domain (rp_Best report))"
proof -
  note parts = RunDomains_parts [OF assms(1) assms(2) [unfolded Preflight_Run_def]]
  have "pf_Domain r \<in> set KnownSNIDomains" if "r \<in> set (rp_Reachable report)" for r
    using that unfolding parts(5) by (auto simp: in_set_zip)
  then have a: "ascii (pf_Domain r)" if "r \<in> set (rp_Reachable report)" for r
    using that known_domains_ascii by (auto simp: list_all_iff)
  then show "list_all ascii (reachable_pool report)" by (auto simp: reachable_pool_def list_all_iff)
  show "ascii (pf_Domain (rp_Best report))" if "rp_Reachable report \<noteq> []"
    using a [of "hd (rp_Reachable report)"] that parts(3) by simp
qed

text \<open>The floats of the defaults.\<close>

definition default_floats :: "real list" where
  "default_floats = [1, 1 / 2, 10, 2, 5, 30, 3, 100, 5000]"

lemma setup_writable:
  assumes "list_all (float_ok ff) default_floats" "1 \<le> port" "port \<le> 65535"
    and "list_all ascii (reachable_pool report)" "ascii (pf_Domain (rp_Best report))"
    and "ascii (pf_IP (rp_Best report))"
  shows "writable ff (setup_config port report)"
  using assms
  by (simp add: writable_def out_ok_def cfg_out_def setup_config_def Default_def default_floats_def
      int64_def Let_def)

lemma setup_fields:
  assumes "rp_Reachable report \<noteq> []" "rp_Best report = hd (rp_Reachable report)"
  shows "fields_ok (setup_config port report)"
proof -
  have "setup_config port report = (Default\<lparr>cf_ListenPort := port\<rparr>)\<lparr>cf_FakeSNI := pf_Domain (rp_Best report),
      cf_FakeSNIPool := reachable_pool report, cf_DomainPool := reachable_pool report,
      cf_ConnectIP := pf_IP (rp_Best report), cf_Endpoints :=
        [\<lparr>ce_IP = pf_IP (rp_Best report), ce_Port = 443, ce_Weight = 1\<rparr>]\<rparr>"
    by (simp add: setup_config_def Default_def Let_def)
  moreover have "fields_ok (Default\<lparr>cf_ListenPort := port\<rparr>)" by (simp add: fields_ok_def Default_def)
  ultimately show ?thesis using fields_ok_scan [OF _ assms] by simp
qed

lemma startProxy_loaded:
  assumes "Load (sp_load env) (sp_path env) = (None, Some c)" and "cf_LogFile c = []"
  shows "\<exists>err evs r st'. startProxy env False st = ((err, evs, Some r), st') \<and>
    rn_router r = router_of c \<and>
    rn_pool r = NewPool (cf_DomainPool c) (cf_ConnectPort c) (cf_DomainProbeInterval c) \<and>
    cf_ListenPort (rn_cfg r) = cf_ListenPort c \<and> cf_FakeSNI (rn_cfg r) = cf_FakeSNI c"
proof -
  define cfg where "cfg = start_config (sp_dbg env) (sp_stealth env)
      (case LocalIP (sp_dialled env) of Inr ip \<Rightarrow> Some ip | Inl _ \<Rightarrow> None) c"
  have cfg: "cf_LogFile cfg = []" "router_of cfg = router_of c" "cf_DomainPool cfg = cf_DomainPool c"
    "cf_ConnectPort cfg = cf_ConnectPort c" "cf_DomainProbeInterval cfg = cf_DomainProbeInterval c"
    "cf_ListenPort cfg = cf_ListenPort c" "cf_FakeSNI cfg = cf_FakeSNI c"
    using assms(2)
    by (simp_all add: cfg_def start_config_def router_of_def CircuitBreakerCooldown_def Let_def
        split: option.split)
  have "preflight_config False r c = c" for r c by (simp add: preflight_config_def)
  then show ?thesis
    using cfg by (simp add: startProxy_def assms(1) cfg_def [symmetric] Log_New_def Let_def split: prod.split)
qed

lemma setup_written:
  assumes "slice_sorter srt" and "report = Preflight_Run srt probes (4 * Second)"
    and "runSetup srt probes (json_marshal ff isnil) wr port = (None, Some data)"
    and "1 \<le> port" and "port \<le> 65535" and "list_all (float_ok ff) default_floats"
    and "ascii (pf_IP (rp_Best report))" and "le_json env = json_unmarshal"
    and "le_read env path = Inr data" and "\<not> is_yaml path" and "\<forall>v. le_getenv env v = []"
  shows "rp_Reachable report \<noteq> []" and "rp_Best report = hd (rp_Reachable report)"
    and "Load env path =
      (case Validate (le_parse_ip env) (le_lookup env) (endpoints_lost (setup_config port report)) of
         (e, c) \<Rightarrow> (e, Some c))"
proof -
  let ?c = "setup_config port report"
  show reach: "rp_Reachable report \<noteq> []"
    using assms(2,3) by (auto simp: runSetup_def Let_def split: if_splits)
  have written: "writeCfg (json_marshal ff isnil) wr ?c = (None, Some data)"
    using assms(2,3) by (auto simp: runSetup_def Let_def split: if_splits prod.splits option.splits)
  show "rp_Best report = hd (rp_Reachable report)"
    using RunDomains_parts(3) [OF assms(1) assms(2) [unfolded Preflight_Run_def]] reach by simp
  have "writable ff ?c"
    using reachable_known [OF assms(1,2)] reach by (intro setup_writable assms(4-7))
  then have "json_law (json_marshal ff isnil) (le_json env) (cfg_out ?c)"
    unfolding assms(8) writable_def by (rule json_codec)
  from Load_written [OF writeCfg_data [OF written] this assms(9-11)]
  show "Load env path =
      (case Validate (le_parse_ip env) (le_lookup env) (endpoints_lost ?c) of (e, c) \<Rightarrow> (e, Some c))" .
qed

text \<open>C17. Set-up leads to a running proxy. The file that \<^verbatim>\<open>setup\<close> writes, with the real JSON
  encoder and decoder, is what \<^verbatim>\<open>startProxy\<close> then loads: it listens on the port asked for, its router has the best
  domain's address on port 443 as the only endpoint, its domain pool probes exactly the reachable
  domains, the fastest first and current, and the fake name is the fastest domain. When the
  best domain answered but its address was not found, \<^verbatim>\<open>setup\<close> still writes the file, and the
  proxy refuses it.\<close>

theorem setup_then_run:
  assumes "slice_sorter srt" and "report = Preflight_Run srt probes (4 * Second)"
    and "runSetup srt probes (json_marshal ff isnil) wr port = (None, Some data)"
    and "1 \<le> port" and "port \<le> 65535" and "list_all (float_ok ff) default_floats"
    and "ascii (pf_IP (rp_Best report))" and "le_json (sp_load env) = json_unmarshal"
    and "le_read (sp_load env) (sp_path env) = Inr data" and "\<not> is_yaml (sp_path env)"
    and "\<forall>v. le_getenv (sp_load env) v = []"
    and "pf_IP (rp_Best report) \<noteq> [] \<longrightarrow> le_parse_ip (sp_load env) (pf_IP (rp_Best report)) \<noteq> None"
  shows "if pf_IP (rp_Best report) = []
    then startProxy env False st =
      ((Some [''config'', ''config: connect_ip or endpoints required''], [], None), st)
    else \<exists>err evs r st'. startProxy env False st = ((err, evs, Some r), st') \<and>
      cf_ListenPort (rn_cfg r) = port \<and> cf_FakeSNI (rn_cfg r) = pf_Domain (rp_Best report) \<and>
      rt_endpoints (rn_router r) = [new_endpoint (pf_IP (rp_Best report) @ '':443'')] \<and>
      All (rn_pool r) = map pf_Domain (rp_Reachable report) \<and>
      Best (rn_pool r) = pf_Domain (rp_Best report)"
proof -
  let ?c = "setup_config port report" and ?ip = "pf_IP (rp_Best report)"
  note reach = setup_written(1) [OF assms(1-11)] and best = setup_written(2) [OF assms(1-11)]
    and load = setup_written(3) [OF assms(1-11)]
  have c: "cf_ConnectIP ?c = ?ip" "cf_ListenPort ?c = port" "cf_LogFile ?c = []" "cf_ConnectPort ?c = 443"
    "cf_DomainPool ?c = reachable_pool report" "cf_FakeSNI ?c = pf_Domain (rp_Best report)"
    by (simp_all add: setup_config_def Default_def Let_def)
  show ?thesis
  proof (cases "?ip = []")
    case True
    then have "Load (sp_load env) (sp_path env) =
        (Some [''config: connect_ip or endpoints required''], Some (endpoints_lost ?c))"
      unfolding load by (simp add: Validate_def c)
    with True show ?thesis by (simp add: startProxy_def wrap_error_def)
  next
    case False
    let ?d = "(endpoints_lost ?c)\<lparr>cf_Endpoints := [\<lparr>ce_IP = ?ip, ce_Port = 443, ce_Weight = 1\<rparr>]\<rparr>"
    have "Validate (le_parse_ip (sp_load env)) (le_lookup (sp_load env)) (endpoints_lost ?c) = (None, ?d)"
      using Validate_no_endpoints [of "endpoints_lost ?c"] setup_fields [OF reach best] assms(4,5,12) False c
      by simp
    then have "Load (sp_load env) (sp_path env) = (None, Some ?d)" unfolding load by simp
    from startProxy_loaded [OF this, of st]
    obtain err evs r st' where r: "startProxy env False st = ((err, evs, Some r), st')"
      "rn_router r = router_of ?d" "cf_ListenPort (rn_cfg r) = port"
      "rn_pool r = NewPool (reachable_pool report) 443 (cf_DomainProbeInterval ?d)"
      "cf_FakeSNI (rn_cfg r) = pf_Domain (rp_Best report)"
      using c by (auto simp: endpoints_lost_def)
    have "dec_int 443 = ''443''" by (simp add: dec_int_def dec.simps char_of_def bit_iff_odd)
    then have router: "rt_endpoints (router_of ?d) = [new_endpoint (?ip @ '':443'')]"
      by (simp add: router_of_def Router_New_def)
    have pool: "All (rn_pool r) = map pf_Domain (rp_Reachable report)" "Best (rn_pool r) = pf_Domain (rp_Best report)"
      using reach best
      by (simp_all add: r(4) NewPool_def All_def Best_def new_entry_def o_def reachable_pool_def hd_map Let_def)
    show ?thesis
      using r router pool False by simp
  qed
qed

text \<open>The first and the third of the known domains answer.\<close>

lemma sample_report:
  defines "report \<equiv> Preflight_Run insertion_sort sample_probes (4 * Second)"
  shows "rp_Reachable report \<noteq> []" and "pf_IP (rp_Best report) = ''1.2.3.4''"
proof -
  note parts = RunDomains_parts [OF small_sort.slice_sorter_axioms
      report_def [THEN meta_eq_to_obj_eq, unfolded Preflight_Run_def]]
  let ?d = "KnownSNIDomains ! 0"
  let ?t = "if 4 * Second \<le> 0 then 3 * Second else 4 * Second"
  have "(0, ?d) \<in> set (zip [0..<length KnownSNIDomains] KnownSNIDomains)"
    unfolding in_set_zip by (intro exI [of _ 0]) (simp add: KnownSNIDomains_def)
  moreover have "pf_Alive (preflight_probe (sample_probes 0) ?d ?t)"
    by (simp add: preflight_probe_def sample_probes_def)
  ultimately have "preflight_probe (sample_probes 0) ?d ?t \<in> set (rp_Reachable report)"
    unfolding parts(5) by (force simp: image_iff)
  then show ne: "rp_Reachable report \<noteq> []" by auto
  have ip: "pf_IP (preflight_probe (sample_probes i) d t) = ''1.2.3.4''" for i d t
    by (simp add: preflight_probe_def sample_probes_def Let_def split: option.split)
  have "pf_IP r = ''1.2.3.4''" if "r \<in> set (rp_Reachable report)" for r
    using that ip unfolding parts(5) by auto
  then show "pf_IP (rp_Best report) = ''1.2.3.4''" using ne parts(3) by simp
qed

theorem setup_then_run_witness:
  "\<exists>data err evs r st'.
     runSetup insertion_sort sample_probes (json_marshal sample_ff (\<lambda>_ _. True)) (\<lambda>_. None) 8443 = (None, Some data) \<and>
     startProxy (sample_start\<lparr>sp_load := written_env data\<rparr>) False \<lparr>so_calls = 0, so_open = []\<rparr> =
       ((err, evs, Some r), st') \<and>
     cf_ListenPort (rn_cfg r) = 8443 \<and> rt_endpoints (rn_router r) = [new_endpoint ''1.2.3.4:443'']"
proof -
  let ?m = "json_marshal sample_ff (\<lambda>_ _. True)"
  let ?report = "Preflight_Run insertion_sort sample_probes (4 * Second)"
  obtain data where w: "writeCfg ?m (\<lambda>_. None) (setup_config 8443 ?report) = (None, Some data)"
    by (auto simp: writeCfg_def json_marshal_def Let_def simp del: print_json.simps)
  then have run: "runSetup insertion_sort sample_probes ?m (\<lambda>_. None) 8443 = (None, Some data)"
    using sample_report(1) by (simp add: runSetup_def Let_def)
  let ?env = "sample_start\<lparr>sp_load := written_env data\<rparr>"
  have "list_all (float_ok sample_ff) default_floats"
    using sample_half by (simp add: default_floats_def sample_floats)
  note go = setup_then_run [OF small_sort.slice_sorter_axioms refl run _ _ this, of ?env "\<lparr>so_calls = 0, so_open = []\<rparr>"]
  have "if pf_IP (rp_Best ?report) = []
    then startProxy ?env False \<lparr>so_calls = 0, so_open = []\<rparr> =
      ((Some [''config'', ''config: connect_ip or endpoints required''], [], None), \<lparr>so_calls = 0, so_open = []\<rparr>)
    else \<exists>err evs r st'. startProxy ?env False \<lparr>so_calls = 0, so_open = []\<rparr> = ((err, evs, Some r), st') \<and>
      cf_ListenPort (rn_cfg r) = 8443 \<and> cf_FakeSNI (rn_cfg r) = pf_Domain (rp_Best ?report) \<and>
      rt_endpoints (rn_router r) = [new_endpoint (pf_IP (rp_Best ?report) @ '':443'')] \<and>
      All (rn_pool r) = map pf_Domain (rp_Reachable ?report) \<and>
      Best (rn_pool r) = pf_Domain (rp_Best ?report)"
    using json_path
    by (intro go) (simp_all add: sample_report(2) written_env_def toy_env_def sample_start_def sample_parse_ip_def)
  then show ?thesis using run by (auto simp: sample_report(2))
qed


section \<open>The constants of the configuration\<close>

text \<open>Every level has a meaning of its own to the logger, and every profile is one the hello builder
  has.\<close>

lemma config_constants_known:
  "map ParseLevel log_levels = [LevelDebug, LevelInfo, LevelStealth, LevelWarn, LevelError]"
  "set browser_profiles = insert ''random'' (dom profileMap)"
  "cf_LogLevel Default \<in> set log_levels" "cf_BypassMethod Default \<in> set bypass_methods"
  "cf_BrowserProfile Default \<in> set browser_profiles"
  by (auto simp: log_levels_def ParseLevel_def browser_profiles_def profileMap_def bypass_methods_def Default_def)

end
