(* ===== verification/Tune.thy ===== *)
theory Tune
  imports Tuner Utf8 Logger
begin

text \<open>
  The command \<^verbatim>\<open>tune\<close> of \<^verbatim>\<open>cmd/ghostnet/main.go\<close>: \<^verbatim>\<open>runTune\<close> with the text it
  prints (the banner is left out), over the system of \<open>Tuner\<close>; what a kernel that obeys
  \<^verbatim>\<open>sysctl -w\<close> holds afterwards, and what a second run says of it.
\<close>

section \<open>Columns\<close>

text \<open>The width of a column counts runes, an invalid byte for one.\<close>

function rune_count :: "string \<Rightarrow> nat" where
  "rune_count [] = 0"
| "rune_count (c # s) = Suc (rune_count (drop (snd (utf8_rune (c # s))) (c # s)))"
  by pat_completeness auto
termination
  by (relation "measure length") (use utf8_rune_width in auto)

definition column :: "nat \<Rightarrow> string \<Rightarrow> string" where
  "column n s = s @ replicate (n - rune_count s) (CHR '' '')"

text \<open>\<^verbatim>\<open>truncate\<close>, by bytes; \<open>None\<close> is the panic of a slice with a negative bound.\<close>

definition truncate_text :: "string \<Rightarrow> int \<Rightarrow> string option" where
  "truncate_text s n =
     (if int (length s) \<le> n then Some s
      else if n < 1 then None
      else Some (take (nat (n - 1)) s @ sym [0xE2, 0x80, 0xA6]))"

section \<open>The report\<close>

definition nl :: string where "nl = [CHR 0x0A]"

text \<open>Text in a colour.\<close>

definition in_colour :: "string \<Rightarrow> string \<Rightarrow> string" where
  "in_colour colour s = colour @ s @ cReset"

definition cross :: string where "cross = sym [0xE2, 0x9C, 0x97]"

definition tick :: string where "tick = sym [0xE2, 0x9C, 0x93]"

definition dot :: string where "dot = sym [0xC2, 0xB7]"

definition long_dash :: string where "long_dash = sym [0xE2, 0x80, 0x94]"

definition tune_head :: string where
  "tune_head =
     in_colour cCyan (nl @ ''Applying Linux kernel optimizations...'') @ nl @ nl @
     ''  '' @ column 45 ''SETTING'' @ ''  '' @ column 15 ''BEFORE'' @ ''  '' @ ''AFTER'' @ nl @
     ''  '' @ column 45 (replicate 45 (CHR ''-'')) @ ''  '' @ column 15 (replicate 15 (CHR ''-'')) @ ''  '' @
       replicate 15 (CHR ''-'') @ nl"

definition tune_row :: "tune_result \<Rightarrow> string option" where
  "tune_row r =
     (if tr_Error r \<noteq> []
      then Some (''  '' @ in_colour cRed cross @ '' '' @ column 44 (tr_Key r) @ ''  '' @ column 15 (tr_Before r) @
                 ''  ERROR: '' @ tr_Error r @ nl)
      else let marker = (if tr_Changed r then ''  '' @ in_colour cGreen tick else ''  '' @ in_colour cGray dot)
           in case truncate_text (tr_Before r) 15 of
                None \<Rightarrow> None
              | Some before \<Rightarrow>
                  (case truncate_text (tr_After r) 15 of
                     None \<Rightarrow> None
                   | Some after \<Rightarrow>
                       Some (marker @ '' '' @ column 44 (tr_Key r) @ ''  '' @ column 15 before @ ''  '' @
                             after @ nl)))"

text \<open>The rows, and the count of those with a tick.\<close>

fun tune_rows :: "tune_result list \<Rightarrow> nat \<Rightarrow> (string \<times> nat) option" where
  "tune_rows [] changed = Some ([], changed)"
| "tune_rows (r # rs) changed =
     (case tune_row r of
        None \<Rightarrow> None
      | Some line \<Rightarrow>
          map_option (\<lambda>(lines, n). (line @ lines, n))
            (tune_rows rs (if tr_Error r = [] \<and> tr_Changed r then changed + 1 else changed)))"

text \<open>An error as \<^verbatim>\<open>%v\<close> prints it.\<close>

fun error_text :: "go_error \<Rightarrow> string" where
  "error_text [] = []"
| "error_text [msg] = msg"
| "error_text (msg # e) = msg @ '': '' @ error_text e"

definition tune_summary :: "nat \<Rightarrow> nat \<Rightarrow> int \<Rightarrow> string" where
  "tune_summary changed n ulimit =
     nl @ in_colour cCyan ''Summary:'' @ nl @
     ''  settings changed : '' @ dec changed @ '' / '' @ dec n @ nl @
     (if ulimit > 0 then ''  current ulimit   : '' @ dec_int ulimit @ nl else [])"

definition tune_warning :: "go_error option \<Rightarrow> string" where
  "tune_warning err =
     (case err of None \<Rightarrow> [] | Some e \<Rightarrow> ''  '' @ in_colour cRed (''warning: '' @ error_text e) @ nl)"

definition dry_note :: string where
  "dry_note =
     nl @ ''  '' @ in_colour cYellow
       (''[dry-run] no changes applied '' @ long_dash @ '' run without --dry-run to apply'') @ nl"

definition applied_note :: string where
  "applied_note =
     nl @ ''  '' @ in_colour cGreen
       (tick @ '' Kernel settings applied and persisted to /etc/sysctl.d/99-ghostnet.conf'') @ nl @
     ''  '' @ in_colour cGreen
       (tick @ '' ulimit settings written to /etc/security/limits.d/99-ghostnet.conf'') @ nl"

definition needs_root :: go_error where
  "needs_root = [''tune requires root '' @ long_dash @ '' run with: sudo ./ghostnet tune'']"

text \<open>The error and the printed text, \<open>None\<close> for a panic, and the system afterwards. Nothing reads the
  screen, so the text is put together at the end.\<close>

definition runTune ::
  "'w system \<Rightarrow> bool \<Rightarrow> bool \<Rightarrow> 'w \<Rightarrow> (go_error option \<times> string) option \<times> 'w" where
  "runTune sys IsRoot dryRun w =
     (if \<not> IsRoot \<and> \<not> dryRun then (Some (Some needs_root, []), w)
      else case Tuner_Apply sys dryRun w of
        ((results, err), w) \<Rightarrow>
          (case tune_rows results 0 of
             None \<Rightarrow> (None, w)
           | Some (rows, changed) \<Rightarrow>
               (let ulimit = CurrentUlimit (sys_read sys w ''/proc/self/limits'')
                in (Some (None,
                      tune_head @ rows @ tune_summary changed (length results) ulimit @ tune_warning err @
                      (if dryRun then dry_note else applied_note)), w))))"

section \<open>The report never fails\<close>

lemma truncate_text_15: "truncate_text s 15 \<noteq> None"
  by (simp add: truncate_text_def)

lemma tune_row_Some: "\<exists>line. tune_row r = Some line"
  using truncate_text_15 [of "tr_Before r"] truncate_text_15 [of "tr_After r"]
  by (auto simp: tune_row_def Let_def)

lemma tune_rows_Some: "\<exists>rows. tune_rows rs n = Some (rows, n + tune_changed rs)"
proof (induction rs arbitrary: n)
  case (Cons r rs)
  from tune_row_Some obtain line where "tune_row r = Some line" by blast
  moreover obtain rows where
    "tune_rows rs (if tr_Error r = [] \<and> tr_Changed r then n + 1 else n) =
       Some (rows, (if tr_Error r = [] \<and> tr_Changed r then n + 1 else n) + tune_changed rs)"
    using Cons by blast
  ultimately show ?case by (auto simp: tune_changed_def)
qed (simp add: tune_changed_def)

lemma runTune_result:
  assumes "IsRoot \<or> dryRun" and "Tuner_Apply sys dryRun w = ((results, err), w')"
  shows "\<exists>rows. runTune sys IsRoot dryRun w =
    (Some (None, tune_head @ rows @
       tune_summary (tune_changed results) (length results)
         (CurrentUlimit (sys_read sys w' ''/proc/self/limits'')) @
       tune_warning err @ (if dryRun then dry_note else applied_note)), w')"
  using assms tune_rows_Some [of results 0] by (auto simp: runTune_def Let_def)

section \<open>A kernel that obeys\<close>

definition bbr_commands :: "string list list" where
  "bbr_commands =
     [[''modprobe'', ''tcp_bbr''], [''sysctl'', ''-w'', ''net.core.default_qdisc=fq''],
      [''sysctl'', ''-w'', ''net.ipv4.tcp_congestion_control=bbr'']]"

abbreviation set_command :: "Setting \<Rightarrow> string list" where
  "set_command s \<equiv> [''sysctl'', ''-w'', st_Key s @ ''='' @ st_Value s]"

abbreviation setting_read :: "'w system \<Rightarrow> 'w \<Rightarrow> Setting \<Rightarrow> go_error + string" where
  "setting_read sys w s \<equiv> sys_read sys w (proc_sys_path (st_Key s))"

text \<open>Setting a key of the table succeeds, the kernel then shows that value and the other keys as
  before; the two files and the commands for BBR leave the keys of the table alone. Whether files can
  be written is left open.\<close>

definition sysctl_laws :: "'w system \<Rightarrow> bool" where
  "sysctl_laws sys \<longleftrightarrow>
     (\<forall>w. \<forall>s \<in> set settings. snd (fst (sys_exec sys (set_command s) w)) \<and>
        (\<forall>t \<in> set settings. setting_read sys (snd (sys_exec sys (set_command s) w)) t =
           (if t = s then Inr (shown (st_Value s)) else setting_read sys w t))) \<and>
     (\<forall>w. \<forall>args \<in> set bbr_commands. \<forall>t \<in> set settings.
        setting_read sys (snd (sys_exec sys args w)) t = setting_read sys w t) \<and>
     (\<forall>w path content. \<forall>t \<in> set settings.
        path \<in> {''/etc/sysctl.d/99-ghostnet.conf'', ''/etc/security/limits.d/99-ghostnet.conf''} \<longrightarrow>
        setting_read sys (snd (sys_write sys path content w)) t = setting_read sys w t)"

lemma sysctl_lawsD:
  assumes "sysctl_laws sys"
  shows "s \<in> set settings \<Longrightarrow> sys_exec sys (set_command s) w = ((out, ok), w') \<Longrightarrow> ok"
    and "s \<in> set settings \<Longrightarrow> t \<in> set settings \<Longrightarrow> sys_exec sys (set_command s) w = (r, w') \<Longrightarrow>
      setting_read sys w' t = (if t = s then Inr (shown (st_Value s)) else setting_read sys w t)"
    and "args \<in> set bbr_commands \<Longrightarrow> t \<in> set settings \<Longrightarrow>
      setting_read sys (snd (sys_exec sys args w)) t = setting_read sys w t"
    and "t \<in> set settings \<Longrightarrow> persistSysctl sys w = (e, w') \<Longrightarrow> setting_read sys w' t = setting_read sys w t"
    and "t \<in> set settings \<Longrightarrow> applyUlimit sys w = (e, w') \<Longrightarrow> setting_read sys w' t = setting_read sys w t"
proof -
  show "s \<in> set settings \<Longrightarrow> sys_exec sys (set_command s) w = ((out, ok), w') \<Longrightarrow> ok"
    using assms unfolding sysctl_laws_def by (metis fst_conv snd_conv)
  show "s \<in> set settings \<Longrightarrow> t \<in> set settings \<Longrightarrow> sys_exec sys (set_command s) w = (r, w') \<Longrightarrow>
      setting_read sys w' t = (if t = s then Inr (shown (st_Value s)) else setting_read sys w t)"
    using assms unfolding sysctl_laws_def by (metis snd_conv)
  show "args \<in> set bbr_commands \<Longrightarrow> t \<in> set settings \<Longrightarrow>
      setting_read sys (snd (sys_exec sys args w)) t = setting_read sys w t"
    using assms unfolding sysctl_laws_def by blast
  have files: "t \<in> set settings \<Longrightarrow> sys_write sys path content w = (e, w') \<Longrightarrow>
      path \<in> {''/etc/sysctl.d/99-ghostnet.conf'', ''/etc/security/limits.d/99-ghostnet.conf''} \<Longrightarrow>
      setting_read sys w' t = setting_read sys w t" for path content
    using assms unfolding sysctl_laws_def by (metis snd_conv)
  show "t \<in> set settings \<Longrightarrow> persistSysctl sys w = (e, w') \<Longrightarrow> setting_read sys w' t = setting_read sys w t"
    using files unfolding persistSysctl_def by blast
  show "t \<in> set settings \<Longrightarrow> applyUlimit sys w = (e, w') \<Longrightarrow> setting_read sys w' t = setting_read sys w t"
    using files unfolding applyUlimit_def by blast
qed

lemma apply_loop_tunes:
  assumes "sysctl_laws sys"
  shows "set ss \<subseteq> set settings \<Longrightarrow> apply_loop sys False ss w = (rs, w') \<Longrightarrow> t \<in> set settings \<Longrightarrow>
    setting_read sys w' t = (if t \<in> set ss then Inr (shown (st_Value t)) else setting_read sys w t)"
proof (induction ss arbitrary: w rs)
  case (Cons s ss)
  obtain out ok w1 where x: "sys_exec sys (set_command s) w = ((out, ok), w1)" by (metis prod.exhaust)
  have s: "s \<in> set settings" using Cons.prems by simp
  obtain r where "apply_one sys False s w = (r, w1)"
    using x by (cases ok) (auto simp: apply_one_def Let_def)
  then obtain rs' where "apply_loop sys False ss w1 = (rs', w')"
    using Cons.prems by (auto split: prod.splits)
  from Cons.IH [OF _ this] Cons.prems sysctl_lawsD(2) [OF assms s _ x]
  show ?case by auto
qed simp

lemma loadBBR_frame:
  assumes "sysctl_laws sys" "t \<in> set settings"
  shows "setting_read sys (loadBBR sys w) t = setting_read sys w t"
  using sysctl_lawsD(3) [OF assms(1) _ assms(2)] by (simp add: loadBBR_def bbr_commands_def Let_def)

text \<open>Whatever becomes of the files, the kernel is tuned.\<close>

lemma Tuner_Apply_tunes:
  assumes "sysctl_laws sys" and "Tuner_Apply sys False w = (r, w')"
  shows "tuned sys w'"
proof -
  obtain rs w1 where l: "apply_loop sys False settings w = (rs, w1)" by fastforce
  obtain e w2 where p: "persistSysctl sys w1 = (e, w2)" by fastforce
  obtain e' w3 where u: "applyUlimit sys w2 = (e', w3)" by fastforce
  have "setting_read sys w' t = setting_read sys w1 t" if "t \<in> set settings" for t
    using assms(2) l p u that sysctl_lawsD(4) [OF assms(1) that p] sysctl_lawsD(5) [OF assms(1) that u]
      loadBBR_frame [OF assms(1) that, of w3]
    by (auto simp: Tuner_Apply_def split: option.splits)
  then show ?thesis
    using apply_loop_tunes [OF assms(1) subset_refl l] by (simp add: tuned_def list_all_iff)
qed

lemma length_apply_loop: "length (fst (apply_loop sys dryRun ss w)) = length ss"
  using arg_cong [OF apply_loop_keys, of length] by simp

lemma length_settings: "length settings = 23"
  by (simp add: settings_def)


text \<open>A kernel that keeps its values under their paths, on a disk that is full: the report claims the
  files were written.\<close>

definition obedient_system :: "(string \<Rightarrow> string option) system" where
  "obedient_system =
     \<lparr>sys_read = (\<lambda>w p. case w p of None \<Rightarrow> Inl [''no such file''] | Some s \<Rightarrow> Inr s),
      sys_exec = (\<lambda>args w.
        case split_first (CHR ''='') (last args) of
          Some (k, v) \<Rightarrow> (([], True), w(proc_sys_path k \<mapsto> shown v))
        | None \<Rightarrow> (([], True), w)),
      sys_write = (\<lambda>p s w. (Some [''no space left on device''], w))\<rparr>"

lemma settings_keys: "list_all (\<lambda>s. CHR ''='' \<notin> set (st_Key s)) settings"
  by (simp add: settings_def)

lemma settings_paths: "distinct (map (\<lambda>s. proc_sys_path (st_Key s)) settings)"
  by (simp add: settings_def proc_sys_path_def)

lemma obedient_laws: "sysctl_laws obedient_system"
proof -
  have split: "split_first (CHR ''='') (st_Key s @ ''='' @ st_Value s) = Some (st_Key s, st_Value s)"
    if "s \<in> set settings" for s
    using that settings_keys by (simp add: list_all_iff)
  have path: "proc_sys_path (st_Key s) = proc_sys_path (st_Key t) \<longleftrightarrow> s = t"
    if "s \<in> set settings" "t \<in> set settings" for s t
    using that settings_paths by (auto simp: distinct_map inj_on_def)
  have bbr: "setting_read obedient_system (snd (sys_exec obedient_system args w)) t = setting_read obedient_system w t"
    if "args \<in> set bbr_commands" "t \<in> set settings" for args w t
    using that
    by (auto simp: bbr_commands_def obedient_system_def split_first_def settings_def proc_sys_path_def)
  show ?thesis
    unfolding sysctl_laws_def using bbr split path by (auto simp: obedient_system_def)
qed


end
