(* ===== verification/Commands.thy ===== *)
theory Commands
  imports Tune Startup
begin

text \<open>
  The commands of \<^verbatim>\<open>cmd/ghostnet/main.go\<close>: their flags and defaults, what each runs, the
  benchmark, and the exit status. The parsing of the command line is that of a third-party package; a
  command here is what it hands over. Durations are integers without bound. Printed text is left out but for \<open>Tune\<close>.
\<close>

section \<open>The flags\<close>

datatype command =
    Cmd_run
  | Cmd_tune bool
  | Cmd_scan string bool int int
  | Cmd_setup int
  | Cmd_version
  | Cmd_bench int int

text \<open>A command without flags.\<close>

definition default_command :: "string \<Rightarrow> command option" where
  "default_command name =
     map_of
       [(''tune'', Cmd_tune False), (''scan'', Cmd_scan [] False 443 4000), (''setup'', Cmd_setup 40443),
        (''run'', Cmd_run), (''version'', Cmd_version), (''bench'', Cmd_bench 1000 5)] name"

text \<open>What the commands find around them. \<open>me_start\<close> holds the flags of all commands
  (\<^verbatim>\<open>--config\<close>, \<^verbatim>\<open>--debug\<close>, \<^verbatim>\<open>--stealth\<close>) and the answers of the system to
  \<^verbatim>\<open>startProxy\<close>; \<open>me_probes\<close> answers the probes of a scan on a port.\<close>

record 'w main_env =
  me_start :: start_env
  me_sys :: "'w system"
  me_root :: bool
  me_open :: "string \<Rightarrow> go_error + string"
  me_probes :: "int \<Rightarrow> nat \<Rightarrow> probe_env"
  me_marshal :: "cfgOut \<Rightarrow> go_error + bytes"
  me_write :: "bytes \<Rightarrow> go_error option"
  me_clock :: "int list"
  me_profile :: nat
  me_entropy :: "nat \<Rightarrow> entropy"

section \<open>The benchmark\<close>

text \<open>\<open>k\<close> counts the builds begun. \<open>None\<close>: the readings of the clock ran out before the deadline.\<close>

definition bench_builds :: "profile \<Rightarrow> (nat \<Rightarrow> entropy) \<Rightarrow> nat \<Rightarrow> nat \<Rightarrow> nat" where
  "bench_builds b ent k n =
     length (filter (\<lambda>i. case Build b ''hcaptcha.com'' (ent i) of Inl e \<Rightarrow> False | Inr _ \<Rightarrow> True) [k..<k + n])"

fun bench_loop ::
  "int \<Rightarrow> nat \<Rightarrow> profile \<Rightarrow> (nat \<Rightarrow> entropy) \<Rightarrow> nat \<Rightarrow> nat \<Rightarrow> int list \<Rightarrow> (nat \<times> int list) option" where
  "bench_loop deadline n b ent k built [] = None"
| "bench_loop deadline n b ent k built (now # clock) =
     (if now < deadline
      then bench_loop deadline n b ent (k + n) (built + bench_builds b ent k n) clock
      else Some (built, clock))"

text \<open>The count and the elapsed time that are printed.\<close>

definition run_bench :: "'w main_env \<Rightarrow> int \<Rightarrow> int \<Rightarrow> (nat \<times> int) option" where
  "run_bench env n dur =
     (case me_clock env of
        now # start # clock \<Rightarrow>
          (let deadline = now + dur * Second;
               b = NewBuilder ''random'' (me_profile env)
           in case bench_loop deadline (nat n) b (me_entropy env) 0 0 clock of
                Some (built, stopped # _) \<Rightarrow> Some (built, stopped - start)
              | _ \<Rightarrow> None)
      | _ \<Rightarrow> None)"

text \<open>While the random source answers, no build fails, and the count is that of all builds begun.\<close>

lemma Build_answers:
  assumes "ent_random e \<noteq> None" "ent_session e \<noteq> None" "ent_keyshare e \<noteq> None"
  shows "\<exists>rec. Build p sni e = Inr rec"
  using assms by (auto simp: Build_def rand_read_def Let_def)

lemma bench_builds_all:
  assumes "\<And>i. ent_random (ent i) \<noteq> None \<and> ent_session (ent i) \<noteq> None \<and> ent_keyshare (ent i) \<noteq> None"
  shows "bench_builds b ent k n = n"
proof -
  have "\<exists>rec. Build b ''hcaptcha.com'' (ent i) = Inr rec" for i using Build_answers assms by blast
  then have "(case Build b ''hcaptcha.com'' (ent i) of Inl e \<Rightarrow> False | Inr _ \<Rightarrow> True) = True" for i
    by (metis old.sum.simps(6))
  then show ?thesis unfolding bench_builds_def by simp
qed

lemma bench_loop_counts:
  assumes "\<And>i. ent_random (ent i) \<noteq> None \<and> ent_session (ent i) \<noteq> None \<and> ent_keyshare (ent i) \<noteq> None"
    and "list_all (\<lambda>t. t < deadline) turns" and "deadline \<le> now"
  shows "bench_loop deadline n b ent k built (turns @ now # rest) = Some (built + n * length turns, rest)"
  using assms(2)
proof (induction turns arbitrary: k built)
  case (Cons t turns)
  then show ?case by (simp add: bench_builds_all [of ent, OF assms(1)] add.assoc)
qed (use assms(3) in simp)

section \<open>The commands\<close>

text \<open>\<^verbatim>\<open>runSetup\<close> as a whole: the tuning, whose error is only a warning, then \<open>runSetup\<close> of
  \<open>Cli\<close>, and with the file written, the proxy.\<close>

definition setup_all ::
  "'w main_env \<Rightarrow> int \<Rightarrow> 'w \<Rightarrow> sock_state \<Rightarrow> (go_error option \<times> bytes option) \<times> 'w \<times> sock_state" where
  "setup_all env listenPort w st =
     (let w = (if me_root env then snd (Tuner_Apply (me_sys env) False w) else w);
          start = me_start env
      in case runSetup (sp_sort start) (me_probes env 443) (me_marshal env) (me_write env) listenPort of
           (Some e, d) \<Rightarrow> ((Some e, d), w, st)
         | (None, d) \<Rightarrow>
             (let path = sp_path start;
                  load = sp_load start;
                  load = (case d of None \<Rightarrow> load
                          | Some data \<Rightarrow> load\<lparr>le_read := (le_read load)(path := Inr data)\<rparr>)
              in case startProxy (start\<lparr>sp_load := load\<rparr>) False st of
                   ((err, _, _), st) \<Rightarrow> ((err, d), w, st)))"

text \<open>The error of a command, the bytes written to the configuration file, the system and the
  open sockets afterwards; \<open>None\<close> is a panic or a benchmark whose clock ran out.\<close>

definition execute ::
  "'w main_env \<Rightarrow> command \<Rightarrow> 'w \<Rightarrow> sock_state \<Rightarrow>
   (go_error option \<times> bytes option) option \<times> 'w \<times> sock_state" where
  "execute env cmd w st =
     (case cmd of
        Cmd_run \<Rightarrow>
          (case startProxy (me_start env) False st of ((err, _, _), st) \<Rightarrow> (Some (err, None), w, st))
      | Cmd_tune dryRun \<Rightarrow>
          (case runTune (me_sys env) (me_root env) dryRun w of
             (r, w) \<Rightarrow> (map_option (\<lambda>(err, _). (err, None)) r, w, st))
      | Cmd_scan sniFile writeBack port timeout \<Rightarrow>
          (Some (runScan (sp_sort (me_start env)) (me_probes env port) (me_marshal env) (me_write env)
              (sp_load (me_start env)) (sp_path (me_start env))
              (if sniFile = [] then None else Some (me_open env sniFile)) writeBack (timeout * Millisecond)),
           w, st)
      | Cmd_setup listenPort \<Rightarrow>
          (case setup_all env listenPort w st of (r, w, st) \<Rightarrow> (Some r, w, st))
      | Cmd_version \<Rightarrow> (Some (None, None), w, st)
      | Cmd_bench n dur \<Rightarrow> (map_option (\<lambda>_. (None, None)) (run_bench env n dur), w, st))"

text \<open>\<^verbatim>\<open>os.Exit(1)\<close> after an error.\<close>

definition exit_status :: "go_error option \<Rightarrow> nat" where
  "exit_status err = (if err = None then 0 else 1)"

section \<open>What a command can touch\<close>

lemma runTune_frame:
  assumes "runTune sys su dryRun w = (r, w')"
  shows "r \<noteq> None" and "w' \<noteq> w \<Longrightarrow> su \<and> \<not> dryRun"
proof -
  obtain results err w1 where a: "Tuner_Apply sys dryRun w = ((results, err), w1)" by (metis prod.exhaust)
  have "runTune sys su dryRun w = (Some (Some needs_root, []), w)" if "\<not> (su \<or> dryRun)"
    using that by (simp add: runTune_def)
  with runTune_result [OF _ a, of su] assms show "r \<noteq> None" by (cases "su \<or> dryRun") auto
  show "w' \<noteq> w \<Longrightarrow> su \<and> \<not> dryRun"
    using assms Tuner_Apply_dry [of sys w] tune_rows_Some
    by (cases dryRun; cases su) (auto simp: runTune_def Let_def split: option.splits)
qed

lemma startProxy_sockets:
  assumes "fresh_fds (sp_sock env)" "startProxy env scan st = (r, st')"
  shows "so_open st' = so_open st"
  using startProxy_exits [OF assms(1), of scan st] assms(2) by auto

lemma runScan_file:
  "runScan srt probes marshal wr env path file writeBack timeout = (e, Some d) \<Longrightarrow> writeBack"
  by (auto simp: runScan_def Let_def split: sum.splits if_splits)


text \<open>Setting up without root, from a table of descriptors with 7 open.\<close>

definition sample_env :: "(string \<Rightarrow> string option) main_env" where
  "sample_env =
     \<lparr>me_start = sample_start, me_sys = obedient_system, me_root = False,
      me_open = (\<lambda>_. Inl [''no such file'']), me_probes = (\<lambda>_. sample_probes),
      me_marshal = json_marshal sample_ff (\<lambda>_ _. True), me_write = (\<lambda>_. None),
      me_clock = [], me_profile = 0, me_entropy = (\<lambda>_. zero_entropy)\<rparr>"


end
