(* ===== verification/GenConfig.thy ===== *)
theory GenConfig
  imports ConfigJson
begin

text \<open>
  \<^verbatim>\<open>writeDefaultConfig\<close> of \<^verbatim>\<open>cmd/ghostnet/main.go\<close>, which writes the text of a configuration by
  hand, with its columns lined up, instead of marshalling it: that the decoder reads it, and as what.
\<close>

section \<open>The text\<close>

text \<open>\<^verbatim>\<open>%.1f\<close>: the nearest tenth, the even one of two.\<close>

definition tenths :: "real \<Rightarrow> nat" where
  "tenths x =
     (let q = nat \<lfloor>x * 10\<rfloor>; r = x * 10 - real q
      in if 2 * r < 1 then q else if 2 * r > 1 then q + 1 else if even q then q else q + 1)"

definition fixed1 :: "real \<Rightarrow> string" where
  "fixed1 x =
     (let t = tenths \<bar>x\<bar>
      in (if x < 0 then ''-'' else []) @ dec (t div 10) @ ''.'' @ dec (t mod 10))"

definition quoted :: "string \<Rightarrow> string" where "quoted s = CHR 0x22 # s @ [CHR 0x22]"

definition bool_text :: "bool \<Rightarrow> string" where "bool_text b = (if b then ''true'' else ''false'')"

fun quoted_elems :: "string list \<Rightarrow> string" where
  "quoted_elems [] = []"
| "quoted_elems (x # xs) = quoted x @ (if xs = [] then [] else CHR '','' # quoted_elems xs)"

definition array_text :: "string list \<Rightarrow> string" where
  "array_text xs = ''['' @ quoted_elems xs @ '']''"

text \<open>A line: the values begin in column 30.\<close>

definition member_text :: "string \<Rightarrow> string \<Rightarrow> string" where
  "member_text k t = ''  '' @ quoted k @ '':'' @ replicate (27 - length k) (CHR '' '') @ t"

fun member_lines :: "(string \<times> string) list \<Rightarrow> string" where
  "member_lines [] = []"
| "member_lines ((k, t) # ms) =
     member_text k t @ (if ms = [] then [] else CHR '','' # CHR 0x0A # member_lines ms)"

definition generated_fake_pool :: "string list" where
  "generated_fake_pool = [''hcaptcha.com'', ''cloudflare.com'', ''ajax.googleapis.com'']"

definition generated_pool :: "string list" where
  "generated_pool =
     [''hcaptcha.com'', ''cloudflare.com'', ''ajax.googleapis.com'', ''fonts.googleapis.com'', ''www.gstatic.com'']"

definition default_members :: "Config \<Rightarrow> (string \<times> string) list" where
  "default_members cfg =
     [(''listen_host'', quoted (cf_ListenHost cfg)),
      (''listen_port'', dec_int (cf_ListenPort cfg)),
      (''connect_ip'', quoted ''YOUR_SERVER_IP''),
      (''connect_port'', dec_int (cf_ConnectPort cfg)),
      (''endpoints'', array_text []),
      (''bypass_method'', quoted (cf_BypassMethod cfg)),
      (''fake_sni'', quoted (cf_FakeSNI cfg)),
      (''fake_sni_pool'', array_text generated_fake_pool),
      (''browser_profile'', quoted (cf_BrowserProfile cfg)),
      (''ttl_spoof'', bool_text (cf_TTLSpoof cfg)),
      (''fragment_size'', dec_int (cf_FragmentSize cfg)),
      (''fake_delay_ms'', fixed1 (cf_FakeDelayMs cfg)),
      (''min_delay_ms'', fixed1 (cf_MinDelayMs cfg)),
      (''max_delay_ms'', fixed1 (cf_MaxDelayMs cfg)),
      (''bypass_timeout'', fixed1 (cf_BypassTimeout cfg)),
      (''connect_timeout'', fixed1 (cf_ConnectTimeout cfg)),
      (''read_timeout'', fixed1 (cf_ReadTimeout cfg)),
      (''write_timeout'', fixed1 (cf_WriteTimeout cfg)),
      (''jitter_ms'', fixed1 (cf_JitterMs cfg)),
      (''retry_limit'', dec_int (cf_RetryLimit cfg)),
      (''retry_base_ms'', fixed1 (cf_RetryBaseMs cfg)),
      (''retry_max_ms'', fixed1 (cf_RetryMaxMs cfg)),
      (''circuit_breaker_threshold'', dec_int (cf_CircuitBreakerThreshold cfg)),
      (''circuit_breaker_cooldown'', fixed1 (cf_CircuitBreakerCooldownS cfg)),
      (''recv_buffer'', dec_int (cf_RecvBuffer cfg)),
      (''max_connections'', dec_int (cf_MaxConnections cfg)),
      (''idle_timeout'', dec_int (cf_IdleTimeout cfg)),
      (''rate_limit'', dec_int (cf_RateLimit cfg)),
      (''worker_pool_size'', dec_int (cf_WorkerPoolSize cfg)),
      (''log_level'', quoted (cf_LogLevel cfg)),
      (''log_client_sni'', bool_text (cf_LogClientSNI cfg)),
      (''log_file'', quoted []),
      (''log_no_color'', bool_text False),
      (''stats_interval'', dec_int (cf_StatsInterval cfg)),
      (''prometheus_enabled'', bool_text (cf_PrometheusEnabled cfg)),
      (''prometheus_addr'', quoted (cf_PrometheusAddr cfg)),
      (''pprof_enabled'', bool_text (cf_PprofEnabled cfg)),
      (''pprof_addr'', quoted (cf_PprofAddr cfg)),
      (''domain_probe_enabled'', bool_text (cf_DomainProbeEnabled cfg)),
      (''domain_probe_interval'', dec_int (cf_DomainProbeInterval cfg)),
      (''domain_pool'', array_text generated_pool),
      (''plugins'', array_text [])]"

definition default_text :: "Config \<Rightarrow> string" where
  "default_text cfg =
     CHR ''{'' # CHR 0x0A # member_lines (default_members cfg) @ CHR 0x0A # CHR ''}'' # [CHR 0x0A]"

text \<open>The error, and the bytes handed to the file.\<close>

definition writeDefaultConfig :: "(bytes \<Rightarrow> go_error option) \<Rightarrow> go_error option \<times> bytes" where
  "writeDefaultConfig wr =
     (let data = str_bytes (default_text Default)
      in case wr data of Some e \<Rightarrow> (Some (wrap_error ''gen-config'' e), data) | None \<Rightarrow> (None, data))"

section \<open>Reading it\<close>

definition reads_as :: "string \<Rightarrow> json \<Rightarrow> bool" where
  "reads_as t v \<longleftrightarrow>
     (\<forall>r n. ends_number r \<longrightarrow> 2 * length (t @ r) < n \<longrightarrow> read_value n (t @ r) = Some (v, r))"

lemma reads_asD: "reads_as t v \<Longrightarrow> ends_number r \<Longrightarrow> 2 * length (t @ r) < n \<Longrightarrow> read_value n (t @ r) = Some (v, r)"
  by (simp add: reads_as_def)

lemma reads_as_print: "json_ok v \<Longrightarrow> reads_as (print_json d v) v"
  using read_print(1) unfolding reads_as_def by blast

text \<open>Characters that are written as they are.\<close>

definition plain_char :: "char \<Rightarrow> bool" where
  "plain_char c \<longleftrightarrow> write_char c = [c] \<and> (of_char c :: nat) < 0x80"

definition plain :: "string \<Rightarrow> bool" where
  "plain s \<longleftrightarrow> list_all plain_char s"

lemma write_string_plain: "plain s \<Longrightarrow> write_string s = s"
  by (induction s) (simp_all add: plain_def plain_char_def write_string.simps [of "[]"] write_string.simps [of "_ # _"])

lemma plain_ascii: "plain s \<Longrightarrow> ascii s"
  by (auto simp: plain_def plain_char_def ascii_def list_all_iff)

lemma quoted_plain: "plain s \<Longrightarrow> quoted s = json_quote s"
  by (simp add: quoted_def json_quote_def write_string_plain)

lemma reads_as_quoted: "plain s \<Longrightarrow> reads_as (quoted s) (JStr s)"
  using reads_as_print [of "JStr s" 0] by (simp add: quoted_plain plain_ascii)

lemma reads_as_bool: "reads_as (bool_text b) (JBool b)"
  using reads_as_print [of "JBool b" 0] by (simp add: bool_text_def split: if_splits)

lemma reads_as_int: "reads_as (dec_int n) (JNum (dec_int n))"
  using reads_as_print [of "JNum (dec_int n)" 0] by (simp add: number_text_dec_int)

lemma read_quoted_elems:
  "list_all plain xs \<Longrightarrow> xs \<noteq> [] \<Longrightarrow> 2 * length (quoted_elems xs @ CHR '']'' # r) + 1 < n \<Longrightarrow>
     read_elems n (quoted_elems xs @ CHR '']'' # r) = Some (map JStr xs, r)"
proof (induction xs arbitrary: n)
  case (Cons x xs)
  then obtain k where n: "n = Suc k" by (cases n) auto
  let ?y = "(if xs = [] then [] else CHR '','' # quoted_elems xs) @ CHR '']'' # r"
  have "ends_number ?y" by (simp add: ends_number_def is_digit_def)
  then have v: "read_value k (quoted x @ ?y) = Some (JStr x, ?y)"
    using Cons.prems n by (intro reads_asD [OF reads_as_quoted]) auto
  show ?case
  proof (cases "xs = []")
    case False
    then have "read_elems k (quoted_elems xs @ CHR '']'' # r) = Some (map JStr xs, r)"
      using Cons n by (intro Cons.IH) (simp_all add: quoted_def)
    with v False show ?thesis by (simp add: n is_ws_def)
  qed (use v in \<open>simp add: n is_ws_def\<close>)
qed simp

lemma reads_as_array:
  assumes "list_all plain xs"
  shows "reads_as (array_text xs) (JArr (map JStr xs))"
proof (cases xs)
  case Nil
  then show ?thesis using reads_as_print [of "JArr []" 0] by (simp add: array_text_def)
next
  case (Cons x xs')
  show ?thesis
    unfolding reads_as_def
  proof (intro allI impI)
    fix r n
    assume n: "2 * length (array_text xs @ r) < n"
    then obtain k where k: "n = Suc k" by (cases n) auto
    have "read_elems k (quoted_elems xs @ CHR '']'' # r) = Some (map JStr xs, r)"
      using assms n k Cons by (intro read_quoted_elems) (simp_all add: array_text_def)
    moreover have "next_char (quoted_elems xs @ CHR '']'' # r) = Some (CHR 0x22, tl (quoted_elems xs) @ CHR '']'' # r)"
      by (simp add: Cons quoted_def is_ws_def)
    ultimately show "read_value n (array_text xs @ r) = Some (JArr (map JStr xs), r)"
      by (simp add: k array_text_def is_ws_def)
  qed
qed

text \<open>The members of an object, one to a line.\<close>

definition member_ok :: "string \<times> string \<Rightarrow> string \<times> json \<Rightarrow> bool" where
  "member_ok m v \<longleftrightarrow> fst m = fst v \<and> plain (fst m) \<and> reads_as (snd m) (snd v)"

lemma next_char_blanks: "next_char (replicate k (CHR '' '') @ s) = next_char s"
  by (induction k) simp_all

lemma next_char_line: "next_char (CHR 0x0A # s) = next_char s"
  by (simp add: next_char_def skip_ws_def is_ws_def)

lemma read_member_lines:
  "list_all2 member_ok ms vs \<Longrightarrow> ms \<noteq> [] \<Longrightarrow>
     2 * length (member_lines ms @ CHR 0x0A # CHR ''}'' # r) + 1 < n \<Longrightarrow>
     read_members n (member_lines ms @ CHR 0x0A # CHR ''}'' # r) = Some (vs, r)"
proof (induction ms vs arbitrary: n rule: list_all2_induct)
  case (Cons m ms v vs)
  obtain key t where m: "m = (key, t)" by (cases m)
  obtain w where v: "v = (key, w)" and key: "plain key" and t: "reads_as t w"
    using Cons.hyps m by (cases v) (auto simp: member_ok_def)
  obtain k where n: "n = Suc k" using Cons.prems(2) by (cases n) auto
  let ?y = "(if ms = [] then [] else CHR '','' # CHR 0x0A # member_lines ms) @ CHR 0x0A # CHR ''}'' # r"
  let ?pad = "replicate (27 - length key) (CHR '' '')"
  have "ends_number ?y" by (simp add: ends_number_def is_digit_def)
  then have "read_value k (t @ ?y) = Some (w, ?y)"
    using Cons.prems(2) n by (intro reads_asD [OF t]) (simp_all add: m member_text_def quoted_def)
  then have valr: "read_value k (?pad @ t @ ?y) = Some (w, ?y)"
    using read_blank(1) [OF next_char_blanks] by simp
  have text_eq: "member_lines (m # ms) @ CHR 0x0A # CHR ''}'' # r =
      CHR '' '' # CHR '' '' # CHR 0x22 # key @ CHR 0x22 # CHR '':'' # ?pad @ t @ ?y"
    by (simp add: m member_text_def quoted_def)
  have name: "read_string (key @ CHR 0x22 # z) = Some (key, z)" for z
    using read_string_json_quote [OF plain_ascii [OF key], of z] write_string_plain [OF key] by simp
  show ?case
  proof (cases "ms = []")
    case True
    with Cons.IH Cons.hyps(2) valr show ?thesis
      unfolding text_eq by (simp add: n is_ws_def name v next_char_line)
  next
    case False
    then have "read_members k (member_lines ms @ CHR 0x0A # CHR ''}'' # r) = Some (vs, r)"
      using Cons.prems(2) n by (intro Cons.IH) (simp_all add: m member_text_def)
    moreover have "read_members k (CHR 0x0A # z) = read_members k z" for z
      by (rule read_blank(3)) (simp add: next_char_def skip_ws_def is_ws_def)
    ultimately show ?thesis
      using valr False unfolding text_eq by (simp add: n is_ws_def name v next_char_line)
  qed
qed simp

lemma json_parse_lines:
  assumes "list_all2 member_ok ms vs" "ms \<noteq> []"
  shows "json_parse (CHR ''{'' # CHR 0x0A # member_lines ms @ CHR 0x0A # CHR ''}'' # [CHR 0x0A]) = Some (JObj vs)"
proof -
  define x where "x = CHR 0x0A # member_lines ms @ CHR 0x0A # CHR ''}'' # [CHR 0x0A]"
  obtain key t ms' where ms: "ms = (key, t) # ms'" using assms(2) by (cases ms) auto
  obtain y where y: "next_char x = Some (CHR 0x22, y)"
    by (auto simp: x_def ms member_text_def quoted_def next_char_def skip_ws_def is_ws_def)
  have "next_char x = next_char (member_lines ms @ CHR 0x0A # CHR ''}'' # [CHR 0x0A])"
    by (simp add: x_def next_char_def skip_ws_def is_ws_def)
  from read_blank(3) [OF this] read_member_lines [OF assms, of "[CHR 0x0A]"]
  have m: "read_members n x = Some (vs, [CHR 0x0A])" if "2 * length x < n" for n
    using that by (simp add: x_def)
  have "read_value (Suc n) (CHR ''{'' # x) = Some (JObj vs, [CHR 0x0A])" if "2 * length x < n" for n
    using m [OF that] y by (simp add: is_ws_def)
  then have "read_value (Suc (2 * length (CHR ''{'' # x))) (CHR ''{'' # x) = Some (JObj vs, [CHR 0x0A])"
    by (simp del: read_value.simps)
  then have "json_parse (CHR ''{'' # x) = Some (JObj vs)"
    unfolding json_parse_def by (simp add: skip_ws_def is_ws_def del: read_value.simps)
  then show ?thesis unfolding x_def .
qed

text \<open>A number of tenths is written and read without loss.\<close>

lemma fixed1_tenths: "fixed1 (real t / 10) = dec (t div 10) @ CHR ''.'' # dec (t mod 10)"
  by (simp add: fixed1_def tenths_def Let_def)

lemma read_int_dot: "read_int (dec a @ CHR ''.'' # s) = Some (dec a, CHR ''.'' # s)"
proof -
  obtain c u where c: "dec a = c # u" using dec_nonempty [of a] by (cases "dec a") auto
  have d: "is_digit c" using is_digit_dec [of c a] c by simp
  have n: "\<not> is_digit (CHR ''.'')" by (simp add: is_digit_def)
  have "takeWhile is_digit (dec a @ CHR ''.'' # s) = dec a" "dropWhile is_digit (dec a @ CHR ''.'' # s) = CHR ''.'' # s"
    using dec_digits_all [of a] n by (simp_all add: list_all_iff takeWhile_append dropWhile_append)
  then show ?thesis using dec_first [OF c] d by (simp add: read_int_def c)
qed

lemma dec_not_sign: "dec n @ s \<noteq> [] \<and> hd (dec n @ s) \<noteq> CHR ''-''"
  using dec_not_minus [of n] dec_nonempty [of n] by simp

lemma read_frac_dec: "read_frac (CHR ''.'' # dec b) = Some (CHR ''.'' # dec b, [])"
  by (simp add: read_frac_def read_digits_def dec_nonempty)

lemma reads_as_tenths: "reads_as (fixed1 (real t / 10)) (JNum (fixed1 (real t / 10)))"
proof -
  have "number_text (fixed1 (real t / 10))"
    unfolding fixed1_tenths number_text_def read_number_def
    using dec_not_sign [of "t div 10" "CHR ''.'' # dec (t mod 10)"]
    by (simp add: read_int_dot read_frac_dec read_exp_def)
  then show ?thesis using reads_as_print [of "JNum (fixed1 (real t / 10))" 0] by simp
qed

lemma json_real_tenths: "json_real (fixed1 (real t / 10)) = Some (real t / 10)"
proof -
  have "length (dec (t mod 10)) = 1" by (simp add: dec.simps)
  moreover have "undec (dec (t div 10) @ dec (t mod 10)) = t"
  proof (cases "t div 10 = 0")
    case True
    then have "t < 10" by simp
    then show ?thesis using undec_dec [of "t mod 10"] by (simp add: undec_def dec.simps [of 0])
  next
    case False
    then have "\<not> t < 10" by simp
    then have "dec t = dec (t div 10) @ dec (t mod 10)" by (simp add: dec.simps [of t] dec.simps [of "t mod 10"])
    then show ?thesis by (metis undec_dec)
  qed
  ultimately show ?thesis
    unfolding fixed1_tenths json_real_def
    using dec_not_sign [of "t div 10" "CHR ''.'' # dec (t mod 10)"]
    by (simp add: read_int_dot read_frac_dec read_exp_def read_sign_def undec_def [of "[]"])
qed

text \<open>What the text says, and that the decoder reads it.\<close>

definition generated_values :: "Config \<Rightarrow> (string \<times> json) list" where
  "generated_values cfg =
     [(''listen_host'', JStr (cf_ListenHost cfg)),
      (''listen_port'', enc_int (cf_ListenPort cfg)),
      (''connect_ip'', JStr ''YOUR_SERVER_IP''),
      (''connect_port'', enc_int (cf_ConnectPort cfg)),
      (''endpoints'', JArr []),
      (''bypass_method'', JStr (cf_BypassMethod cfg)),
      (''fake_sni'', JStr (cf_FakeSNI cfg)),
      (''fake_sni_pool'', JArr (map JStr generated_fake_pool)),
      (''browser_profile'', JStr (cf_BrowserProfile cfg)),
      (''ttl_spoof'', JBool (cf_TTLSpoof cfg)),
      (''fragment_size'', enc_int (cf_FragmentSize cfg)),
      (''fake_delay_ms'', JNum (fixed1 (cf_FakeDelayMs cfg))),
      (''min_delay_ms'', JNum (fixed1 (cf_MinDelayMs cfg))),
      (''max_delay_ms'', JNum (fixed1 (cf_MaxDelayMs cfg))),
      (''bypass_timeout'', JNum (fixed1 (cf_BypassTimeout cfg))),
      (''connect_timeout'', JNum (fixed1 (cf_ConnectTimeout cfg))),
      (''read_timeout'', JNum (fixed1 (cf_ReadTimeout cfg))),
      (''write_timeout'', JNum (fixed1 (cf_WriteTimeout cfg))),
      (''jitter_ms'', JNum (fixed1 (cf_JitterMs cfg))),
      (''retry_limit'', enc_int (cf_RetryLimit cfg)),
      (''retry_base_ms'', JNum (fixed1 (cf_RetryBaseMs cfg))),
      (''retry_max_ms'', JNum (fixed1 (cf_RetryMaxMs cfg))),
      (''circuit_breaker_threshold'', enc_int (cf_CircuitBreakerThreshold cfg)),
      (''circuit_breaker_cooldown'', JNum (fixed1 (cf_CircuitBreakerCooldownS cfg))),
      (''recv_buffer'', enc_int (cf_RecvBuffer cfg)),
      (''max_connections'', enc_int (cf_MaxConnections cfg)),
      (''idle_timeout'', enc_int (cf_IdleTimeout cfg)),
      (''rate_limit'', enc_int (cf_RateLimit cfg)),
      (''worker_pool_size'', enc_int (cf_WorkerPoolSize cfg)),
      (''log_level'', JStr (cf_LogLevel cfg)),
      (''log_client_sni'', JBool (cf_LogClientSNI cfg)),
      (''log_file'', JStr []),
      (''log_no_color'', JBool False),
      (''stats_interval'', enc_int (cf_StatsInterval cfg)),
      (''prometheus_enabled'', JBool (cf_PrometheusEnabled cfg)),
      (''prometheus_addr'', JStr (cf_PrometheusAddr cfg)),
      (''pprof_enabled'', JBool (cf_PprofEnabled cfg)),
      (''pprof_addr'', JStr (cf_PprofAddr cfg)),
      (''domain_probe_enabled'', JBool (cf_DomainProbeEnabled cfg)),
      (''domain_probe_interval'', enc_int (cf_DomainProbeInterval cfg)),
      (''domain_pool'', JArr (map JStr generated_pool)),
      (''plugins'', JArr [])]"

text \<open>The floats of the defaults have at most one digit after the point.\<close>

definition tenth :: "real \<Rightarrow> bool" where
  "tenth x \<longleftrightarrow> (\<exists>t. x = real t / 10)"

lemma tenth_number: "tenth x \<Longrightarrow> reads_as (fixed1 x) (JNum (fixed1 x))"
  unfolding tenth_def using reads_as_tenths by blast

lemma tenth_value:
  assumes "tenth x" "x < 10000"
  shows "dec_float (JNum (fixed1 x)) old = Inr x"
proof -
  obtain t where t: "x = real t / 10" using assms(1) by (auto simp: tenth_def)
  have "x < 2 ^ 1024 - 2 ^ 970" by (rule less_trans [OF assms(2)]) simp
  then show ?thesis using json_real_tenths [of t] by (simp add: dec_float_def t)
qed

lemma tenth_numbers: "tenth 1" "tenth (1 / 2)" "tenth (numeral k)"
proof -
  show "tenth 1" unfolding tenth_def by (rule exI [of _ 10]) simp
  show "tenth (1 / 2)" unfolding tenth_def by (rule exI [of _ 5]) simp
  show "tenth (numeral k)" unfolding tenth_def
    by (rule exI [of _ "numeral k * 10"])
      (simp only: of_nat_mult of_nat_numeral nonzero_mult_div_cancel_right zero_neq_numeral [symmetric] not_False_eq_True)
qed

lemma plain_simps [simp]: "plain []" "plain (c # s) \<longleftrightarrow> plain_char c \<and> plain s"
  by (simp_all add: plain_def)

lemma generated_plain:
  "list_all (\<lambda>m. plain (fst m)) (default_members Default)"
  "list_all plain generated_fake_pool" "list_all plain generated_pool"
  by (simp_all add: default_members_def generated_fake_pool_def generated_pool_def plain_char_def write_char_def)

lemma generated_reads: "list_all2 (\<lambda>m v. fst m = fst v \<and> reads_as (snd m) (snd v))
    (default_members Default) (generated_values Default)"
proof -
  note arrays = reads_as_array [of "[]", simplified] reads_as_array [OF generated_plain(2)]
    reads_as_array [OF generated_plain(3)]
  show ?thesis
    unfolding default_members_def generated_values_def Default_def
    by (simp add: reads_as_bool reads_as_int enc_int_def arrays tenth_number tenth_numbers
        reads_as_quoted plain_char_def write_char_def)
qed

lemma default_members_ok: "list_all2 member_ok (default_members Default) (generated_values Default)"
  using generated_reads generated_plain(1)
  by (auto simp: list_all2_conv_all_nth list_all_length member_ok_def)

lemma generated_decodes:
  "dec_fields Config_fields (generated_values Default) Default =
     Inr (Default\<lparr>cf_ConnectIP := ''YOUR_SERVER_IP'', cf_FakeSNIPool := generated_fake_pool,
       cf_DomainPool := generated_pool\<rparr>)"
proof -
  have e: "find_field Config_fields ''endpoints'' = Some (fld cf_Endpoints cf_Endpoints_update dec_endpoints)"
    by (rule find_Config_field) (simp add: Config_fields_def)
  have s: "dec_strings (JArr (map JStr xs)) old = Inr xs" for xs old
    using dec_strings_enc [of False xs old] by (simp add: enc_strings_def split: if_splits)
  show ?thesis
    unfolding generated_values_def
    by (simp add: Config_field_names e s fld_def tenth_value tenth_numbers Default_def int64_def
        dec_endpoints_def dec_plugins_def dec_slice_def)
qed

lemma generated_config:
  "json_unmarshal (str_bytes (default_text Default)) Default =
     Inr (Default\<lparr>cf_ConnectIP := ''YOUR_SERVER_IP'', cf_FakeSNIPool := generated_fake_pool,
       cf_DomainPool := generated_pool\<rparr>)"
proof -
  have "default_members Default \<noteq> []" by (simp add: default_members_def)
  then have "json_parse (default_text Default) = Some (JObj (generated_values Default))"
    using json_parse_lines [OF default_members_ok] by (simp add: default_text_def)
  then show ?thesis by (simp add: json_unmarshal_def dec_struct_def generated_decodes)
qed

section \<open>Loading it\<close>

definition generated :: Config where
  "generated = Default\<lparr>cf_ConnectIP := ''YOUR_SERVER_IP'', cf_FakeSNIPool := generated_fake_pool,
     cf_DomainPool := generated_pool\<rparr>"

lemma dec_no_CR: "CHR 0x0D \<notin> set (dec n)"
  using is_digit_dec [of "CHR 0x0D" n] by (auto simp: is_digit_def)

lemma member_lines_no_CR:
  "list_all (\<lambda>(k, t). CHR 0x0D \<notin> set k \<and> CHR 0x0D \<notin> set t) ms \<Longrightarrow> CHR 0x0D \<notin> set (member_lines ms)"
  by (induction ms rule: member_lines.induct) (auto simp: member_text_def quoted_def)

lemma default_text_no_CR: "CHR 0x0D \<notin> set (default_text Default)"
proof -
  have "CHR 0x0D \<notin> set (dec_int n)" "CHR 0x0D \<notin> set (fixed1 x)" for n x
    using dec_no_CR by (auto simp: dec_int_def fixed1_def Let_def)
  moreover have "CHR 0x0D \<notin> set (array_text generated_fake_pool)" "CHR 0x0D \<notin> set (array_text generated_pool)"
    by (simp_all add: array_text_def generated_fake_pool_def generated_pool_def quoted_def)
  ultimately have "list_all (\<lambda>(k, t). CHR 0x0D \<notin> set k \<and> CHR 0x0D \<notin> set t) (default_members Default)"
    unfolding default_members_def Default_def by (simp add: quoted_def bool_text_def array_text_def)
  then have "CHR 0x0D \<notin> set (member_lines (default_members Default))" by (rule member_lines_no_CR)
  then show ?thesis by (simp add: default_text_def)
qed

text \<open>The generated file is refused until its placeholder is replaced: on a system where the placeholder is
  no host, \<^verbatim>\<open>Load\<close> ends with an error, and with an address in \<^verbatim>\<open>GHOSTNET_CONNECT_IP\<close> it gives the
  defaults with that address, its single endpoint and the two shorter lists of names.\<close>

theorem generated_config_loads:
  assumes "writeDefaultConfig wr = (None, data)" and "le_json env = json_unmarshal"
    and "le_read env path = Inr data" and "\<not> is_yaml path"
    and "\<forall>v. v \<noteq> ''GHOSTNET_CONNECT_IP'' \<longrightarrow> le_getenv env v = []"
    and "ip = le_getenv env ''GHOSTNET_CONNECT_IP''" and "ip \<noteq> [] \<longrightarrow> le_parse_ip env ip \<noteq> None"
    and "le_parse_ip env ''YOUR_SERVER_IP'' = None" and "le_lookup env ''YOUR_SERVER_IP'' = None"
  shows "Load env path =
    (if ip = [] then (Some [''config: connect_ip unresolvable''], Some generated)
     else (None, Some (generated\<lparr>cf_ConnectIP := ip,
       cf_Endpoints := [\<lparr>ce_IP = ip, ce_Port = 443, ce_Weight = 1\<rparr>]\<rparr>)))"
proof -
  have data: "data = str_bytes (default_text Default)"
    using assms(1) by (auto simp: writeDefaultConfig_def Let_def split: option.splits)
  have cr: "13 \<notin> set data" unfolding data str_bytes_CR by (rule default_text_no_CR)
  have json: "le_json env data Default = Inr generated"
    unfolding assms(2) data generated_config generated_def ..
  have over: "applyEnvOverrides (le_getenv env) generated =
      (if ip = [] then generated else generated\<lparr>cf_ConnectIP := ip\<rparr>)"
    using assms(5) by (simp add: applyEnvOverrides_def assms(6) Let_def)
  have load: "Load env path =
      (case Validate (le_parse_ip env) (le_lookup env) (if ip = [] then generated else generated\<lparr>cf_ConnectIP := ip\<rparr>) of
         (e, c) \<Rightarrow> (e, Some c))"
    using assms(3,4) cr json over by (simp add: Load_def)
  show ?thesis
  proof (cases "ip = []")
    case True
    have "Validate (le_parse_ip env) (le_lookup env) generated = (Some [''config: connect_ip unresolvable''], generated)"
      using assms(8,9) by (simp add: Validate_def resolve_host_def generated_def)
    with True show ?thesis by (simp add: load)
  next
    case False
    let ?c = "generated\<lparr>cf_ConnectIP := ip\<rparr>"
    have "fields_ok ?c" by (simp add: fields_ok_def generated_def Default_def)
    then have "Validate (le_parse_ip env) (le_lookup env) ?c =
        (None, ?c\<lparr>cf_Endpoints := [\<lparr>ce_IP = ip, ce_Port = 443, ce_Weight = 1\<rparr>]\<rparr>)"
      using Validate_no_endpoints [of ?c "le_parse_ip env" "le_lookup env"] False assms(7)
      by (simp add: generated_def Default_def)
    with False show ?thesis by (simp add: load)
  qed
qed


theorem generated_config_loads_witness:
  "\<exists>data. writeDefaultConfig (\<lambda>_. None) = (None, data) \<and>
     Load (written_env data) ''config.json'' = (Some [''config: connect_ip unresolvable''], Some generated)"
proof -
  obtain data where w: "writeDefaultConfig (\<lambda>_. None) = (None, data)" by (simp add: writeDefaultConfig_def Let_def)
  have "le_json (written_env data) = json_unmarshal" "le_read (written_env data) ''config.json'' = Inr data"
    "le_getenv (written_env data) v = []" "le_parse_ip (written_env data) ''YOUR_SERVER_IP'' = None"
    "le_lookup (written_env data) ''YOUR_SERVER_IP'' = None" for v
    by (simp_all add: written_env_def toy_env_def sample_parse_ip_def sample_lookup_def)
  with generated_config_loads [OF w _ _ json_path, of "written_env data" "[]"] w show ?thesis by simp
qed

end
