(* ===== verification/Dialing.thy ===== *)
theory Dialing
  imports DomainPool Router NetAddr
begin

text \<open>
  What the program does with connections besides reading and writing: the TCP probes of the domain
  pool and of the router over the answers of the dialler, the options it sets on its sockets, and the
  local address it dials from.
\<close>

section \<open>Probes\<close>

text \<open>\<^verbatim>\<open>net.JoinHostPort\<close>.\<close>

definition JoinHostPort :: "string \<Rightarrow> string \<Rightarrow> string" where
  "JoinHostPort host port =
     (if CHR '':'' \<in> set host then CHR ''['' # host @ '']:'' @ port else host @ CHR '':'' # port)"

text \<open>\<^verbatim>\<open>net.DialTimeout\<close> on an address, with a limit: an error, or the time until the connection
  was closed again.\<close>

type_synonym dialler = "string \<Rightarrow> int \<Rightarrow> go_error + int"

definition pool_probe :: "dialler \<Rightarrow> Pool \<Rightarrow> string \<Rightarrow> int \<times> bool" where
  "pool_probe dial p domain =
     (case dial (JoinHostPort domain ''443'') (pl_probeTimeout p) of Inl e \<Rightarrow> (0, False) | Inr t \<Rightarrow> (t, True))"

definition router_probe :: "dialler \<Rightarrow> string \<Rightarrow> int \<times> bool" where
  "router_probe dial addr = (case dial addr (3 * Second) of Inl e \<Rightarrow> (0, False) | Inr t \<Rightarrow> (t, True))"

text \<open>A round of the pool, and one of the router, in which the probes are these.\<close>

definition pool_round :: "Entry slice_sort \<Rightarrow> dialler \<Rightarrow> round_env \<Rightarrow> Pool \<Rightarrow> Pool" where
  "pool_round srt dial env p =
     probeAll srt (env\<lparr>rd_probe := (\<lambda>i. pool_probe dial p (en_Domain (pl_entries p ! i)))\<rparr>) p"

definition router_round :: "dialler \<Rightarrow> (nat \<Rightarrow> int) \<Rightarrow> (nat \<Rightarrow> int) \<Rightarrow> router \<Rightarrow> router \<times> router_log list list" where
  "router_round dial now now' r =
     checkAll now now' (\<lambda>i. router_probe dial (ep_Addr (rt_endpoints r ! i))) r"

text \<open>The port a pool is made with has no effect on its rounds.\<close>

lemma probePort_ignored:
  "pool_round srt dial env (p\<lparr>pl_probePort := port\<rparr>) = (pool_round srt dial env p)\<lparr>pl_probePort := port\<rparr>"
  by (simp add: pool_round_def probeAll_def pool_probe_def Let_def)

section \<open>Socket options\<close>

datatype sock_opt =
    NoDelay bool
  | KeepAlive bool
  | KeepAlivePeriod int
  | ReadBuffer int
  | WriteBuffer int

text \<open>The calls made on a connection, in order; their errors are ignored. Only a TCP connection has
  them.\<close>

definition SetSocketBuffers :: "bool \<Rightarrow> int \<Rightarrow> sock_opt list" where
  "SetSocketBuffers is_tcp n = (if is_tcp then [ReadBuffer n, WriteBuffer n] else [])"

definition applyTCPOpts :: "bool \<Rightarrow> sock_opt list" where
  "applyTCPOpts is_tcp =
     (if \<not> is_tcp then []
      else [NoDelay True, KeepAlive True, KeepAlivePeriod (11 * Second), ReadBuffer 65536, WriteBuffer 65536])"

lemma applyTCPOpts_buffers: "drop 3 (applyTCPOpts is_tcp) = SetSocketBuffers is_tcp 65536"
  by (simp add: applyTCPOpts_def SetSocketBuffers_def)

text \<open>The address a connection is dialled from: \<open>None\<close> without one; with one, its bytes, none of them when
  the configured text is not an address. \<open>parse_ip\<close> is \<^verbatim>\<open>net.ParseIP\<close>.\<close>

definition localAddr :: "(string \<Rightarrow> bytes option) \<Rightarrow> string \<Rightarrow> bytes option" where
  "localAddr parse_ip interfaceIP =
     (if interfaceIP = [] then None
      else Some (case parse_ip interfaceIP of None \<Rightarrow> [] | Some ip \<Rightarrow> ip))"

end
