(* ===== verification/Spec2Isabelle.thy ===== *)
theory Spec2Isabelle
  imports Handler HelloRoundtrip Ja3 RateLimiter WorkerPool Server Reload Logger Injection Tuner Network HealthLoop LoadTypes Startup Tune Commands GenConfig Dialing
begin

text \<open>
  GhostNet is a TCP proxy that hides the server name of a TLS connection from a filter on the path.
  A client connects to it, the proxy dials an endpoint, injects a decoy ClientHello with a fake
  server name in raw packets that the filter reads and the endpoint ignores, and then relays the
  client's bytes. This development models its Go code, one theory per component, and proves what
  makes each component correct. Paths below are under \<^verbatim>\<open>src/internal\<close> unless they begin
  with \<^verbatim>\<open>cmd\<close>.

  How the program is put together. The accept loop of \<^verbatim>\<open>proxy/server.go\<close> admits a
  connection (rate limiter, connection limit) and submits it to the worker pool; a worker runs
  \<^verbatim>\<open>Handle\<close> of \<^verbatim>\<open>proxy/handler.go\<close>, which dials with retries an endpoint that the
  router picks, asks the domain pool for a fake name, has the adaptive bypass inject, relays with
  \<^verbatim>\<open>proxy/relay.go\<close>, and keeps the books of the metrics collector and of the endpoint's
  circuit breaker. The adaptive bypass tries the strategy its cache holds for the destination and
  falls back to the next; the strategies build a hello with \<^verbatim>\<open>tls/clienthello.go\<close>, wait as
  \<^verbatim>\<open>bypass/timing.go\<close> says, craft packets with \<^verbatim>\<open>bypass/packet_linux.go\<close> and send them.

  The theories:

  \<^item> \<open>Prelude\<close>: bytes, errors, Go's slice expressions, big-endian fields, the contract of
    \<^verbatim>\<open>sort.Slice\<close> (locale \<open>slice_sorter\<close>, interpreted on an insertion sort).
  \<^item> \<open>Fingerprint\<close>, \<open>ClientHello\<close>: \<^verbatim>\<open>tls/fingerprint.go\<close> and the builder of
    \<^verbatim>\<open>tls/clienthello.go\<close>.
  \<^item> \<open>Sni\<close>: \<^verbatim>\<open>tls/sni.go\<close> and \<^verbatim>\<open>parseSNI\<close> of \<^verbatim>\<open>proxy/relay.go\<close>. Neither
    parser panics; an answer is stable under more input (locale \<open>stream_parser\<close>), hence
    chunking does not matter.
  \<^item> \<open>HelloRoundtrip\<close>: both parsers read back the name the builder wrote; the size of a hello.
  \<^item> \<open>Ja3\<close>: \<^verbatim>\<open>JA3String\<close>, its value on built hellos, its panics.
  \<^item> \<open>Packet\<close>: headers and checksums of \<^verbatim>\<open>bypass/packet_linux.go\<close>; crafted packets are
    well formed and every field is read back.
  \<^item> \<open>Timing\<close>: the delays of \<^verbatim>\<open>bypass/timing.go\<close> and their bounds.
  \<^item> \<open>Strategies\<close>: the three \<^verbatim>\<open>Inject\<close> methods (\<^verbatim>\<open>bypass/wrongseq.go\<close>,
    \<^verbatim>\<open>fragment.go\<close>, \<^verbatim>\<open>desync.go\<close>), what each puts on the wire and its counters
    (locale \<open>attempt_contract\<close>).
  \<^item> \<open>LruCache\<close>: the strategy cache of \<^verbatim>\<open>bypass/adaptive.go\<close>, list and map over a store
    of shared elements, refines a list ordered by recency.
  \<^item> \<open>NetAddr\<close>: the text of addresses. \<open>Adaptive\<close>: the adaptive bypass, over the contract
    of the cache (locale \<open>strategy_cache\<close>).
  \<^item> \<open>Router\<close>: endpoints, circuit breaker, \<^verbatim>\<open>Pick\<close>, health checks of
    \<^verbatim>\<open>routing/router.go\<close>.
  \<^item> \<open>DomainPool\<close>: \<^verbatim>\<open>domain/pool.go\<close>. \<open>Config\<close>: \<^verbatim>\<open>config/config.go\<close>.
    \<open>Metrics\<close>: \<^verbatim>\<open>metrics/collector.go\<close>.
  \<^item> \<open>RateLimiter\<close>, \<open>WorkerPool\<close>: the two parts of \<^verbatim>\<open>proxy/server.go\<close>; the pool
    is a step relation over the statements of its goroutines.
  \<^item> \<open>Relay\<close>, \<open>Handler\<close>: \<^verbatim>\<open>proxy/relay.go\<close> and \<^verbatim>\<open>proxy/handler.go\<close>.
  \<^item> \<open>Server\<close>: the turns of \<^verbatim>\<open>ListenAndServe\<close>, interleaved with what the handlers do to the
    collector; which connections are admitted.
  \<^item> \<open>Logger\<close>: \<^verbatim>\<open>log/logger.go\<close>, the text of the lines and the channel to the writing
    goroutine.
  \<^item> \<open>Preflight\<close>: the scan of domains, \<^verbatim>\<open>preflight/checker.go\<close>. \<open>Cli\<close>: the scan, set-up and
    configuration writer of \<^verbatim>\<open>cmd/ghostnet/main.go\<close>; what is written loads again, up to the
    fields the writer forgets. \<open>Reload\<close>: the handler of SIGHUP, over the mutex of the configuration.
  \<^item> \<open>Text\<close>: what is used of \<^verbatim>\<open>strings\<close> and \<^verbatim>\<open>fmt\<close>. \<open>TcpInfo\<close>: the sequence numbers of
    \<^verbatim>\<open>proxy/tcpinfo_linux.go\<close>, read from a table the kernel wrote. \<open>Injection\<close>: from that
    table through the handler and the adaptive bypass to the wire. \<open>Tuner\<close>:
    \<^verbatim>\<open>tuner/tuner.go\<close>. \<open>Network\<close>: \<^verbatim>\<open>network/interface.go\<close> and the registry of
    \<^verbatim>\<open>bypass/plugin.go\<close>.
  \<^item> \<open>Utf8\<close>, \<open>Json\<close>: what is used of \<^verbatim>\<open>unicode/utf8\<close> and of the syntax of
    \<^verbatim>\<open>encoding/json\<close>: parser, printer, and that the one reads what the other writes.
    \<open>ConfigJson\<close>: the tags of the configuration's structs, what decoding does for each type, and that
    a written configuration loads. \<open>LoadTypes\<close>: a loaded configuration stays in its machine types.
  \<^item> \<open>Sockets\<close>: the raw sockets and the constructors of the bypasses, on Linux and elsewhere.
    \<open>Prometheus\<close>: the metrics page of \<^verbatim>\<open>metrics/collector.go\<close>. \<open>HealthLoop\<close>: the rounds
    of health checks of \<^verbatim>\<open>routing/router.go\<close>. \<open>Startup\<close>: \<^verbatim>\<open>startProxy\<close>, which puts
    everything together and takes it down, from a file that \<^verbatim>\<open>setup\<close> wrote.
  \<^item> \<open>Tune\<close>: the command \<^verbatim>\<open>tune\<close> with its report; what a kernel that obeys it holds
    afterwards. \<open>Commands\<close>: the commands of \<^verbatim>\<open>cmd/ghostnet/main.go\<close>, their flags, and what each can
    touch. \<open>GenConfig\<close>: the configuration \<^verbatim>\<open>writeDefaultConfig\<close> writes by hand, through parser and
    decoder. \<open>Dialing\<close>: the probes of the pool and of the router over the answers of the dialler, and
    the options of the connections.

  Conventions. A method returns its results and the updated receiver; an error is a value (the chain
  of its messages); a panic, or a call that has not returned, is \<open>None\<close>. What the world decides
  is an argument: clock readings, random draws, answers of system calls, the outcome of a
  \<^verbatim>\<open>select\<close> on a context, the order in which \<^verbatim>\<open>range\<close> visits a map. Fields of packets
  and hellos are words of their width; counters and durations are \<open>int\<close>; a \<^verbatim>\<open>float64\<close> is a
  real. A method that holds a lock throughout is one atomic step.

  Bounds. No fuel is used where the code cannot loop for ever: the retry loop is bounded by
  \<open>max_attempts\<close>, the other loops by their data. \<open>drain\<close> of
  \<open>Logger\<close> takes fuel; \<open>logger_flushes\<close> shows that \<open>n + 2\<close> steps per queued line and for the line in
  hand are enough for \<open>n\<close> writers. \<open>json_parse\<close> gives its readers more fuel than twice the
  length of the text; \<open>read_fuel\<close> shows that more changes nothing, since two calls in a row use up
  a character. The benchmark takes the readings of its clock, and ends at the first one past its deadline
  (\<open>bench_loop_counts\<close>). A relay whose peers stay silent does not return.

  Not modelled: the system calls themselves (sockets, files, \<^verbatim>\<open>sysctl\<close>), whose answers are
  arguments; the YAML library, a third-party package, whose answer is an argument; the HTTP servers
  behind the metrics page and pprof; the loading of plug-ins, done by the Go runtime; the parser of the command line, a third-party package,
  whose result is an argument; the text the commands print, but for that of \<^verbatim>\<open>tune\<close>; the seeding of
  the random generators, whose draws are arguments.
\<close>

end
